(* ===== verification/Prelude.thy ===== *)
theory Prelude
  imports Main "HOL-Library.Word"
begin

text \<open>
  What every component shares: C++ outcomes (a value, a thrown exception, or the end of the
  process), the parts of \<open>std::string\<close> the sources use, decimal numbers, the machine
  integers, and the fact collections the component proofs are driven by.
\<close>

named_theorems outcome_simps \<open>unfolding the outcome combinators\<close>
named_theorems string_simps \<open>equations of the std::string operations\<close>
named_theorems route_simps \<open>equations of the route components\<close>
named_theorems wire_simps \<open>what the handlers put on the wire\<close>

section \<open>Machine integers\<close>

type_synonym int16 = "16 word"
type_synonym int32 = "32 word"
type_synonym int64 = "64 word"
type_synonym uint16 = "16 word"
type_synonym size_t = "64 word"

text \<open>A C++ \<open>double\<close> is carried as its 64-bit representation.\<close>

type_synonym double = "64 word"

definition int64_max :: int64 where
  "int64_max = 9223372036854775807"

lemma sint_int64_max: "sint int64_max = 2 ^ 63 - 1"
  by (simp add: int64_max_def)

section \<open>Exceptions and outcomes\<close>

text \<open>
  The exception types the code throws or tells apart in a \<open>catch\<close>. All but
  \<open>Non_std\<close> derive from \<open>std::exception\<close>.
\<close>

datatype exn =
    Invalid_argument string
  | Runtime_error string
  | System_error string
  | Out_of_range string
  | Timed_out
  | Other_std string
  | Non_std

fun is_std :: "exn \<Rightarrow> bool" where
  "is_std Non_std = False"
| "is_std _ = True"

fun is_system_error :: "exn \<Rightarrow> bool" where
  "is_system_error (System_error _) = True"
| "is_system_error _ = False"

fun what :: "exn \<Rightarrow> string" where
  "what (Invalid_argument m) = m"
| "what (Runtime_error m) = m"
| "what (System_error m) = m"
| "what (Out_of_range m) = m"
| "what Timed_out = ''Timed out''"
| "what (Other_std m) = m"
| "what Non_std = []"

text \<open>
  A \<open>fault\<close> ends an evaluation early: a thrown exception, which a \<open>catch\<close> may stop, or
  the end of the process, which nothing stops (a failed \<open>DCHECK\<close> or \<open>CHECK\<close> of a debug
  build, \<open>std::terminate\<close> when an exception leaves a \<open>noexcept\<close> function, or undefined
  behaviour, after which nothing is known).
\<close>

datatype abort_cause = Check_failed string | Terminate exn | Undefined_behaviour string

datatype fault = Throw exn | Abort abort_cause

type_synonym 'a outcome = "fault + 'a"

abbreviation ok :: "'a \<Rightarrow> 'a outcome" where
  "ok \<equiv> Inr"

abbreviation throw :: "exn \<Rightarrow> 'a outcome" where
  "throw e \<equiv> Inl (Throw e)"

definition bind :: "'a outcome \<Rightarrow> ('a \<Rightarrow> 'b outcome) \<Rightarrow> 'b outcome" where
  "bind m f = (case m of Inl e \<Rightarrow> Inl e | Inr a \<Rightarrow> f a)"

definition check :: "bool \<Rightarrow> string \<Rightarrow> unit outcome" where
  "check b msg = (if b then ok () else Inl (Abort (Check_failed msg)))"

text \<open>\<open>catch_if p m h\<close>: a \<open>try\<close> block with one \<open>catch\<close> for the exceptions in \<open>p\<close>.\<close>

definition catch_if :: "(exn \<Rightarrow> bool) \<Rightarrow> 'a outcome \<Rightarrow> (exn \<Rightarrow> 'a outcome) \<Rightarrow> 'a outcome" where
  "catch_if p m h = (case m of
       Inl (Throw e) \<Rightarrow> if p e then h e else m
     | _ \<Rightarrow> m)"

abbreviation catch_std :: "'a outcome \<Rightarrow> (exn \<Rightarrow> 'a outcome) \<Rightarrow> 'a outcome" where
  "catch_std \<equiv> catch_if is_std"

definition noexcept :: "'a outcome \<Rightarrow> 'a outcome" where
  "noexcept m = (case m of Inl (Throw e) \<Rightarrow> Inl (Abort (Terminate e)) | _ \<Rightarrow> m)"

lemma bind_simps [simp, outcome_simps]:
  "bind (Inr a) f = f a"
  "bind (Inl e) f = Inl e"
  by (simp_all add: bind_def)

lemma catch_if_simps [simp, outcome_simps]:
  "catch_if p (Inr a) h = Inr a"
  "catch_if p (Inl (Abort c)) h = Inl (Abort c)"
  "p e \<Longrightarrow> catch_if p (throw e) h = h e"
  "\<not> p e \<Longrightarrow> catch_if p (throw e) h = throw e"
  by (simp_all add: catch_if_def)

lemma noexcept_simps [simp, outcome_simps]:
  "noexcept (Inr a) = Inr a"
  "noexcept (throw e) = Inl (Abort (Terminate e))"
  "noexcept (Inl (Abort c)) = Inl (Abort c)"
  by (simp_all add: noexcept_def)

lemma check_simps [simp, outcome_simps]:
  "check True msg = Inr ()"
  "check False msg = Inl (Abort (Check_failed msg))"
  by (simp_all add: check_def)

lemma bind_eq_Inr:
  "bind m f = Inr b \<longleftrightarrow> (\<exists>a. m = Inr a \<and> f a = Inr b)"
  by (cases m) simp_all

lemma bind_return [simp]: "bind m Inr = m"
  by (cases m) simp_all

lemma bind_assoc: "bind (bind m f) g = bind m (\<lambda>a. bind (f a) g)"
  by (cases m) simp_all

lemma check_eq_Inr [simp]: "check b msg = Inr u \<longleftrightarrow> b"
  by (simp add: check_def)

lemma noexcept_no_throw: "noexcept m \<noteq> throw e"
  by (cases m rule: sum.exhaust) (auto simp: noexcept_def split: fault.splits)

text \<open>Outcomes whose faults are exceptions of one kind (and never the end of the process).\<close>

definition throws_only :: "(exn \<Rightarrow> bool) \<Rightarrow> 'a outcome \<Rightarrow> bool" where
  "throws_only Q m \<longleftrightarrow> (case m of Inr _ \<Rightarrow> True | Inl (Throw e) \<Rightarrow> Q e | Inl (Abort _) \<Rightarrow> False)"

abbreviation std_faults :: "'a outcome \<Rightarrow> bool" where
  "std_faults \<equiv> throws_only is_std"

lemma throws_only_simps [simp, outcome_simps]:
  "throws_only Q (Inr a)" "throws_only Q (throw e) = Q e" "\<not> throws_only Q (Inl (Abort x))"
  by (simp_all add: throws_only_def)

lemma throws_only_bind:
  "throws_only Q m \<Longrightarrow> (\<And>a. m = ok a \<Longrightarrow> throws_only Q (f a)) \<Longrightarrow> throws_only Q (bind m f)"
  by (cases m) (auto simp: throws_only_def)

lemma throws_only_cases:
  assumes "throws_only Q m"
  obtains (returned) a where "m = Inr a" | (thrown) e where "m = throw e" "Q e"
  using assms by (auto simp: throws_only_def split: sum.splits fault.splits)

section \<open>Strings\<close>

text \<open>
  A raw string literal \<open>R"(...)"\<close> of the source is written with \<open>~\<close> for each backslash,
  which an inner string cannot hold.
\<close>

definition raw :: "string \<Rightarrow> string" where
  "raw s = map (\<lambda>c. if c = CHR ''~'' then CHR 0x5C else c) s"

abbreviation newline :: string where
  "newline \<equiv> [CHR 0x0A]"

text \<open>\<open>std::string::find(p, i)\<close>: the first occurrence of \<open>p\<close> at or after \<open>i\<close>, or \<open>npos\<close>.\<close>

function str_find :: "string \<Rightarrow> string \<Rightarrow> nat \<Rightarrow> nat option" where
  "str_find s p i =
     (if length s < i + length p then None
      else if take (length p) (drop i s) = p then Some i
      else str_find s p (Suc i))"
  by pat_completeness auto
termination
  by (relation "measure (\<lambda>(s, p, i). Suc (length s) - i)") auto

declare str_find.simps [simp del]

text \<open>\<open>std::string::replace(i, n, r)\<close>; it throws past the end of the string.\<close>

definition str_replace :: "string \<Rightarrow> nat \<Rightarrow> nat \<Rightarrow> string \<Rightarrow> string outcome" where
  "str_replace s i n r =
     (if length s < i then throw (Out_of_range ''basic_string::replace'')
      else ok (take i s @ r @ drop (i + n) s))"

text \<open>\<open>std::string::insert(i, t)\<close>, whose position is a \<open>size_t\<close>.\<close>

definition str_insert :: "string \<Rightarrow> size_t \<Rightarrow> string \<Rightarrow> string outcome" where
  "str_insert s i t =
     (if length s < unat i then throw (Out_of_range ''basic_string::insert'')
      else ok (take (unat i) s @ t @ drop (unat i) s))"

text \<open>Decimal digits, as the formatting functions print them.\<close>

fun dec :: "nat \<Rightarrow> string" where
  "dec n = (if n < 10 then [char_of (48 + n)] else dec (n div 10) @ [char_of (48 + n mod 10)])"

declare dec.simps [simp del]

definition dec_int :: "int \<Rightarrow> string" where
  "dec_int i = (if i < 0 then CHR ''-'' # dec (nat (- i)) else dec (nat i))"

subsection \<open>Finding and replacing\<close>

lemma str_find_None:
  assumes "str_find s p i = None" and "i \<le> k" and "k + length p \<le> length s"
  shows "take (length p) (drop k s) \<noteq> p"
  using assms
proof (induction s p i rule: str_find.induct)
  case (1 s p i)
  from "1.prems" have ge: "\<not> length s < i + length p"
    by simp
  with "1.prems"(1) have ne: "take (length p) (drop i s) \<noteq> p" and rec: "str_find s p (Suc i) = None"
    by (auto simp: str_find.simps [of s p i] split: if_splits)
  show ?case
  proof (cases "k = i")
    case False
    with "1.prems" have "Suc i \<le> k" by simp
    with "1.IH" [OF ge ne rec] "1.prems"(3) show ?thesis by blast
  qed (use ne in simp)
qed

lemma str_find_eqI:
  assumes "i \<le> k" and "k + length p \<le> length s" and "take (length p) (drop k s) = p"
    and "\<And>j. i \<le> j \<Longrightarrow> j < k \<Longrightarrow> take (length p) (drop j s) \<noteq> p"
  shows "str_find s p i = Some k"
  using assms
proof (induction s p i rule: str_find.induct)
  case (1 s p i)
  show ?case
  proof (cases "k = i")
    case True
    with "1.prems" show ?thesis by (simp add: str_find.simps [of s p i])
  next
    case False
    with "1.prems" have ge: "\<not> length s < i + length p" and lt: "Suc i \<le> k"
      and ne: "take (length p) (drop i s) \<noteq> p"
      by auto
    have "str_find s p (Suc i) = Some k"
      using "1.prems" lt by (intro "1.IH" [OF ge ne]) auto
    with ge ne show ?thesis by (simp add: str_find.simps [of s p i])
  qed
qed

lemma str_find_Some:
  assumes "str_find s p i = Some k"
  shows "i \<le> k \<and> k + length p \<le> length s \<and> take (length p) (drop k s) = p"
  using assms
  by (induction s p i rule: str_find.induct)
     (auto simp: str_find.simps [of _ _ i for i] split: if_splits)

lemma str_replace_within [string_simps]:
  "str_replace (a @ b @ c) (length a) (length b) r = ok (a @ r @ c)"
  by (simp add: str_replace_def)

lemma str_insert_end [string_simps]:
  "unat i = length s \<Longrightarrow> str_insert s i t = ok (s @ t)"
  by (simp add: str_insert_def)

subsection \<open>Decimal digits\<close>

lemma dec_nonempty [simp]: "dec n \<noteq> []"
  by (subst dec.simps) simp

lemma dec_digits: "c \<in> set (dec n) \<Longrightarrow> \<exists>d<10. c = char_of (48 + d :: nat)"
proof (induction n rule: dec.induct)
  case (1 n)
  show ?case
  proof (cases "n < 10")
    case True
    with "1.prems" show ?thesis by (auto simp: dec.simps [of n])
  next
    case False
    with "1.prems" "1.IH" [OF False] show ?thesis
      by (force simp: dec.simps [of n])
  qed
qed

lemma dec_no_brace: "CHR ''{'' \<notin> set (dec n)"
proof
  assume "CHR ''{'' \<in> set (dec n)"
  then obtain d :: nat where "d < 10" and "CHR ''{'' = char_of (48 + d)"
    using dec_digits by blast
  then have "of_char (CHR ''{'') = (48 + d) mod (256 :: nat)"
    by (simp only: of_char_of) 
  with \<open>d < 10\<close> show False by simp
qed

section \<open>Folding with early exit\<close>

text \<open>A \<open>for\<close> loop over a list whose body may throw.\<close>

fun fold_outcome :: "('s \<Rightarrow> 'a \<Rightarrow> 's outcome) \<Rightarrow> 's \<Rightarrow> 'a list \<Rightarrow> 's outcome" where
  "fold_outcome f s [] = ok s"
| "fold_outcome f s (x # xs) = bind (f s x) (\<lambda>s'. fold_outcome f s' xs)"

lemma fold_outcome_append:
  "fold_outcome f s (xs @ ys) = bind (fold_outcome f s xs) (\<lambda>s'. fold_outcome f s' ys)"
  by (induction xs arbitrary: s) (simp_all add: bind_assoc)

lemma fold_outcome_throws_only:
  "(\<And>s x. x \<in> set xs \<Longrightarrow> throws_only Q (f s x)) \<Longrightarrow> throws_only Q (fold_outcome f s xs)"
  by (induction xs arbitrary: s) (auto intro: throws_only_bind)

fun map_outcome :: "('a \<Rightarrow> 'b outcome) \<Rightarrow> 'a list \<Rightarrow> 'b list outcome" where
  "map_outcome f [] = ok []"
| "map_outcome f (x # xs) = bind (f x) (\<lambda>y. bind (map_outcome f xs) (\<lambda>ys. ok (y # ys)))"

lemma map_outcome_length: "map_outcome f xs = ok ys \<Longrightarrow> length ys = length xs"
  by (induction xs arbitrary: ys) (auto simp: bind_eq_Inr)

lemma map_outcome_ok:
  "(\<And>x. x \<in> set xs \<Longrightarrow> f x = ok (g x)) \<Longrightarrow> map_outcome f xs = ok (map g xs)"
  by (induction xs) auto

end
