(* ===== verification/Libraries.thy ===== *)
theory Libraries
  imports Prelude "HOL-Library.AList"
begin

text \<open>
  The third-party code the sources call (folly, boost, proxygen): it is not part of the
  repository, so it enters the model as parameters, grouped in one record per library, that
  the definitions using it take as an argument. What a theorem relies on is stated as a
  predicate on such a record (\<open>..._law\<close>), which paraphrases the library's documentation.
  The last section gives a concrete instance of each record for the witnesses.
\<close>

section \<open>folly\<close>

datatype UriEscapeMode = ALL | QUERY | PATH

datatype fmt_arg = FNat nat | FInt int | FStr string

fun show_arg :: "fmt_arg \<Rightarrow> string" where
  "show_arg (FNat n) = dec n"
| "show_arg (FInt i) = dec_int i"
| "show_arg (FStr s) = s"

typedecl dynamic

record folly_lib =
  fl_uriUnescape :: "UriEscapeMode \<Rightarrow> string \<Rightarrow> string outcome"
  fl_to_int64 :: "string \<Rightarrow> int64 outcome"
  fl_to_double :: "string \<Rightarrow> double outcome"
  fl_sformat :: "string \<Rightarrow> fmt_arg list \<Rightarrow> string"
  fl_gen_split :: "string \<Rightarrow> string \<Rightarrow> string list"
  fl_split2 :: "string \<Rightarrow> string \<Rightarrow> (string \<times> string) option"
  fl_toJson :: "dynamic \<Rightarrow> string outcome"
  fl_parseJson :: "string \<Rightarrow> dynamic outcome"

text \<open>
  \<open>fill t args\<close> replaces the \<open>{}\<close> of a template by the arguments in turn. \<open>sformat\<close>
  does that on templates with as many holes as arguments and no other braces.
\<close>

fun fill :: "string \<Rightarrow> fmt_arg list \<Rightarrow> string" where
  "fill [] as = []"
| "fill [c] as = [c]"
| "fill (c # d # t) as =
     (if c = CHR ''{'' \<and> d = CHR ''}'' then
        (case as of [] \<Rightarrow> c # d # fill t [] | a # as' \<Rightarrow> show_arg a @ fill t as')
      else c # fill (d # t) as)"

fun holes :: "string \<Rightarrow> nat" where
  "holes [] = 0"
| "holes [c] = 0"
| "holes (c # d # t) =
     (if c = CHR ''{'' \<and> d = CHR ''}'' then Suc (holes t) else holes (d # t))"

fun plain_template :: "string \<Rightarrow> bool" where
  "plain_template [] = True"
| "plain_template [c] = (c \<noteq> CHR ''{'' \<and> c \<noteq> CHR ''}'')"
| "plain_template (c # d # t) =
     (if c = CHR ''{'' then d = CHR ''}'' \<and> plain_template t
      else c \<noteq> CHR ''}'' \<and> plain_template (d # t))"

definition sformat_law :: "folly_lib \<Rightarrow> bool" where
  "sformat_law F \<longleftrightarrow> (\<forall>t as. plain_template t \<longrightarrow> holes t = length as \<longrightarrow> fl_sformat F t as = fill t as)"

text \<open>
  \<open>folly::to<int64_t>\<close>: an optional sign and decimal digits, refused (with an exception)
  where the value does not fit.
\<close>

definition is_digit :: "char \<Rightarrow> bool" where
  "is_digit c \<longleftrightarrow> 48 \<le> (of_char c :: nat) \<and> (of_char c :: nat) \<le> 57"

fun digits_value :: "nat \<Rightarrow> string \<Rightarrow> nat option" where
  "digits_value acc [] = Some acc"
| "digits_value acc (c # s) =
     (if is_digit c then digits_value (10 * acc + (of_char c - 48)) s else None)"

fun decimal_value :: "string \<Rightarrow> int option" where
  "decimal_value [] = None"
| "decimal_value (c # s) =
     (if c = CHR ''-'' then (if s = [] then None else map_option (\<lambda>n. - int n) (digits_value 0 s))
      else if c = CHR ''+'' then (if s = [] then None else map_option int (digits_value 0 s))
      else map_option int (digits_value 0 (c # s)))"

text \<open>Decimal numbers read back as they were written.\<close>

lemma digits_value_append:
  "digits_value acc (s @ t) = (case digits_value acc s of None \<Rightarrow> None | Some v \<Rightarrow> digits_value v t)"
  by (induction acc s rule: digits_value.induct) simp_all

lemma digit_char: "d < 10 \<Longrightarrow> is_digit (char_of (48 + d :: nat)) \<and> (of_char (char_of (48 + d :: nat)) :: nat) = 48 + d"
  by (simp add: is_digit_def of_char_of)

lemma digits_value_dec [string_simps]: "digits_value 0 (dec n) = Some n"
proof (induction n rule: dec.induct)
  case (1 n)
  show ?case
  proof (cases "n < 10")
    case True
    then show ?thesis
      using digit_char [of n] by (simp add: dec.simps [of n])
  next
    case False
    with 1 show ?thesis
      using digit_char [of "n mod 10"] by (simp add: dec.simps [of n] digits_value_append)
  qed
qed

lemma dec_inj [simp]: "dec m = dec n \<longleftrightarrow> m = n"
  using digits_value_dec by (metis option.inject)

lemma dec_all_digits [string_simps]: "list_all is_digit (dec n)"
  using dec_digits digit_char by (fastforce simp: list_all_iff)

lemma decimal_value_digits: "s \<noteq> [] \<Longrightarrow> list_all is_digit s \<Longrightarrow> decimal_value s = map_option int (digits_value 0 s)"
  by (cases s) (auto simp: is_digit_def)

lemma decimal_value_dec_int [string_simps]: "decimal_value (dec_int i) = Some i"
  by (simp add: dec_int_def decimal_value_digits dec_all_digits digits_value_dec)

definition in_int64 :: "int \<Rightarrow> bool" where
  "in_int64 i \<longleftrightarrow> - (2 ^ 63) \<le> i \<and> i < 2 ^ 63"

definition to_int64_law :: "folly_lib \<Rightarrow> bool" where
  "to_int64_law F \<longleftrightarrow> (\<forall>s i. decimal_value s = Some i \<longrightarrow>
     (if in_int64 i then fl_to_int64 F s = ok (word_of_int i)
      else \<exists>e. fl_to_int64 F s = throw e \<and> is_std e))"

text \<open>\<open>folly::uriUnescape\<close> decodes or throws \<open>std::invalid_argument\<close>.\<close>

definition unescape_law :: "folly_lib \<Rightarrow> bool" where
  "unescape_law F \<longleftrightarrow> (\<forall>m s. (\<exists>r. fl_uriUnescape F m s = ok r)
      \<or> (\<exists>msg. fl_uriUnescape F m s = throw (Invalid_argument msg)))"

definition unescaped :: "folly_lib \<Rightarrow> UriEscapeMode \<Rightarrow> string \<Rightarrow> string option" where
  "unescaped F m s = (case fl_uriUnescape F m s of Inr r \<Rightarrow> Some r | Inl _ \<Rightarrow> None)"

lemma unescape_cases:
  assumes "unescape_law F"
  obtains (decoded) r where "fl_uriUnescape F m s = ok r" "unescaped F m s = Some r"
  | (refused) msg where "fl_uriUnescape F m s = throw (Invalid_argument msg)" "unescaped F m s = None"
  using assms unfolding unescape_law_def unescaped_def by (metis sum.simps(5,6))

text \<open>
  \<open>folly::gen::split\<close> on a one-character delimiter yields the pieces between the delimiters
  (but for an empty one at the end, so the law leaves empty pieces aside).
\<close>

fun pieces :: "char \<Rightarrow> string \<Rightarrow> string list" where
  "pieces d [] = [[]]"
| "pieces d (c # s) =
     (if c = d then [] # pieces d s
      else (case pieces d s of [] \<Rightarrow> [[c]] | p # ps \<Rightarrow> (c # p) # ps))"

definition gen_split_law :: "folly_lib \<Rightarrow> bool" where
  "gen_split_law F \<longleftrightarrow> (\<forall>d s. filter (\<lambda>p. p \<noteq> []) (fl_gen_split F s [d]) =
     filter (\<lambda>p. p \<noteq> []) (pieces d s))"

text \<open>\<open>folly::split<false>\<close> into two pieces: cut at the first delimiter, or refuse.\<close>

fun cut :: "char \<Rightarrow> string \<Rightarrow> (string \<times> string) option" where
  "cut d [] = None"
| "cut d (c # s) =
     (if c = d then Some ([], s) else map_option (\<lambda>(a, b). (c # a, b)) (cut d s))"

definition split2_law :: "folly_lib \<Rightarrow> bool" where
  "split2_law F \<longleftrightarrow> (\<forall>d s. fl_split2 F [d] s = cut d s)"

section \<open>folly::IOBuf\<close>

text \<open>
  A buffer chain is seen through its iterator: the bytes of its segments, from the head.
\<close>

type_synonym iobuf = "string list"

record iobuf_lib =
  io_create :: "nat \<Rightarrow> iobuf"
  io_copyBuffer :: "string \<Rightarrow> iobuf"
  io_clone :: "iobuf \<Rightarrow> iobuf"
  io_prependChain :: "iobuf \<Rightarrow> iobuf \<Rightarrow> iobuf"
  io_length :: "iobuf \<Rightarrow> nat"
  io_tailroom :: "nat \<Rightarrow> string"

text \<open>
  A fresh buffer has one segment without data; \<open>copyBuffer\<close> holds the bytes given;
  \<open>a.prependChain(b)\<close> puts \<open>b\<close> before the head of the circular chain, that is, at its end;
  \<open>length()\<close> is the data length of the head segment alone. \<open>create(n)\<close> has room for at least
  \<open>n\<close> bytes; \<open>io_tailroom n\<close> is the uninitialised memory behind it.
\<close>

definition iobuf_law :: "iobuf_lib \<Rightarrow> bool" where
  "iobuf_law B \<longleftrightarrow>
     (\<forall>n. io_create B n = [[]]) \<and>
     (\<forall>s. concat (io_copyBuffer B s) = s) \<and>
     (\<forall>b. io_clone B b = b) \<and>
     (\<forall>a b. io_prependChain B a b = a @ b) \<and>
     (\<forall>s b. io_length B (s # b) = length s) \<and>
     (\<forall>n. n \<le> length (io_tailroom B n))"

section \<open>boost::regex\<close>

text \<open>
  A compiled \<open>basic_regex\<close> is determined by its expression. A match is seen through its
  named groups: \<open>None\<close> for a group that did not take part (whose \<open>str()\<close> is empty).
  \<open>regex_match\<close> throws when matching exceeds the library's complexity bound.
\<close>

type_synonym regex = string
type_synonym smatch = "string \<Rightarrow> string option"

record regex_lib =
  re_compile :: "string \<Rightarrow> regex outcome"
  re_match :: "regex \<Rightarrow> string \<Rightarrow> smatch option outcome"
  re_search_all :: "regex \<Rightarrow> string \<Rightarrow> smatch list"

definition group_matched :: "smatch \<Rightarrow> string \<Rightarrow> bool" where
  "group_matched m g \<longleftrightarrow> m g \<noteq> None"

definition group_str :: "smatch \<Rightarrow> string \<Rightarrow> string" where
  "group_str m g = (case m g of None \<Rightarrow> [] | Some s \<Rightarrow> s)"

text \<open>Compiling an expression either fails with a \<open>regex_error\<close> or gives that expression.\<close>

definition compile_law :: "regex_lib \<Rightarrow> bool" where
  "compile_law R \<longleftrightarrow> (\<forall>s. re_compile R s = ok s \<or> (\<exists>m. re_compile R s = throw (Runtime_error m)))"

section \<open>proxygen::HTTPMessage\<close>

text \<open>
  \<open>GET\<close> is the one method the library code names; any other is carried by its name.
\<close>

datatype HTTPMethod = GET | Method string

text \<open>A header is asked for by its name or by its \<open>HTTPHeaderCode\<close> enumerator.\<close>

datatype header_key = Header_name string | Header_code string

abbreviation HTTP_HEADER_CONTENT_TYPE :: header_key where
  "HTTP_HEADER_CONTENT_TYPE \<equiv> Header_code ''HTTP_HEADER_CONTENT_TYPE''"

abbreviation HTTP_HEADER_IF_MODIFIED_SINCE :: header_key where
  "HTTP_HEADER_IF_MODIFIED_SINCE \<equiv> Header_code ''HTTP_HEADER_IF_MODIFIED_SINCE''"

text \<open>
  The request message, which the code only reads, is the record of what its accessors return.
\<close>

record http_message =
  msg_getMethod :: "HTTPMethod option"
  msg_getPath :: string
  msg_hasQueryParam :: "string \<Rightarrow> bool"
  msg_getDecodedQueryParam :: "string \<Rightarrow> string outcome"
  msg_getQueryParams :: "(string \<times> string) list"
  msg_getSingleOrEmpty :: "header_key \<Rightarrow> string"
  msg_getCookie :: "string \<Rightarrow> string"

text \<open>Response headers are seen through \<open>forEach\<close>.\<close>

type_synonym headers = "(string \<times> string) list"

record headers_lib =
  hd_set :: "headers \<Rightarrow> header_key \<Rightarrow> string \<Rightarrow> headers"
  hd_getSingleOrEmpty :: "headers \<Rightarrow> header_key \<Rightarrow> string"
  hd_same :: "header_key \<Rightarrow> header_key \<Rightarrow> bool"

definition headers_law :: "headers_lib \<Rightarrow> bool" where
  "headers_law H \<longleftrightarrow>
     (\<forall>k. hd_same H k k) \<and>
     (\<forall>h k v k'. hd_getSingleOrEmpty H (hd_set H h k v) k' =
        (if hd_same H k k' then v else hd_getSingleOrEmpty H h k'))"

section \<open>Instances for the witnesses\<close>

fun hex_value :: "char \<Rightarrow> nat option" where
  "hex_value c = (let n = of_char c in
     if 48 \<le> n \<and> n \<le> 57 then Some (n - 48)
     else if 65 \<le> n \<and> n \<le> 70 then Some (n - 55)
     else if 97 \<le> n \<and> n \<le> 102 then Some (n - 87)
     else None)"

text \<open>Percent decoding; in \<open>QUERY\<close> mode a plus sign is a space.\<close>

fun ref_unescape :: "bool \<Rightarrow> string \<Rightarrow> string option" where
  "ref_unescape q [] = Some []"
| "ref_unescape q (c # s) =
     (if c = CHR ''%'' then
        (case s of
           a # b # s' \<Rightarrow> (case (hex_value a, hex_value b) of
               (Some h, Some l) \<Rightarrow> map_option (Cons (char_of (16 * h + l))) (ref_unescape q s')
             | _ \<Rightarrow> None)
         | _ \<Rightarrow> None)
      else if q \<and> c = CHR ''+'' then map_option (Cons (CHR '' '')) (ref_unescape q s)
      else map_option (Cons c) (ref_unescape q s))"

definition ref_folly :: folly_lib where
  "ref_folly = \<lparr>
     fl_uriUnescape = (\<lambda>m s. case ref_unescape (m = QUERY) s of
        None \<Rightarrow> throw (Invalid_argument ''incomplete percent encode sequence'') | Some r \<Rightarrow> ok r),
     fl_to_int64 = (\<lambda>s. case decimal_value s of
        None \<Rightarrow> throw (Other_std ''Invalid leading character'')
      | Some i \<Rightarrow> if in_int64 i then ok (word_of_int i) else throw (Other_std ''Overflow'')),
     fl_to_double = (\<lambda>s. throw (Other_std ''Unable to convert'')),
     fl_sformat = fill,
     fl_gen_split = (\<lambda>s d. case d of [c] \<Rightarrow> pieces c s | _ \<Rightarrow> [s]),
     fl_split2 = (\<lambda>d s. case d of [c] \<Rightarrow> cut c s | _ \<Rightarrow> None),
     fl_toJson = (\<lambda>_. throw (Runtime_error ''json'')),
     fl_parseJson = (\<lambda>_. throw (Runtime_error ''json''))\<rparr>"

lemma ref_folly_laws:
  "unescape_law ref_folly" "sformat_law ref_folly" "to_int64_law ref_folly" "gen_split_law ref_folly" "split2_law ref_folly"
  by (auto simp: unescape_law_def sformat_law_def to_int64_law_def gen_split_law_def split2_law_def ref_folly_def
      split: option.splits)

definition ref_iobuf :: iobuf_lib where
  "ref_iobuf = \<lparr>
     io_create = (\<lambda>_. [[]]),
     io_copyBuffer = (\<lambda>s. [s]),
     io_clone = (\<lambda>b. b),
     io_prependChain = (\<lambda>a b. a @ b),
     io_length = (\<lambda>b. case b of [] \<Rightarrow> 0 | s # _ \<Rightarrow> length s),
     io_tailroom = (\<lambda>n. replicate n CHR ''?'')\<rparr>"

lemma ref_iobuf_law: "iobuf_law ref_iobuf"
  by (simp add: iobuf_law_def ref_iobuf_def)

text \<open>An instance in which an expression without groups stands for itself.\<close>

definition ref_regex :: regex_lib where
  "ref_regex = \<lparr>
     re_compile = (\<lambda>s. ok s),
     re_match = (\<lambda>r s. ok (if r = s then Some (\<lambda>_. None) else None)),
     re_search_all = (\<lambda>r s. [])\<rparr>"

lemma ref_regex_law: "compile_law ref_regex"
  by (simp add: compile_law_def ref_regex_def)

definition lower :: "string \<Rightarrow> string" where
  "lower s = map (\<lambda>c. let n = of_char c in
     if 65 \<le> n \<and> n \<le> (90 :: nat) then char_of (n + 32) else c) s"

fun header_name :: "header_key \<Rightarrow> string" where
  "header_name (Header_name s) = lower s"
| "header_name (Header_code s) = s"

definition ref_headers :: headers_lib where
  "ref_headers = \<lparr>
     hd_set = (\<lambda>h k v. AList.update (header_name k) v h),
     hd_getSingleOrEmpty = (\<lambda>h k. case map_of h (header_name k) of None \<Rightarrow> [] | Some v \<Rightarrow> v),
     hd_same = (\<lambda>k k'. header_name k = header_name k')\<rparr>"

lemma ref_headers_law: "headers_law ref_headers"
  by (simp add: headers_law_def ref_headers_def update_conv')

text \<open>A bare \<open>GET\<close> request for a path.\<close>

definition plain_message :: "string \<Rightarrow> http_message" where
  "plain_message p = \<lparr>
     msg_getMethod = Some GET, msg_getPath = p,
     msg_hasQueryParam = (\<lambda>_. False), msg_getDecodedQueryParam = (\<lambda>_. ok []),
     msg_getQueryParams = [], msg_getSingleOrEmpty = (\<lambda>_. []), msg_getCookie = (\<lambda>_. [])\<rparr>"

end
