(* ===== verification/Buffers.thy ===== *)
theory Buffers
  imports Libraries
begin

text \<open>
  \<open>src/StringUtils.h\<close>: the conversion of a buffer chain to a string. Its \<open>offset\<close> is an
  \<open>int\<close>, into which the \<open>size_t\<close> length of every segment is added.
\<close>

definition to_string_step :: "int32 \<times> string \<Rightarrow> string \<Rightarrow> (int32 \<times> string) outcome" where
  "to_string_step s buf =
     (let (offset, ret) = s; len = (of_nat (length buf) :: size_t) in
      bind (str_insert ret (scast offset) buf)
        (\<lambda>ret'. ok (ucast ((scast offset :: size_t) + len), ret')))"

definition to_string :: "iobuf \<Rightarrow> string outcome" where
  "to_string buffer =
     bind (fold_outcome to_string_step (0, []) buffer) (\<lambda>(offset, ret). ok ret)"

section \<open>What the conversion returns\<close>

text \<open>The offset is the length so far modulo the width of an \<open>int\<close>, read back as signed.\<close>

lemma sint_small: "n < 2 ^ 31 \<Longrightarrow> sint (of_nat n :: int32) = int n"
  by transfer (simp add: signed_take_bit_int_eq_self)

lemma sint_overflown:
  assumes "2 ^ 31 \<le> n" and "n < 2 ^ 32"
  shows "sint (of_nat n :: int32) = int n - 2 ^ 32"
proof -
  from assms have "int n div 2147483648 = 1" by simp
  with assms show ?thesis
    by transfer (simp add: signed_take_bit_eq_take_bit_minus take_bit_int_eq_self bit_iff_odd)
qed

lemma position_small: "n < 2 ^ 31 \<Longrightarrow> unat (scast (of_nat n :: int32) :: size_t) = n"
  by (simp add: scast_eq sint_small unat_of_nat)

lemma position_overflown:
  assumes "2 ^ 31 \<le> n" and "n < 2 ^ 32"
  shows "n < unat (scast (of_nat n :: int32) :: size_t)"
proof -
  have "uint (scast (of_nat n :: int32) :: size_t) = (int n - 2 ^ 32) mod 2 ^ 64"
    by (simp add: scast_eq sint_overflown [OF assms] uint_word_of_int del: of_int_diff)
  also have "\<dots> = int n - 2 ^ 32 + 2 ^ 64"
    using assms by (subst mod_add_self2 [symmetric]) (simp add: mod_pos_pos_trivial)
  finally show ?thesis
    using assms by (simp add: unat_eq_nat_uint)
qed

lemma ucast_scast_int: "ucast (scast (w :: int32) :: size_t) = w"
  by transfer (simp add: take_bit_signed_take_bit)

lemma ucast_plus: "ucast ((x :: size_t) + y) = (ucast x + ucast y :: int32)"
proof (transfer, simp)
  fix x y :: int
  have "take_bit 32 (take_bit 64 x + take_bit 64 y)
      = take_bit 32 (take_bit 32 (take_bit 64 x) + take_bit 32 (take_bit 64 y))"
    by (simp only: take_bit_add)
  also have "\<dots> = take_bit 32 (x + y)"
    by (simp add: take_bit_add)
  finally show "take_bit 32 (x + y) = take_bit 32 (take_bit 64 x + take_bit 64 y)"
    by simp
qed

lemma ucast_of_nat_size: "ucast (of_nat m :: size_t) = (of_nat m :: int32)"
  by transfer simp

lemma offset_wraps:
  "ucast ((scast (of_nat n :: int32) :: size_t) + of_nat m) = (of_nat (n + m) :: int32)"
  by (simp add: ucast_plus ucast_scast_int ucast_of_nat_size)

text \<open>One turn of the loop, while the text so far is shorter than 2 GiB and once it is not.\<close>

lemma to_string_step_small:
  "length ret < 2 ^ 31 \<Longrightarrow>
   to_string_step (of_nat (length ret), ret) buf
     = ok (of_nat (length (ret @ buf)), ret @ buf)"
  by (simp only: to_string_step_def Let_def prod.case position_small str_insert_end bind_simps
      offset_wraps length_append)

lemma to_string_step_overflown:
  "2 ^ 31 \<le> length ret \<Longrightarrow> length ret < 2 ^ 32 \<Longrightarrow>
   to_string_step (of_nat (length ret), ret) buf = throw (Out_of_range ''basic_string::insert'')"
  by (simp only: to_string_step_def Let_def prod.case str_insert_def position_overflown
      if_True bind_simps)

lemma to_string_loop:
  "length (ret @ concat (butlast segs)) < 2 ^ 31 \<Longrightarrow>
   fold_outcome to_string_step (of_nat (length ret), ret) segs
     = ok (of_nat (length (ret @ concat segs)), ret @ concat segs)"
proof (induction segs arbitrary: ret)
  case (Cons s segs)
  then have "length ret < 2 ^ 31" by simp
  then have step: "to_string_step (of_nat (length ret), ret) s
      = ok (of_nat (length (ret @ s)), ret @ s)"
    by (rule to_string_step_small)
  show ?case
  proof (cases segs)
    case Nil
    then show ?thesis by (simp only: fold_outcome.simps step bind_simps) simp
  next
    case (Cons t ts)
    with Cons.prems have "length ((ret @ s) @ concat (butlast segs)) < 2 ^ 31" by simp
    from Cons.IH [OF this] show ?thesis
      by (simp only: fold_outcome.simps step bind_simps) simp
  qed
qed simp

text \<open>
  The whole chain is returned whenever all but its last segment stay below 2 GiB; any
  further segment after that bound (and below 4 GiB) makes \<open>insert\<close> throw.
\<close>

lemma to_string_concat:
  assumes "length (concat (butlast buffer)) < 2 ^ 31"
  shows "to_string buffer = ok (concat buffer)"
  using to_string_loop [of "[]" buffer] assms by (simp add: to_string_def)

lemma to_string_overflow:
  assumes "length (concat (butlast front)) < 2 ^ 31"
    and "2 ^ 31 \<le> length (concat front)" and "length (concat front) < 2 ^ 32"
  shows "to_string (front @ seg # rest) = throw (Out_of_range ''basic_string::insert'')"
proof -
  have "fold_outcome to_string_step (0, []) front
      = ok (of_nat (length (concat front)), concat front)"
    using to_string_loop [of "[]" front] assms(1) by simp
  then show ?thesis
    by (simp only: to_string_def fold_outcome_append bind_simps fold_outcome.simps
        to_string_step_overflown [OF assms(2,3)])
qed

text \<open>What the other components use: chains of ordinary size are converted exactly.\<close>

definition small :: "iobuf \<Rightarrow> bool" where
  "small b \<longleftrightarrow> length (concat b) < 2 ^ 31"

lemma concat_butlast_le: "length (concat (butlast b)) \<le> length (concat b)"
  by (induction b) auto

lemma to_string_small [simp]: "small b \<Longrightarrow> to_string b = ok (concat b)"
  using concat_butlast_le [of b] by (intro to_string_concat) (simp add: small_def)

section \<open>Properties\<close>

text \<open>
  The conversion is exact as long as everything before the last segment stays below 2 GiB:
  the text is the bytes of all segments in order.
\<close>

theorem to_string_exact:
  assumes "length (concat (butlast buffer)) < 2 ^ 31"
  shows "to_string buffer = ok (concat buffer)"
  using assms by (rule to_string_concat)

lemma to_string_exact_witness: "to_string [''ab'', [], ''c''] = ok (concat [''ab'', [], ''c''])"
  by (rule to_string_exact) simp

text \<open>
  Past 2 GiB the \<open>int\<close> offset has gone negative: any further segment, even an empty one,
  makes \<open>insert\<close> throw \<open>std::out_of_range\<close>, so a large body cannot be read as a string at all.
\<close>

theorem to_string_overflows:
  assumes "length (concat (butlast front)) < 2 ^ 31"
    and "2 ^ 31 \<le> length (concat front)" and "length (concat front) < 2 ^ 32"
  shows "to_string (front @ seg # rest) = throw (Out_of_range ''basic_string::insert'')"
  using assms by (rule to_string_overflow)

lemma to_string_overflows_witness:
  "to_string ([replicate (2 ^ 31) CHR ''x''] @ [] # []) = throw (Out_of_range ''basic_string::insert'')"
  by (rule to_string_overflows) simp_all

end
