(* ===== verification/Requests.thy ===== *)
theory Requests
  imports Buffers
begin

text \<open>
  \<open>src/HTTPRequest.h\<close> and \<open>src/HTTPRequest.cpp\<close>: a request's message and body, with the
  method and the decoded path worked out at construction, and the views that look up query
  parameters, headers and cookies. A \<open>const HTTPMessage*\<close> is an option, \<open>None\<close> for a null
  pointer.
\<close>

record http_request =
  req_message :: http_message
  req_body :: iobuf
  req_path :: string
  req_method :: HTTPMethod

section \<open>Method and path\<close>

definition getUnescapedPath :: "folly_lib \<Rightarrow> string \<Rightarrow> string outcome" where
  "getUnescapedPath F originalPath =
     catch_std (fl_uriUnescape F PATH originalPath) (\<lambda>e. ok originalPath)"

definition value_or :: "'a option \<Rightarrow> 'a \<Rightarrow> 'a" where
  "value_or x d = (case x of None \<Rightarrow> d | Some v \<Rightarrow> v)"

definition getMethodAndPath :: "folly_lib \<Rightarrow> http_message option \<Rightarrow> (HTTPMethod \<times> string) outcome" where
  "getMethodAndPath F message = (case message of
       None \<Rightarrow> Inl (Abort (Check_failed ''message != nullptr''))
     | Some m \<Rightarrow> bind (getUnescapedPath F (msg_getPath m))
         (\<lambda>path. ok (value_or (msg_getMethod m) GET, path)))"

text \<open>
  The constructor: the three views check the message pointer, then the body of the
  constructor checks both pointers and stores method and path.
\<close>

definition HTTPRequest :: "folly_lib \<Rightarrow> http_message option \<Rightarrow> iobuf option \<Rightarrow> http_request outcome" where
  "HTTPRequest F request body = (case request of
       None \<Rightarrow> Inl (Abort (Check_failed ''request != nullptr''))
     | Some m \<Rightarrow> (case body of
         None \<Rightarrow> Inl (Abort (Check_failed ''body_ != nullptr''))
       | Some b \<Rightarrow> bind (getMethodAndPath F request)
           (\<lambda>(method, path). ok \<lparr>req_message = m, req_body = b, req_path = path, req_method = method\<rparr>)))"

section \<open>Query parameters, headers, cookies\<close>

definition query_attempt :: "folly_lib \<Rightarrow> string \<Rightarrow> string \<times> string \<Rightarrow> string option outcome" where
  "query_attempt F param kvp =
     catch_std
       (bind (fl_uriUnescape F QUERY (fst kvp)) (\<lambda>decodedParam.
          if decodedParam = param
          then bind (fl_uriUnescape F QUERY (snd kvp)) (\<lambda>v. ok (Some v))
          else ok None))
       (\<lambda>e. ok None)"

fun query_loop :: "folly_lib \<Rightarrow> string \<Rightarrow> (string \<times> string) list \<Rightarrow> string option outcome" where
  "query_loop F param [] = ok None"
| "query_loop F param (kvp # kvps) =
     bind (query_attempt F param kvp) (\<lambda>r. case r of
         Some v \<Rightarrow> ok (Some v)
       | None \<Rightarrow> query_loop F param kvps)"

definition getQueryParam :: "folly_lib \<Rightarrow> http_message \<Rightarrow> string \<Rightarrow> string option outcome" where
  "getQueryParam F request param =
     (if msg_hasQueryParam request param
      then bind (msg_getDecodedQueryParam request param) (\<lambda>v. ok (Some v))
      else query_loop F param (msg_getQueryParams request))"

definition getHeader :: "http_message \<Rightarrow> header_key \<Rightarrow> string option" where
  "getHeader request param =
     (let value = msg_getSingleOrEmpty request param in
      if value = [] then None else Some value)"

definition getCookie :: "http_message \<Rightarrow> string \<Rightarrow> string option" where
  "getCookie request param =
     (let value = msg_getCookie request param in
      if value = [] then None else Some value)"

section \<open>The body\<close>

definition getBodyAsString :: "http_request \<Rightarrow> string outcome" where
  "getBodyAsString req = to_string (req_body req)"

definition getBodyAsJson :: "folly_lib \<Rightarrow> http_request \<Rightarrow> dynamic outcome" where
  "getBodyAsJson F req = bind (getBodyAsString req) (fl_parseJson F)"

definition getBodyAsBytes :: "iobuf_lib \<Rightarrow> http_request \<Rightarrow> iobuf" where
  "getBodyAsBytes B req = io_clone B (req_body req)"

section \<open>Facts about requests\<close>

text \<open>The path a request is routed by: decoded where it can be, the raw path otherwise.\<close>

definition effective_path :: "folly_lib \<Rightarrow> http_message \<Rightarrow> string" where
  "effective_path F m = value_or (unescaped F PATH (msg_getPath m)) (msg_getPath m)"

definition effective_method :: "http_message \<Rightarrow> HTTPMethod" where
  "effective_method m = value_or (msg_getMethod m) GET"

lemma getUnescapedPath_total:
  "unescape_law F \<Longrightarrow> getUnescapedPath F p = ok (value_or (unescaped F PATH p) p)"
  by (cases rule: unescape_cases [of F PATH p])
     (simp_all add: getUnescapedPath_def value_or_def)

lemma getMethodAndPath_total [route_simps]:
  "unescape_law F \<Longrightarrow>
   getMethodAndPath F (Some m) = ok (effective_method m, effective_path F m)"
  by (simp add: getMethodAndPath_def getUnescapedPath_total effective_path_def effective_method_def)

lemma HTTPRequest_total [route_simps]:
  "unescape_law F \<Longrightarrow>
   HTTPRequest F (Some m) (Some b) = ok
     \<lparr>req_message = m, req_body = b, req_path = effective_path F m, req_method = effective_method m\<rparr>"
  by (simp add: HTTPRequest_def getMethodAndPath_total)

text \<open>
  The fallback search agrees with looking the key up among the pairs whose key and value
  both decode, in order.
\<close>

fun decoded_pairs :: "folly_lib \<Rightarrow> (string \<times> string) list \<Rightarrow> (string \<times> string) list" where
  "decoded_pairs F [] = []"
| "decoded_pairs F ((k, v) # kvps) =
     (case (unescaped F QUERY k, unescaped F QUERY v) of
        (Some k', Some v') \<Rightarrow> (k', v') # decoded_pairs F kvps
      | _ \<Rightarrow> decoded_pairs F kvps)"

lemma query_attempt_eq:
  assumes "unescape_law F"
  shows "query_attempt F param (k, v) =
    ok (if unescaped F QUERY k = Some param then unescaped F QUERY v else None)"
  by (cases rule: unescape_cases [OF assms, of QUERY k];
      cases rule: unescape_cases [OF assms, of QUERY v])
     (simp_all add: query_attempt_def)

lemma query_loop_eq:
  assumes "unescape_law F"
  shows "query_loop F param kvps = ok (map_of (decoded_pairs F kvps) param)"
  by (induction kvps) (auto simp: query_attempt_eq [OF assms] split: option.splits)

section \<open>Properties\<close>

text \<open>
  A request can always be made from a message and a body: its method is the message's, or
  \<open>GET\<close> where the message has none the library knows, and its path is the decoded one, or the
  raw one where it does not decode. A body of ordinary size reads back as its bytes.
\<close>

theorem request_made:
  assumes "unescape_law F" and "small b"
  shows "\<exists>req. HTTPRequest F (Some m) (Some b) = ok req \<and>
    req_method req = (case msg_getMethod m of None \<Rightarrow> GET | Some method \<Rightarrow> method) \<and>
    req_path req = (case fl_uriUnescape F PATH (msg_getPath m) of
       Inr p \<Rightarrow> p | Inl _ \<Rightarrow> msg_getPath m) \<and>
    getBodyAsString req = ok (concat b)"
  using assms(2)
  by (cases rule: unescape_cases [OF assms(1), of PATH "msg_getPath m"])
     (auto simp: HTTPRequest_total [OF assms(1)] effective_path_def effective_method_def value_or_def
       getBodyAsString_def split: option.split)

lemma request_made_witness:
  "\<exists>req. HTTPRequest ref_folly (Some (plain_message ''/a%20b'')) (Some [''x'']) = ok req \<and>
    req_method req = (case msg_getMethod (plain_message ''/a%20b'') of None \<Rightarrow> GET | Some method \<Rightarrow> method) \<and>
    req_path req = (case fl_uriUnescape ref_folly PATH (msg_getPath (plain_message ''/a%20b'')) of
       Inr p \<Rightarrow> p | Inl _ \<Rightarrow> msg_getPath (plain_message ''/a%20b'')) \<and>
    getBodyAsString req = ok (concat [''x''])"
  by (rule request_made [OF ref_folly_laws(1)]) (simp add: small_def)

text \<open>
  A query parameter: the value the message decodes where it knows the name as it is written;
  otherwise the value of the first pair whose name and value both decode and whose decoded
  name is the one asked for, and none if there is no such pair. Pairs that do not decode are
  passed over; the lookup never throws.
\<close>

theorem query_param_lookup:
  assumes "unescape_law F"
    and "msg_hasQueryParam m param \<Longrightarrow> \<exists>v. msg_getDecodedQueryParam m param = ok v"
  shows "\<exists>r. getQueryParam F m param = ok r \<and>
    (if msg_hasQueryParam m param then \<exists>v. r = Some v \<and> msg_getDecodedQueryParam m param = ok v
     else r = map_of (decoded_pairs F (msg_getQueryParams m)) param)"
  using assms(2) by (auto simp: getQueryParam_def query_loop_eq [OF assms(1)])

lemma query_param_lookup_witness:
  "\<exists>r. getQueryParam ref_folly ((plain_message ''/'')\<lparr>msg_getQueryParams := [(''a%20b'', ''1+2'')]\<rparr>) ''a b'' = ok r \<and>
    (if msg_hasQueryParam ((plain_message ''/'')\<lparr>msg_getQueryParams := [(''a%20b'', ''1+2'')]\<rparr>) ''a b''
     then \<exists>v. r = Some v \<and> msg_getDecodedQueryParam
            ((plain_message ''/'')\<lparr>msg_getQueryParams := [(''a%20b'', ''1+2'')]\<rparr>) ''a b'' = ok v
     else r = map_of (decoded_pairs ref_folly (msg_getQueryParams
            ((plain_message ''/'')\<lparr>msg_getQueryParams := [(''a%20b'', ''1+2'')]\<rparr>))) ''a b'')"
  by (rule query_param_lookup [OF ref_folly_laws(1)]) (simp add: plain_message_def)

end
