(* ===== verification/Responses.thy ===== *)
theory Responses
  imports Requests
begin

text \<open>
  \<open>src/HTTPResponse.h\<close> and \<open>src/HTTPResponse.cpp\<close>: the response with its constructors. The
  headers argument, an \<open>unordered_map\<close>, is the list of its entries in iteration order; the
  constructors taking header names and those taking header codes are separate definitions,
  as they are separate overloads.
\<close>

record http_response =
  resp_status :: int16
  resp_headers :: headers
  resp_body :: iobuf

definition set_headers :: "headers_lib \<Rightarrow> headers \<Rightarrow> (header_key \<times> string) list \<Rightarrow> headers" where
  "set_headers H hs kvs = foldl (\<lambda>h kv. hd_set H h (fst kv) (snd kv)) hs kvs"

abbreviation named :: "(string \<times> string) list \<Rightarrow> (header_key \<times> string) list" where
  "named kvs \<equiv> map (\<lambda>(k, v). (Header_name k, v)) kvs"

abbreviation coded :: "(string \<times> string) list \<Rightarrow> (header_key \<times> string) list" where
  "coded kvs \<equiv> map (\<lambda>(k, v). (Header_code k, v)) kvs"

section \<open>Constructors\<close>

definition HTTPResponse_json_names ::
  "folly_lib \<Rightarrow> iobuf_lib \<Rightarrow> headers_lib \<Rightarrow> int16 \<Rightarrow> dynamic \<Rightarrow> (string \<times> string) list \<Rightarrow> http_response outcome" where
  "HTTPResponse_json_names F B H statusCode body hs =
     bind (fl_toJson F body) (\<lambda>str. ok
       \<lparr>resp_status = statusCode, resp_headers = set_headers H [] (named hs),
        resp_body = io_copyBuffer B str\<rparr>)"

definition HTTPResponse_string_names ::
  "iobuf_lib \<Rightarrow> headers_lib \<Rightarrow> int16 \<Rightarrow> string \<Rightarrow> (string \<times> string) list \<Rightarrow> http_response" where
  "HTTPResponse_string_names B H statusCode body hs =
     \<lparr>resp_status = statusCode, resp_headers = set_headers H [] (named hs),
      resp_body = io_copyBuffer B body\<rparr>"

definition HTTPResponse_bytes_names ::
  "headers_lib \<Rightarrow> int16 \<Rightarrow> iobuf \<Rightarrow> (string \<times> string) list \<Rightarrow> http_response" where
  "HTTPResponse_bytes_names H statusCode body hs =
     \<lparr>resp_status = statusCode, resp_headers = set_headers H [] (named hs), resp_body = body\<rparr>"

definition HTTPResponse_json_codes ::
  "folly_lib \<Rightarrow> iobuf_lib \<Rightarrow> headers_lib \<Rightarrow> int16 \<Rightarrow> dynamic \<Rightarrow> (string \<times> string) list \<Rightarrow> http_response outcome" where
  "HTTPResponse_json_codes F B H statusCode body hs =
     bind (fl_toJson F body) (\<lambda>str. ok
       \<lparr>resp_status = statusCode, resp_headers = set_headers H [] (coded hs),
        resp_body = io_copyBuffer B str\<rparr>)"

definition HTTPResponse_string_codes ::
  "iobuf_lib \<Rightarrow> headers_lib \<Rightarrow> int16 \<Rightarrow> string \<Rightarrow> (string \<times> string) list \<Rightarrow> http_response" where
  "HTTPResponse_string_codes B H statusCode body hs =
     \<lparr>resp_status = statusCode, resp_headers = set_headers H [] (coded hs),
      resp_body = io_copyBuffer B body\<rparr>"

definition HTTPResponse_bytes_codes ::
  "headers_lib \<Rightarrow> int16 \<Rightarrow> iobuf \<Rightarrow> (string \<times> string) list \<Rightarrow> http_response" where
  "HTTPResponse_bytes_codes H statusCode body hs =
     \<lparr>resp_status = statusCode, resp_headers = set_headers H [] (coded hs), resp_body = body\<rparr>"

definition HTTPResponse_default :: "iobuf_lib \<Rightarrow> http_response" where
  "HTTPResponse_default B =
     \<lparr>resp_status = 200, resp_headers = [], resp_body = io_create B 0\<rparr>"

definition HTTPResponse_status :: "iobuf_lib \<Rightarrow> int16 \<Rightarrow> http_response" where
  "HTTPResponse_status B statusCode =
     \<lparr>resp_status = statusCode, resp_headers = [], resp_body = io_create B 0\<rparr>"

definition HTTPResponse_text :: "iobuf_lib \<Rightarrow> int16 \<Rightarrow> string \<Rightarrow> http_response" where
  "HTTPResponse_text B statusCode body =
     \<lparr>resp_status = statusCode, resp_headers = [], resp_body = io_copyBuffer B body\<rparr>"

section \<open>Accessors\<close>

text \<open>\<open>getHeaders()\<close> is the \<open>HTTPMessage\<close> itself: its status and its headers.\<close>

definition getHeaders :: "http_response \<Rightarrow> int16 \<times> headers" where
  [simp]: "getHeaders r = (resp_status r, resp_headers r)"

definition getStatusCode :: "http_response \<Rightarrow> int16" where
  "getStatusCode r = resp_status r"

definition getBodyString :: "http_response \<Rightarrow> string outcome" where
  "getBodyString r = to_string (resp_body r)"

definition getBody :: "iobuf_lib \<Rightarrow> http_response \<Rightarrow> iobuf" where
  "getBody B r = io_clone B (resp_body r)"

section \<open>Headers\<close>

text \<open>The value found under a key is the last one set under an equal key.\<close>

lemma set_headers_lookup:
  assumes "headers_law H"
  shows "hd_getSingleOrEmpty H (set_headers H hs kvs) k =
    (case List.find (\<lambda>kv. hd_same H (fst kv) k) (rev kvs) of
       None \<Rightarrow> hd_getSingleOrEmpty H hs k | Some kv \<Rightarrow> snd kv)"
proof (induction kvs rule: rev_induct)
  case Nil
  then show ?case by (simp add: set_headers_def)
next
  case (snoc kv kvs)
  have "set_headers H hs (kvs @ [kv]) = hd_set H (set_headers H hs kvs) (fst kv) (snd kv)"
    by (simp add: set_headers_def)
  with snoc show ?case
    using assms by (simp add: headers_law_def)
qed

text \<open>With keys that are pairwise different for the library, every entry is found.\<close>

lemma set_headers_distinct:
  assumes "headers_law H" and "(k, v) \<in> set kvs"
    and "\<And>k' v'. (k', v') \<in> set kvs \<Longrightarrow> hd_same H k' k \<Longrightarrow> (k', v') = (k, v)"
  shows "hd_getSingleOrEmpty H (set_headers H hs kvs) k = v"
proof -
  have same: "hd_same H k k"
    using assms(1) by (simp add: headers_law_def)
  have "List.find (\<lambda>kv. hd_same H (fst kv) k) (rev kvs) \<noteq> None"
    using assms(2) same by (auto simp: find_None_iff)
  then obtain kv where kv: "List.find (\<lambda>kv. hd_same H (fst kv) k) (rev kvs) = Some kv"
    by blast
  then have "kv \<in> set kvs" and "hd_same H (fst kv) k"
    by (auto simp: find_Some_iff) (metis length_rev nth_mem set_rev)
  with assms(3) have "kv = (k, v)" by (cases kv) auto
  with kv show ?thesis
    by (simp add: set_headers_lookup [OF assms(1)])
qed

section \<open>Properties\<close>

text \<open>
  A response made from a status, a text and headers whose names differ (for the library,
  that is, up to case): the status and the text read back, and every header is found under its
  name with its value.
\<close>

theorem response_made:
  assumes "headers_law H" and "iobuf_law B" and "length body < 2 ^ 31"
    and "\<And>k v k' v'. (k, v) \<in> set hs \<Longrightarrow> (k', v') \<in> set hs \<Longrightarrow>
      hd_same H (Header_name k') (Header_name k) \<Longrightarrow> (k', v') = (k, v)"
  shows "let r = HTTPResponse_string_names B H code body hs in
    getStatusCode r = code \<and> getBodyString r = ok body \<and>
    (\<forall>(k, v) \<in> set hs. hd_getSingleOrEmpty H (resp_headers r) (Header_name k) = v)"
proof -
  have "to_string (io_copyBuffer B body) = ok body"
    using assms(2,3) by (simp add: iobuf_law_def small_def)
  moreover have "hd_getSingleOrEmpty H (set_headers H [] (named hs)) (Header_name k) = v"
    if "(k, v) \<in> set hs" for k v
    using that assms(4) by (intro set_headers_distinct [OF assms(1)]) force+
  ultimately show ?thesis
    by (auto simp: HTTPResponse_string_names_def getStatusCode_def getBodyString_def)
qed

lemma response_made_witness:
  "let r = HTTPResponse_string_names ref_iobuf ref_headers 201 ''made'' [(''Location'', ''/x''), (''ETag'', ''1'')] in
    getStatusCode r = 201 \<and> getBodyString r = ok ''made'' \<and>
    hd_getSingleOrEmpty ref_headers (resp_headers r) (Header_name ''Location'') = ''/x'' \<and>
    hd_getSingleOrEmpty ref_headers (resp_headers r) (Header_name ''ETag'') = ''1''"
proof -
  let ?hs = "[(''Location'', ''/x''), (''ETag'', ''1'')]"
  let ?r = "HTTPResponse_string_names ref_iobuf ref_headers 201 ''made'' ?hs"
  have "let r = ?r in getStatusCode r = 201 \<and> getBodyString r = ok ''made'' \<and>
      (\<forall>(k, v) \<in> set ?hs. hd_getSingleOrEmpty ref_headers (resp_headers r) (Header_name k) = v)"
    by (rule response_made [OF ref_headers_law ref_iobuf_law]) (auto simp: ref_headers_def lower_def)
  then show ?thesis by simp
qed

end
