(* ===== verification/Futures.thy ===== *)
theory Futures
  imports Responses
begin

text \<open>
  \<open>folly::Future\<close> as the handlers use it. A future is seen through what becomes of it: it
  completes after some milliseconds with a value or an exception, or it never does. The
  combinators are folly's and enter as parameters; \<open>futures_law\<close> states their documented
  behaviour.
\<close>

datatype 'a completion = Completed nat "'a outcome" | Never

fun delay :: "nat \<Rightarrow> 'a completion \<Rightarrow> 'a completion" where
  "delay d (Completed t r) = Completed (d + t) r"
| "delay d Never = Never"

type_synonym response_future = "http_response completion"

text \<open>
  The type of a request handler: \<open>std::function<Future<HTTPResponse>(const HTTPRequest&)>\<close>.
  A handler that throws before returning its future is one whose future fails: every caller
  in the sources runs it under \<open>via\<close>, \<open>onError\<close> or \<open>onTimeout\<close>, which turn the exception
  into a failed future. A null \<open>std::function\<close> is \<open>None\<close>, and calling it throws.
\<close>

type_synonym handler = "http_request \<Rightarrow> response_future"

definition call_function :: "handler option \<Rightarrow> http_request \<Rightarrow> response_future" where
  "call_function f req = (case f of
       None \<Rightarrow> Completed 0 (throw (Other_std ''bad_function_call''))
     | Some h \<Rightarrow> h req)"

record futures_lib =
  fu_makeFuture :: "http_response \<Rightarrow> response_future"
  fu_via :: "(unit \<Rightarrow> response_future) \<Rightarrow> response_future"
  fu_onError :: "response_future \<Rightarrow> (exn \<Rightarrow> response_future) \<Rightarrow> response_future"
  fu_onTimeout :: "response_future \<Rightarrow> int64 \<Rightarrow> (unit \<Rightarrow> response_future) \<Rightarrow> response_future"

text \<open>
  \<open>onError\<close> with a \<open>const std::exception&\<close> parameter handles the exceptions derived from it
  and passes everything else on. \<open>onTimeout(d, f)\<close> is \<open>within(d)\<close>, which fails with
  \<open>TimedOut\<close> after \<open>d\<close>, followed by an \<open>onError\<close> for \<open>TimedOut\<close>; which of the two events
  comes first when both fall on the same instant is not said. \<open>via\<close> may queue the call.
\<close>

fun on_error_spec :: "response_future \<Rightarrow> (exn \<Rightarrow> response_future) \<Rightarrow> response_future" where
  "on_error_spec (Completed t (Inl (Throw e))) h =
     (if is_std e then delay t (h e) else Completed t (throw e))"
| "on_error_spec c h = c"

fun on_timeout_spec :: "response_future \<Rightarrow> nat \<Rightarrow> (unit \<Rightarrow> response_future) \<Rightarrow> response_future" where
  "on_timeout_spec (Completed t r) d h =
     (if t < d then (if r = throw Timed_out then delay t (h ()) else Completed t r)
      else delay d (h ()))"
| "on_timeout_spec Never d h = delay d (h ())"

definition expires_at :: "response_future \<Rightarrow> nat \<Rightarrow> bool" where
  "expires_at c d \<longleftrightarrow> (case c of Completed t r \<Rightarrow> t = d | Never \<Rightarrow> False)"

definition futures_law :: "futures_lib \<Rightarrow> bool" where
  "futures_law X \<longleftrightarrow>
     (\<forall>r. fu_makeFuture X r = Completed 0 (ok r)) \<and>
     (\<forall>f. \<exists>d. fu_via X f = delay d (f ())) \<and>
     (\<forall>c h. fu_onError X c h = on_error_spec c h) \<and>
     (\<forall>c T h. 0 < sint T \<longrightarrow> (let d = nat (sint T) in
        fu_onTimeout X c T h = on_timeout_spec c d h \<or>
        expires_at c d \<and> fu_onTimeout X c T h = on_timeout_spec c (Suc d) h))"

definition ref_futures :: futures_lib where
  "ref_futures = \<lparr>
     fu_makeFuture = (\<lambda>r. Completed 0 (ok r)),
     fu_via = (\<lambda>f. f ()),
     fu_onError = on_error_spec,
     fu_onTimeout = (\<lambda>c T h. on_timeout_spec c (nat (sint T)) h)\<rparr>"

lemma delay_0 [simp]: "delay 0 c = c"
  by (cases c) simp_all

lemma ref_futures_law: "futures_law ref_futures"
  by (auto simp: futures_law_def ref_futures_def intro: exI [of _ 0])

section \<open>The static functions of \<open>HTTPResponse\<close>\<close>

text \<open>
  Each makes the response first, which for JSON may throw, and then a completed future. The
  overloads taking header codes are named \<open>..._codes\<close>.
\<close>

definition response_future :: "futures_lib \<Rightarrow> http_response outcome \<Rightarrow> response_future outcome" where
  "response_future X made = bind made (\<lambda>r. ok (fu_makeFuture X r))"

definition fromJson ::
  "futures_lib \<Rightarrow> folly_lib \<Rightarrow> iobuf_lib \<Rightarrow> headers_lib \<Rightarrow> int16 \<Rightarrow> dynamic \<Rightarrow> (string \<times> string) list
     \<Rightarrow> response_future outcome" where
  "fromJson X F B H statusCode body hs =
     response_future X (HTTPResponse_json_names F B H statusCode body hs)"

definition fromString ::
  "futures_lib \<Rightarrow> iobuf_lib \<Rightarrow> headers_lib \<Rightarrow> int16 \<Rightarrow> string \<Rightarrow> (string \<times> string) list
     \<Rightarrow> response_future outcome" where
  "fromString X B H statusCode body hs =
     response_future X (ok (HTTPResponse_string_names B H statusCode body hs))"

definition fromBytes ::
  "futures_lib \<Rightarrow> headers_lib \<Rightarrow> int16 \<Rightarrow> iobuf \<Rightarrow> (string \<times> string) list \<Rightarrow> response_future outcome" where
  "fromBytes X H statusCode body hs =
     response_future X (ok (HTTPResponse_bytes_names H statusCode body hs))"

definition fromJson_codes ::
  "futures_lib \<Rightarrow> folly_lib \<Rightarrow> iobuf_lib \<Rightarrow> headers_lib \<Rightarrow> int16 \<Rightarrow> dynamic \<Rightarrow> (string \<times> string) list
     \<Rightarrow> response_future outcome" where
  "fromJson_codes X F B H statusCode body hs =
     response_future X (HTTPResponse_json_codes F B H statusCode body hs)"

definition fromString_codes ::
  "futures_lib \<Rightarrow> iobuf_lib \<Rightarrow> headers_lib \<Rightarrow> int16 \<Rightarrow> string \<Rightarrow> (string \<times> string) list
     \<Rightarrow> response_future outcome" where
  "fromString_codes X B H statusCode body hs =
     response_future X (ok (HTTPResponse_string_codes B H statusCode body hs))"

definition fromBytes_codes ::
  "futures_lib \<Rightarrow> headers_lib \<Rightarrow> int16 \<Rightarrow> iobuf \<Rightarrow> (string \<times> string) list \<Rightarrow> response_future outcome" where
  "fromBytes_codes X H statusCode body hs =
     response_future X (ok (HTTPResponse_bytes_codes H statusCode body hs))"

end
