(* ===== verification/Route_Match.thy ===== *)
theory Route_Match
  imports Futures
begin

text \<open>
  \<open>src/RouteMatch.h\<close> and \<open>src/BaseRoute.h\<close>: the outcome of matching a request against a
  route, and the interface every route has. A route's handler object is of type \<open>'h\<close> where
  the route is a streaming one.
\<close>

section \<open>Match results\<close>

datatype RouteMatchResult = PathNotMatched | MethodNotMatched | RouteMatched

text \<open>The enumerators in declaration order: a later one is a better match.\<close>

instantiation RouteMatchResult :: linorder
begin

fun enum_value :: "RouteMatchResult \<Rightarrow> nat" where
  "enum_value PathNotMatched = 0"
| "enum_value MethodNotMatched = 1"
| "enum_value RouteMatched = 2"

definition less_eq_RouteMatchResult :: "RouteMatchResult \<Rightarrow> RouteMatchResult \<Rightarrow> bool" where
  "less_eq_RouteMatchResult a b \<longleftrightarrow> enum_value a \<le> enum_value b"

definition less_RouteMatchResult :: "RouteMatchResult \<Rightarrow> RouteMatchResult \<Rightarrow> bool" where
  "less_RouteMatchResult a b \<longleftrightarrow> enum_value a < enum_value b"

instance
proof
  fix a b :: RouteMatchResult
  show "a \<le> b \<Longrightarrow> b \<le> a \<Longrightarrow> a = b"
    by (cases a; cases b) (simp_all add: less_eq_RouteMatchResult_def)
qed (auto simp: less_eq_RouteMatchResult_def less_RouteMatchResult_def)

end

lemmas RouteMatchResult_order = less_eq_RouteMatchResult_def less_RouteMatchResult_def

text \<open>
  Calling a streaming handler yields a handler object, a null pointer or an exception, and
  the objects that were deleted on the way.
\<close>

type_synonym 'h streaming_call = "'h option outcome \<times> 'h list"

record 'h route_match =
  rm_result :: RouteMatchResult
  rm_handler :: "handler option"
  rm_streamingHandler :: "(unit \<Rightarrow> 'h streaming_call) option"

definition RouteMatch_handler :: "RouteMatchResult \<Rightarrow> handler option \<Rightarrow> 'h route_match outcome" where
  "RouteMatch_handler result handler =
     bind (check (result \<noteq> RouteMatched \<or> handler \<noteq> None)
             ''Handler must be set if the route matched!'')
       (\<lambda>_. ok \<lparr>rm_result = result, rm_handler = handler, rm_streamingHandler = None\<rparr>)"

definition RouteMatch_streaming ::
  "RouteMatchResult \<Rightarrow> (unit \<Rightarrow> 'h streaming_call) option \<Rightarrow> 'h route_match outcome" where
  "RouteMatch_streaming result streamingHandler =
     bind (check (result \<noteq> RouteMatched \<or> streamingHandler \<noteq> None)
             ''Streaming handler must be set if the route matched!'')
       (\<lambda>_. ok \<lparr>rm_result = result, rm_handler = None, rm_streamingHandler = streamingHandler\<rparr>)"

definition no_match :: "RouteMatchResult \<Rightarrow> 'h route_match" where
  "no_match res = \<lparr>rm_result = res, rm_handler = None, rm_streamingHandler = None\<rparr>"

text \<open>Exactly one of the two callables is set.\<close>

definition one_callable :: "'h route_match \<Rightarrow> bool" where
  "one_callable x \<longleftrightarrow> (rm_handler x = None) \<noteq> (rm_streamingHandler x = None)"

lemma RouteMatch_simps [simp, route_simps]:
  "RouteMatch_handler PathNotMatched None = ok (no_match PathNotMatched)"
  "RouteMatch_handler MethodNotMatched None = ok (no_match MethodNotMatched)"
  "RouteMatch_handler res (Some h)
    = ok \<lparr>rm_result = res, rm_handler = Some h, rm_streamingHandler = None\<rparr>"
  "RouteMatch_streaming res (Some s)
    = ok \<lparr>rm_result = res, rm_handler = None, rm_streamingHandler = Some s\<rparr>"
  by (simp_all add: RouteMatch_handler_def RouteMatch_streaming_def no_match_def)

lemma no_match_result [simp]: "rm_result (no_match res) = res"
  by (simp add: no_match_def)

section \<open>Guarding the streaming factories\<close>

text \<open>
  Both kinds of route call the user's factory, then pass the arguments to the object it
  returned. A standard exception is swallowed and the object, if there is one, deleted;
  the caller gets a null pointer.
\<close>

definition guarded_call :: "'h option outcome \<Rightarrow> ('h \<Rightarrow> 'h outcome) \<Rightarrow> 'h streaming_call" where
  "guarded_call factory set_args = (case factory of
       Inl (Throw e) \<Rightarrow> if is_std e then (ok None, []) else (throw e, [])
     | Inl (Abort c) \<Rightarrow> (Inl (Abort c), [])
     | Inr None \<Rightarrow> (ok None, [])
     | Inr (Some ret) \<Rightarrow> (case set_args ret of
           Inl (Throw e) \<Rightarrow> if is_std e then (ok None, [ret]) else (throw e, [])
         | Inl (Abort c) \<Rightarrow> (Inl (Abort c), [])
         | Inr ret' \<Rightarrow> (ok (Some ret'), [])))"

text \<open>Every object the factory made is either handed to the caller or deleted, never both.\<close>

lemma guarded_call_owned:
  assumes "std_faults factory" and "\<And>h. std_faults (set_args h)"
  shows "guarded_call factory set_args =
    (case factory of
       Inr (Some h) \<Rightarrow> (case set_args h of Inr h' \<Rightarrow> (ok (Some h'), []) | Inl _ \<Rightarrow> (ok None, [h]))
     | _ \<Rightarrow> (ok None, []))"
  using assms(1)
proof (cases rule: throws_only_cases)
  case (returned made)
  show ?thesis
  proof (cases made)
    case (Some h)
    with returned show ?thesis
      by (cases rule: throws_only_cases [OF assms(2) [of h]]) (simp_all add: guarded_call_def)
  qed (simp add: returned guarded_call_def)
qed (simp add: guarded_call_def)

section \<open>The interface of a route\<close>

text \<open>
  What \<open>BaseRoute::handler\<close> promises to a router. \<open>ready r m\<close> says that matching does not
  fail; a route whose path does not match, or whose methods do not include the request's,
  answers without a callable, and a route that matches carries exactly one.
\<close>

locale base_route =
  fixes handle :: "'r \<Rightarrow> http_message option \<Rightarrow> 'h route_match outcome"
    and ready :: "'r \<Rightarrow> http_message \<Rightarrow> bool"
    and path_matches :: "'r \<Rightarrow> http_message \<Rightarrow> bool"
    and method_allowed :: "'r \<Rightarrow> http_message \<Rightarrow> bool"
  assumes ready_total: "ready r m \<Longrightarrow> \<exists>x. handle r (Some m) = ok x"
    and path_law: "handle r (Some m) = ok x \<Longrightarrow> \<not> path_matches r m \<Longrightarrow> x = no_match PathNotMatched"
    and method_law: "handle r (Some m) = ok x \<Longrightarrow> path_matches r m \<Longrightarrow> \<not> method_allowed r m \<Longrightarrow>
          x = no_match MethodNotMatched"
    and match_law: "handle r (Some m) = ok x \<Longrightarrow> path_matches r m \<Longrightarrow> method_allowed r m \<Longrightarrow>
          rm_result x = RouteMatched \<and> one_callable x"
begin

lemmas base_laws = path_law method_law match_law

lemma result_eq:
  "handle r (Some m) = ok x \<Longrightarrow>
   rm_result x = (if \<not> path_matches r m then PathNotMatched
                  else if \<not> method_allowed r m then MethodNotMatched else RouteMatched)"
  using base_laws by fastforce

lemma matched_iff:
  "handle r (Some m) = ok x \<Longrightarrow> rm_result x = RouteMatched \<longleftrightarrow> path_matches r m \<and> method_allowed r m"
  by (simp add: result_eq)

lemma unmatched_no_callable:
  "handle r (Some m) = ok x \<Longrightarrow> rm_result x \<noteq> RouteMatched \<Longrightarrow> x = no_match (rm_result x)"
  using base_laws by (cases "path_matches r m"; cases "method_allowed r m") fastforce+

end

end
