(* ===== verification/Static_Route.thy ===== *)
theory Static_Route
  imports Route_Match
begin

text \<open>
  \<open>src/StaticRoute.h\<close> and \<open>src/StaticRoute-inl.h\<close>: a route that compares the request's path
  with its pattern, character by character.
\<close>

text \<open>
  The handler of a route: for \<open>IsStreaming = false\<close> a request handler, for \<open>true\<close> the result
  of calling the user's factory and the \<open>setRequestArgs()\<close> of the object it returns.
\<close>

datatype 'h static_callable =
    Static_plain "handler option"
  | Static_streaming "'h option outcome" "'h \<Rightarrow> 'h outcome"

record 'h static_route =
  sr_originalPattern :: string
  sr_methods :: "HTTPMethod set"
  sr_handler :: "'h static_callable"

definition StaticRoute :: "string \<Rightarrow> HTTPMethod set \<Rightarrow> 'h static_callable \<Rightarrow> 'h static_route" where
  [simp]: "StaticRoute pattern methods handler =
     \<lparr>sr_originalPattern = pattern, sr_methods = methods, sr_handler = handler\<rparr>"

definition make_static_route :: "string \<Rightarrow> HTTPMethod set \<Rightarrow> handler option \<Rightarrow> 'h static_route" where
  "make_static_route pattern methods handler = StaticRoute pattern methods (Static_plain handler)"

definition make_streaming_static_route ::
  "string \<Rightarrow> HTTPMethod set \<Rightarrow> 'h option outcome \<Rightarrow> ('h \<Rightarrow> 'h outcome) \<Rightarrow> 'h static_route" where
  "make_streaming_static_route pattern methods factory setRequestArgs =
     StaticRoute pattern methods (Static_streaming factory setRequestArgs)"

fun static_match_maker :: "'h static_callable \<Rightarrow> 'h route_match outcome" where
  "static_match_maker (Static_plain f) =
     RouteMatch_handler RouteMatched (Some (\<lambda>request. call_function f request))"
| "static_match_maker (Static_streaming factory setRequestArgs) =
     RouteMatch_streaming RouteMatched (Some (\<lambda>_. guarded_call factory setRequestArgs))"

definition static_handler ::
  "folly_lib \<Rightarrow> 'h static_route \<Rightarrow> http_message option \<Rightarrow> 'h route_match outcome" where
  "static_handler F route request =
     bind (check (request \<noteq> None) ''request != nullptr'') (\<lambda>_.
     bind (getMethodAndPath F request) (\<lambda>(method, path).
       if path \<noteq> sr_originalPattern route then RouteMatch_handler PathNotMatched None
       else if method \<notin> sr_methods route then RouteMatch_handler MethodNotMatched None
       else static_match_maker (sr_handler route)))"

section \<open>The route interface\<close>

text \<open>The request's method and path can be worked out.\<close>

definition addressable :: "folly_lib \<Rightarrow> http_message \<Rightarrow> bool" where
  "addressable F m \<longleftrightarrow> (case getMethodAndPath F (Some m) of Inr _ \<Rightarrow> True | Inl _ \<Rightarrow> False)"

lemma getMethodAndPath_ok:
  "getMethodAndPath F (Some m) = ok (method, path) \<Longrightarrow>
   method = effective_method m \<and> path = effective_path F m"
  by (auto simp: getMethodAndPath_def getUnescapedPath_def effective_method_def effective_path_def
      unescaped_def value_or_def catch_if_def bind_eq_Inr split: sum.splits fault.splits if_splits)

lemma addressable_cases:
  obtains (ok) "addressable F m" "getMethodAndPath F (Some m) = ok (effective_method m, effective_path F m)"
  | (fault) e where "\<not> addressable F m" "getMethodAndPath F (Some m) = Inl e"
  by (cases "getMethodAndPath F (Some m)")
     (auto simp: addressable_def dest: getMethodAndPath_ok)

lemma addressable_total: "unescape_law F \<Longrightarrow> addressable F m"
  by (simp add: addressable_def getMethodAndPath_total)

lemma static_match_maker_matched:
  "\<exists>x. static_match_maker h = ok x \<and> rm_result x = RouteMatched \<and> one_callable x"
  by (cases h) (simp_all add: one_callable_def)

lemma static_handler_eq:
  "static_handler F r (Some m) = (case getMethodAndPath F (Some m) of
     Inl e \<Rightarrow> Inl e
   | Inr _ \<Rightarrow> if effective_path F m \<noteq> sr_originalPattern r then ok (no_match PathNotMatched)
             else if effective_method m \<notin> sr_methods r then ok (no_match MethodNotMatched)
             else static_match_maker (sr_handler r))"
  by (cases rule: addressable_cases [of F m]) (simp_all add: static_handler_def)

interpretation static: base_route "static_handler F" "\<lambda>_. addressable F"
  "\<lambda>r m. effective_path F m = sr_originalPattern r" "\<lambda>r m. effective_method m \<in> sr_methods r"
  for F
proof unfold_locales
  fix r :: "'h static_route" and m and x :: "'h route_match"
  note made = static_match_maker_matched [of "sr_handler r"]
  show "\<exists>x. static_handler F r (Some m) = ok x" if "addressable F m"
    using that made by (cases rule: addressable_cases [of F m]) (auto simp: static_handler_eq)
  show "rm_result x = RouteMatched \<and> one_callable x"
    if "static_handler F r (Some m) = ok x" "effective_path F m = sr_originalPattern r"
      "effective_method m \<in> sr_methods r"
    using that made by (auto simp: static_handler_eq split: sum.splits)
qed (auto simp: static_handler_eq split: sum.splits)

end
