(* ===== verification/Route_Parsing.thy ===== *)
theory Route_Parsing
  imports Responses
begin

text \<open>
  \<open>src/RouteParsing.h\<close> and \<open>src/RouteParsing.cpp\<close>: the parameter types of a route, the
  conversion of regex groups to handler arguments, and the translation of a route pattern
  (with its \<open>{{i}}\<close>, \<open>{{d}}\<close>, \<open>{{s:...}}\<close> placeholders and their optional forms) to a
  regular expression with one named group per parameter.
\<close>

section \<open>Parameter types\<close>

datatype RouteParamType =
  Int64 | Double | String | OptionalInt64 | OptionalDouble | OptionalString

fun param_to_string :: "RouteParamType \<Rightarrow> string" where
  "param_to_string Int64 = ''Int64''"
| "param_to_string Double = ''Double''"
| "param_to_string String = ''String''"
| "param_to_string OptionalInt64 = ''OptionalInt64''"
| "param_to_string OptionalDouble = ''OptionalDouble''"
| "param_to_string OptionalString = ''OptionalString''"

text \<open>
  The C++ types a handler may take (those \<open>to_RouteParamType\<close> is specialised for), and the
  values passed for them.
\<close>

datatype handler_type =
  T_int64 | T_optional_int64 | T_double | T_optional_double | T_string | T_optional_string

datatype handler_arg =
    A_int64 int64
  | A_optional_int64 "int64 option"
  | A_double double
  | A_optional_double "double option"
  | A_string string
  | A_optional_string "string option"

fun to_RouteParamType :: "handler_type \<Rightarrow> RouteParamType" where
  "to_RouteParamType T_int64 = Int64"
| "to_RouteParamType T_optional_int64 = OptionalInt64"
| "to_RouteParamType T_double = Double"
| "to_RouteParamType T_optional_double = OptionalDouble"
| "to_RouteParamType T_string = String"
| "to_RouteParamType T_optional_string = OptionalString"

fun push_function_parameters :: "handler_type list \<Rightarrow> RouteParamType list \<Rightarrow> RouteParamType list" where
  "push_function_parameters [] params = params"
| "push_function_parameters (Arg1 # Args) params =
     push_function_parameters Args (params @ [to_RouteParamType Arg1])"

definition parse_function_parameters :: "handler_type list \<Rightarrow> RouteParamType list" where
  "parse_function_parameters Args = push_function_parameters Args []"

section \<open>Arguments from a match\<close>

definition group_name :: "folly_lib \<Rightarrow> nat \<Rightarrow> string" where
  "group_name F N = fl_sformat F ''__{}'' [FNat N]"

definition get_int64 :: "folly_lib \<Rightarrow> nat \<Rightarrow> smatch \<Rightarrow> int64 outcome" where
  "get_int64 F N matches =
     catch_std (fl_to_int64 F (group_str matches (group_name F N))) (\<lambda>e. ok int64_max)"

definition get_double :: "folly_lib \<Rightarrow> nat \<Rightarrow> smatch \<Rightarrow> double outcome" where
  "get_double F N matches = fl_to_double F (group_str matches (group_name F N))"

definition get_string :: "folly_lib \<Rightarrow> nat \<Rightarrow> smatch \<Rightarrow> string outcome" where
  "get_string F N matches = ok (group_str matches (group_name F N))"

definition get_optional_int64 :: "folly_lib \<Rightarrow> nat \<Rightarrow> smatch \<Rightarrow> int64 option outcome" where
  "get_optional_int64 F N matches =
     (let g = group_name F N in
      if group_matched matches g
      then catch_std (bind (fl_to_int64 F (group_str matches g)) (\<lambda>v. ok (Some v)))
             (\<lambda>e. ok (Some int64_max))
      else ok None)"

definition get_optional_double :: "folly_lib \<Rightarrow> nat \<Rightarrow> smatch \<Rightarrow> double option outcome" where
  "get_optional_double F N matches =
     (let g = group_name F N in
      if group_matched matches g
      then bind (fl_to_double F (group_str matches g)) (\<lambda>v. ok (Some v))
      else ok None)"

definition get_optional_string :: "folly_lib \<Rightarrow> nat \<Rightarrow> smatch \<Rightarrow> string option outcome" where
  "get_optional_string F N matches =
     (let g = group_name F N in
      ok (if group_matched matches g then Some (group_str matches g) else None))"

fun get_handler_args :: "folly_lib \<Rightarrow> nat \<Rightarrow> handler_type \<Rightarrow> smatch \<Rightarrow> handler_arg outcome" where
  "get_handler_args F N T_int64 m = bind (get_int64 F N m) (\<lambda>v. ok (A_int64 v))"
| "get_handler_args F N T_optional_int64 m = bind (get_optional_int64 F N m) (\<lambda>v. ok (A_optional_int64 v))"
| "get_handler_args F N T_double m = bind (get_double F N m) (\<lambda>v. ok (A_double v))"
| "get_handler_args F N T_optional_double m = bind (get_optional_double F N m) (\<lambda>v. ok (A_optional_double v))"
| "get_handler_args F N T_string m = bind (get_string F N m) (\<lambda>v. ok (A_string v))"
| "get_handler_args F N T_optional_string m = bind (get_optional_string F N m) (\<lambda>v. ok (A_optional_string v))"

section \<open>From a pattern to a regular expression\<close>

type_synonym Replacement = "string \<times> string"

text \<open>
  The specialisations of \<open>route_to_regex\<close>. Those for strings first compile the expression
  the pattern gives, to have it refused when it is not valid.
\<close>

fun route_to_regex ::
  "folly_lib \<Rightarrow> regex_lib \<Rightarrow> RouteParamType \<Rightarrow> nat \<Rightarrow> string \<Rightarrow> string \<Rightarrow> string \<Rightarrow> Replacement outcome" where
  "route_to_regex F R Int64 paramNum originalPattern value consumed =
     ok (originalPattern, fl_sformat F (raw ''(?<__{}>[+-]?~d+)'') [FNat paramNum])"
| "route_to_regex F R OptionalInt64 paramNum originalPattern value consumed =
     ok (originalPattern,
         fl_sformat F (raw ''(?:(?<__{}>[+-]?~d+){})?'') [FNat paramNum, FStr consumed])"
| "route_to_regex F R Double paramNum originalPattern value consumed =
     ok (originalPattern, fl_sformat F (raw ''(?<__{}>[+-]?~d+(?:~.~d+)?)'') [FNat paramNum])"
| "route_to_regex F R OptionalDouble paramNum originalPattern value consumed =
     ok (originalPattern,
         fl_sformat F (raw ''(?:(?<__{}>[+-]?~d+(?:~.~d+)?){})?'') [FNat paramNum, FStr consumed])"
| "route_to_regex F R String paramNum originalPattern value consumed =
     bind (re_compile R value) (\<lambda>re.
       ok (originalPattern, fl_sformat F (raw ''(?<__{}>{})'') [FNat paramNum, FStr value]))"
| "route_to_regex F R OptionalString paramNum originalPattern value consumed =
     bind (re_compile R value) (\<lambda>re.
       ok (originalPattern,
           fl_sformat F (raw ''(?:(?<__{}>{}){})?'') [FNat paramNum, FStr value, FStr consumed]))"

definition route_parser :: string where
  "route_parser = raw (
     ''(?<int>~{~{i~}~})|'' @
     ''(?<optional_int>~{~{i~?(?::(?<optional_int_regex>.+?))?~}~})|'' @
     ''(?<double>~{~{d~}~})|'' @
     ''(?<optional_double>~{~{d~?(?::(?<optional_double_regex>.+?))?~}~})|'' @
     ''(?<string>~{~{s:(?<string_regex>.+?)~}~})|'' @
     ''(?<optional_string>~{~{s~?:(?<optional_string_regex>.+?)(?::(?<optional_string_consumed>.+?))?~}~})'')"

text \<open>The body of the loop over the matches: it collects one replacement and one type.\<close>

definition collect_match ::
  "folly_lib \<Rightarrow> regex_lib \<Rightarrow> Replacement list \<times> RouteParamType list \<Rightarrow> smatch
     \<Rightarrow> (Replacement list \<times> RouteParamType list) outcome" where
  "collect_match F R st match =
     (let (replacements, types) = st; n = length replacements;
          add = (\<lambda>ty g value consumed.
            bind (route_to_regex F R ty n (group_str match g) value consumed)
              (\<lambda>rep. ok (replacements @ [rep], types @ [ty])))
      in
      if group_matched match ''int'' then add Int64 ''int'' [] []
      else if group_matched match ''optional_int'' then
        add OptionalInt64 ''optional_int'' [] (group_str match ''optional_int_regex'')
      else if group_matched match ''double'' then add Double ''double'' [] []
      else if group_matched match ''optional_double'' then
        add OptionalDouble ''optional_double'' [] (group_str match ''optional_double_regex'')
      else if group_matched match ''string'' then
        add String ''string'' (group_str match ''string_regex'') []
      else if group_matched match ''optional_string'' then
        add OptionalString ''optional_string'' (group_str match ''optional_string_regex'')
          (group_str match ''optional_string_consumed'')
      else ok (replacements, types))"

text \<open>
  The body of the loop over the replacements: the cursor \<open>it\<close> moves on by the length of the
  text that was replaced (not of the text put in its place).
\<close>

definition replace_next :: "folly_lib \<Rightarrow> string \<times> nat \<Rightarrow> Replacement \<Rightarrow> (string \<times> nat) outcome" where
  "replace_next F st replacement =
     (let (finalRoute, it) = st in
      case str_find finalRoute (fst replacement) it of
        None \<Rightarrow> throw (Runtime_error (fl_sformat F
          (''Attempted to transform route pattern into regular expression, and'' @
           '' failed. This is a library error, and should be fixed. Tried to'' @
           '' replace {} with {}. Pattern so far: {}.'')
          [FStr (fst replacement), FStr (snd replacement), FStr finalRoute]))
      | Some pos \<Rightarrow>
          bind (str_replace finalRoute pos (length (fst replacement)) (snd replacement))
            (\<lambda>s. ok (s, pos + length (fst replacement))))"

definition parse_route_pattern ::
  "folly_lib \<Rightarrow> regex_lib \<Rightarrow> string \<Rightarrow> (regex \<times> RouteParamType list) outcome" where
  "parse_route_pattern F R pattern =
     bind (re_compile R route_parser) (\<lambda>re.
     bind (fold_outcome (collect_match F R) ([], []) (re_search_all R re pattern))
       (\<lambda>(replacements, types).
     bind (fold_outcome (replace_next F) (pattern, 0) replacements) (\<lambda>(finalRoute, it).
     bind (re_compile R finalRoute) (\<lambda>regex. ok (regex, types)))))"

section \<open>Arguments: the facts\<close>

lemma push_function_parameters_eq:
  "push_function_parameters Args params = params @ map to_RouteParamType Args"
  by (induction Args arbitrary: params) simp_all

lemma parse_function_parameters_eq [route_simps]:
  "parse_function_parameters Args = map to_RouteParamType Args"
  by (simp add: parse_function_parameters_def push_function_parameters_eq)

lemma group_name_eq: "sformat_law F \<Longrightarrow> group_name F N = ''__'' @ dec N"
  by (simp add: group_name_def sformat_law_def)

text \<open>An integer parameter: exact in range, the largest \<open>int64_t\<close> otherwise, never an exception.\<close>

definition saturated_int64 :: "int \<Rightarrow> int64" where
  "saturated_int64 i = (if in_int64 i then word_of_int i else int64_max)"

lemma to_int64_caught:
  assumes "to_int64_law F" and "decimal_value s = Some i"
  shows "catch_std (bind (fl_to_int64 F s) (\<lambda>v. ok (g v))) (\<lambda>e. ok (g int64_max))
    = ok (g (saturated_int64 i))"
  using assms unfolding to_int64_law_def saturated_int64_def
  by (cases "in_int64 i") (force simp: split: if_splits)+

lemma get_int64_decimal:
  assumes "to_int64_law F" and "decimal_value (group_str m (group_name F N)) = Some i"
  shows "get_int64 F N m = ok (saturated_int64 i)"
  using to_int64_caught [OF assms, of "\<lambda>v. v"] by (simp add: get_int64_def)

section \<open>Substituting the placeholders: the facts\<close>

text \<open>
  A pattern is a sequence of literals and placeholders, \<open>(l, (p, r))\<close> standing for the
  literal \<open>l\<close> followed by the placeholder \<open>p\<close>, to be replaced by \<open>r\<close>.
\<close>

type_synonym segments = "(string \<times> Replacement) list"

definition original :: "segments \<Rightarrow> string \<Rightarrow> string" where
  "original segs z = concat (map (\<lambda>(l, r). l @ fst r) segs) @ z"

definition expanded :: "segments \<Rightarrow> string \<Rightarrow> string" where
  "expanded segs z = concat (map (\<lambda>(l, r). l @ snd r) segs) @ z"

text \<open>\<open>clear u\<close>: no \<open>{{\<close> starts in \<open>u\<close>, even if a brace follows \<open>u\<close>.\<close>

fun clear :: "string \<Rightarrow> bool" where
  "clear [] = True"
| "clear [c] = (c \<noteq> CHR ''{'')"
| "clear (c # d # s) = (\<not> (c = CHR ''{'' \<and> d = CHR ''{'') \<and> clear (d # s))"

definition opens :: "string \<Rightarrow> bool" where
  "opens p \<longleftrightarrow> take 2 p = ''{{''"

text \<open>
  What the cursor can still see of the text put in for the previous placeholder (\<open>tl\<close>), plus
  the next literal, must not look like the start of a placeholder.
\<close>

fun separated :: "string \<Rightarrow> segments \<Rightarrow> bool" where
  "separated t [] = True"
| "separated t ((l, p, r) # segs) =
     (clear (t @ l) \<and> opens p \<and> length p \<le> length r \<and> separated (drop (length p) r) segs)"

lemma clear_tail: "clear (c # s) \<Longrightarrow> clear s"
  by (cases s) auto

lemma clear_drop: "clear u \<Longrightarrow> clear (drop n u)"
proof (induction n arbitrary: u)
  case (Suc n)
  then show ?case by (cases u) (auto dest: clear_tail)
qed simp

lemma clear_if_no_brace: "CHR ''{'' \<notin> set u \<Longrightarrow> clear u"
  by (induction u rule: clear.induct) auto

lemma opens_cases:
  assumes "opens p"
  obtains p' where "p = CHR ''{'' # CHR ''{'' # p'"
  using assms unfolding opens_def
  by (cases p; cases "tl p") (auto simp: numeral_2_eq_2)

lemma clear_no_start:
  assumes "clear u" and "u \<noteq> []" and "opens p"
  shows "take (length p) (u @ p @ z) \<noteq> p"
  using assms(1,2)
  by (cases rule: opens_cases [OF assms(3)]; cases u rule: clear.cases) auto

lemma find_placeholder:
  assumes "clear (drop it pre @ l)" and "opens p" and "it \<le> length pre"
  shows "str_find (pre @ l @ p @ z) p it = Some (length (pre @ l))"
proof (rule str_find_eqI)
  fix j assume j: "it \<le> j" "j < length (pre @ l)"
  have "drop j (pre @ l) = drop (j - it) (drop it pre @ l)"
    using j assms(3) by (simp add: drop_append)
  then have "clear (drop j (pre @ l))"
    using clear_drop [OF assms(1)] by metis
  moreover have "drop j (pre @ l) \<noteq> []"
    using j by auto
  ultimately have "take (length p) (drop j (pre @ l) @ p @ z) \<noteq> p"
    using assms(2) by (rule clear_no_start)
  moreover have "drop j (pre @ l @ p @ z) = drop j (pre @ l) @ p @ z"
    using j by (simp add: drop_append)
  ultimately show "take (length p) (drop j (pre @ l @ p @ z)) \<noteq> p"
    by simp
qed (use assms(3) in auto)

lemma replace_next_step:
  assumes "clear (drop it pre @ l)" and "opens p" and "it \<le> length pre"
  shows "replace_next F (pre @ l @ p @ z, it) (p, r)
    = ok (pre @ l @ r @ z, length (pre @ l) + length p)"
  using find_placeholder [OF assms] str_replace_within [of "pre @ l" p z r]
  by (simp add: replace_next_def)

lemma replace_loop:
  assumes "separated (drop it pre) segs" and "it \<le> length pre"
  shows "\<exists>it'. fold_outcome (replace_next F) (pre @ original segs z, it) (map snd segs)
    = ok (pre @ expanded segs z, it')"
  using assms
proof (induction segs arbitrary: pre it)
  case Nil
  then show ?case by (simp add: original_def expanded_def)
next
  case (Cons seg segs)
  obtain l p r where seg: "seg = (l, p, r)" by (cases seg) auto
  with Cons.prems have sep: "clear (drop it pre @ l)" "opens p" "length p \<le> length r"
      "separated (drop (length p) r) segs"
    by auto
  let ?pre = "pre @ l @ r" and ?it = "length (pre @ l) + length p"
  have "drop ?it ?pre = drop (length p) r" and "?it \<le> length ?pre"
    using sep(3) by simp_all
  with sep(4) have "\<exists>it'. fold_outcome (replace_next F) (?pre @ original segs z, ?it) (map snd segs)
      = ok (?pre @ expanded segs z, it')"
    by (intro Cons.IH) simp_all
  then show ?case
    using replace_next_step [OF sep(1,2) Cons.prems(2), of F "original segs z" r]
    by (simp add: seg original_def expanded_def)
qed

section \<open>Placeholders\<close>

text \<open>
  The placeholders of the README's table, their text, the named groups the parser expression
  captures for them, and the expression each becomes as parameter number \<open>n\<close>.
\<close>

datatype placeholder =
    Ph_int
  | Ph_optional_int "string option"
  | Ph_double
  | Ph_optional_double "string option"
  | Ph_string string
  | Ph_optional_string string "string option"

fun suffix_text :: "string option \<Rightarrow> string" where
  "suffix_text None = []"
| "suffix_text (Some c) = CHR '':'' # c"

fun ph_text :: "placeholder \<Rightarrow> string" where
  "ph_text Ph_int = ''{{i}}''"
| "ph_text (Ph_optional_int c) = ''{{i?'' @ suffix_text c @ ''}}''"
| "ph_text Ph_double = ''{{d}}''"
| "ph_text (Ph_optional_double c) = ''{{d?'' @ suffix_text c @ ''}}''"
| "ph_text (Ph_string v) = ''{{s:'' @ v @ ''}}''"
| "ph_text (Ph_optional_string v c) = ''{{s?:'' @ v @ suffix_text c @ ''}}''"

fun ph_type :: "placeholder \<Rightarrow> RouteParamType" where
  "ph_type Ph_int = Int64"
| "ph_type (Ph_optional_int c) = OptionalInt64"
| "ph_type Ph_double = Double"
| "ph_type (Ph_optional_double c) = OptionalDouble"
| "ph_type (Ph_string v) = String"
| "ph_type (Ph_optional_string v c) = OptionalString"

fun ph_match :: "placeholder \<Rightarrow> smatch" where
  "ph_match Ph_int = [''int'' \<mapsto> ph_text Ph_int]"
| "ph_match (Ph_optional_int c) =
     [''optional_int'' \<mapsto> ph_text (Ph_optional_int c)](''optional_int_regex'' := c)"
| "ph_match Ph_double = [''double'' \<mapsto> ph_text Ph_double]"
| "ph_match (Ph_optional_double c) =
     [''optional_double'' \<mapsto> ph_text (Ph_optional_double c)](''optional_double_regex'' := c)"
| "ph_match (Ph_string v) = [''string'' \<mapsto> ph_text (Ph_string v), ''string_regex'' \<mapsto> v]"
| "ph_match (Ph_optional_string v c) =
     [''optional_string'' \<mapsto> ph_text (Ph_optional_string v c),
      ''optional_string_regex'' \<mapsto> v](''optional_string_consumed'' := c)"

fun ph_regex :: "nat \<Rightarrow> placeholder \<Rightarrow> string" where
  "ph_regex n Ph_int = ''(?<__'' @ dec n @ raw ''>[+-]?~d+)''"
| "ph_regex n (Ph_optional_int c) =
     ''(?:(?<__'' @ dec n @ raw ''>[+-]?~d+)'' @ value_or c [] @ '')?''"
| "ph_regex n Ph_double = ''(?<__'' @ dec n @ raw ''>[+-]?~d+(?:~.~d+)?)''"
| "ph_regex n (Ph_optional_double c) =
     ''(?:(?<__'' @ dec n @ raw ''>[+-]?~d+(?:~.~d+)?)'' @ value_or c [] @ '')?''"
| "ph_regex n (Ph_string v) = ''(?<__'' @ dec n @ ''>'' @ v @ '')''"
| "ph_regex n (Ph_optional_string v c) =
     ''(?:(?<__'' @ dec n @ ''>'' @ v @ '')'' @ value_or c [] @ '')?''"

fun ph_value :: "placeholder \<Rightarrow> string option" where
  "ph_value (Ph_string v) = Some v"
| "ph_value (Ph_optional_string v c) = Some v"
| "ph_value _ = None"

definition value_compiles :: "regex_lib \<Rightarrow> placeholder \<Rightarrow> bool" where
  "value_compiles R ph \<longleftrightarrow>
     (case ph_value ph of None \<Rightarrow> True | Some v \<Rightarrow> (case re_compile R v of Inl _ \<Rightarrow> False | Inr _ \<Rightarrow> True))"

lemma collect_match_placeholder:
  assumes "sformat_law F" and "value_compiles R ph"
  shows "collect_match F R (reps, types) (ph_match ph)
    = ok (reps @ [(ph_text ph, ph_regex (length reps) ph)], types @ [ph_type ph])"
proof -
  have fmt: "fl_sformat F t as = fill t as" if "plain_template t" "holes t = length as" for t as
    using assms(1) that by (simp add: sformat_law_def)
  show ?thesis
    using assms(2)
    by (cases ph)
       (auto simp: collect_match_def value_compiles_def group_matched_def group_str_def raw_def fmt
         value_or_def split: sum.splits option.splits)
qed

lemma collect_match_refused:
  assumes "ph_value ph = Some v" and "re_compile R v = throw e"
  shows "collect_match F R (reps, types) (ph_match ph) = throw e"
  using assms
  by (cases ph) (auto simp: collect_match_def group_matched_def group_str_def)

text \<open>A route pattern: literals, each followed by a placeholder, and a last literal.\<close>

type_synonym shape = "(string \<times> placeholder) list"

definition shape_text :: "shape \<Rightarrow> string \<Rightarrow> string" where
  "shape_text sh z = concat (map (\<lambda>(l, ph). l @ ph_text ph) sh) @ z"

fun numbered :: "nat \<Rightarrow> shape \<Rightarrow> segments" where
  "numbered n [] = []"
| "numbered n ((l, ph) # sh) = (l, ph_text ph, ph_regex n ph) # numbered (Suc n) sh"

definition shape_regex :: "shape \<Rightarrow> string \<Rightarrow> string" where
  "shape_regex sh z = expanded (numbered 0 sh) z"

lemma original_numbered: "original (numbered n sh) z = shape_text sh z"
  by (induction n sh rule: numbered.induct) (simp_all add: original_def shape_text_def)

lemma collect_matches:
  assumes "sformat_law F" and "\<forall>(l, ph) \<in> set sh. value_compiles R ph"
  shows "fold_outcome (collect_match F R) (reps, types) (map (ph_match \<circ> snd) sh)
    = ok (reps @ map snd (numbered (length reps) sh), types @ map (ph_type \<circ> snd) sh)"
  using assms(2)
proof (induction sh arbitrary: reps types)
  case (Cons a sh)
  obtain l ph where a: "a = (l, ph)" by (cases a)
  with Cons.prems have "value_compiles R ph" by simp
  from collect_match_placeholder [OF assms(1) this, of reps types] Cons
  show ?case by (simp add: a)
qed simp

text \<open>
  \<open>finds R sh z\<close>: searching the pattern with the parser expression yields its placeholders,
  in order. This is what the README's table says of the pattern language.
\<close>

definition finds :: "regex_lib \<Rightarrow> shape \<Rightarrow> string \<Rightarrow> bool" where
  "finds R sh z \<longleftrightarrow> re_compile R route_parser = ok route_parser \<and>
     re_search_all R route_parser (shape_text sh z) = map (ph_match \<circ> snd) sh"

lemma parse_route_pattern_shape:
  assumes "sformat_law F" and "finds R sh z" and "\<forall>(l, ph) \<in> set sh. value_compiles R ph"
    and "separated [] (numbered 0 sh)"
  shows "parse_route_pattern F R (shape_text sh z)
    = bind (re_compile R (shape_regex sh z)) (\<lambda>rx. ok (rx, map (ph_type \<circ> snd) sh))"
proof -
  have "fold_outcome (collect_match F R) ([], []) (map (ph_match \<circ> snd) sh)
      = ok (map snd (numbered 0 sh), map (ph_type \<circ> snd) sh)"
    using collect_matches [OF assms(1,3), of "[]" "[]"] by simp
  moreover obtain it where "fold_outcome (replace_next F) (shape_text sh z, 0) (map snd (numbered 0 sh))
      = ok (shape_regex sh z, it)"
    using replace_loop [of 0 "[]" "numbered 0 sh" F z] assms(4)
    by (auto simp: original_numbered shape_regex_def)
  ultimately show ?thesis
    using assms(2) by (simp add: parse_route_pattern_def finds_def)
qed

text \<open>Patterns in whose literals and expressions no \<open>{{\<close> starts are separated.\<close>

fun ph_clear :: "placeholder \<Rightarrow> bool" where
  "ph_clear (Ph_optional_int c) = clear (value_or c [])"
| "ph_clear (Ph_optional_double c) = clear (value_or c [])"
| "ph_clear (Ph_string v) = clear v"
| "ph_clear (Ph_optional_string v c) = (clear v \<and> clear (value_or c []))"
| "ph_clear _ = True"

definition shape_clear :: "shape \<Rightarrow> bool" where
  "shape_clear sh \<longleftrightarrow> (\<forall>(l, ph) \<in> set sh. clear l \<and> ph_clear ph)"

lemma clear_append: "clear u \<Longrightarrow> clear v \<Longrightarrow> clear (u @ v)"
proof (induction u rule: clear.induct)
  case (2 c)
  then show ?case by (cases v) auto
qed auto

lemma ph_regex_clear: "ph_clear ph \<Longrightarrow> clear (ph_regex n ph)"
proof -
  have number: "clear (''(?<__'' @ dec n)" "clear (''(?:(?<__'' @ dec n)"
    by (rule clear_if_no_brace; simp add: dec_no_brace)+
  have "clear (u @ v)" "clear (u @ x @ v)" "clear (u @ x @ y @ v)"
    if "clear u" "clear x" "clear y" "clear v" for u x y v
    using that by (simp_all add: clear_append)
  note three = this(2) and four = this(3)
  show "ph_clear ph \<Longrightarrow> clear (ph_regex n ph)"
  proof (cases ph)
    case Ph_int
    show ?thesis using clear_append [OF number(1), of "raw ''>[+-]?~d+)''"] by (simp add: Ph_int raw_def)
  next
    case Ph_double
    show ?thesis using clear_append [OF number(1), of "raw ''>[+-]?~d+(?:~.~d+)?)''"]
      by (simp add: Ph_double raw_def)
  next
    case (Ph_optional_int c)
    moreover assume "ph_clear ph"
    ultimately show ?thesis
      using four [OF number(2), of "raw ''>[+-]?~d+)''" "value_or c []" "'')?''"] by (simp add: raw_def)
  next
    case (Ph_optional_double c)
    moreover assume "ph_clear ph"
    ultimately show ?thesis
      using four [OF number(2), of "raw ''>[+-]?~d+(?:~.~d+)?)''" "value_or c []" "'')?''"] by (simp add: raw_def)
  next
    case (Ph_string v)
    moreover assume "ph_clear ph"
    ultimately show ?thesis
      using four [OF number(1), of "''>''" v "'')''"] by simp
  next
    case (Ph_optional_string v c)
    moreover assume "ph_clear ph"
    ultimately show ?thesis
      using four [OF four [OF number(2), of "''>''" v "'')''"], of "[]" "value_or c []" "'')?''"] by simp
  qed
qed

lemma length_dec: "Suc 0 \<le> length (dec n)"
  using dec_nonempty [of n] by (cases "dec n") simp_all

lemma ph_text_opens: "opens (ph_text ph)"
  by (cases ph) (simp_all add: opens_def)

lemma length_suffix_text:
  "length (suffix_text c) = (case c of None \<Rightarrow> 0 | Some s \<Rightarrow> Suc (length s))"
  by (cases c) simp_all

lemma ph_text_shorter: "length (ph_text ph) \<le> length (ph_regex n ph)"
  using length_dec [of n]
  by (cases ph) (simp_all add: raw_def length_suffix_text value_or_def split: option.split)

lemma shape_clear_separated:
  "shape_clear sh \<Longrightarrow> clear t \<Longrightarrow> separated t (numbered n sh)"
proof (induction n sh arbitrary: t rule: numbered.induct)
  case (2 n l ph sh)
  then have "clear (drop (length (ph_text ph)) (ph_regex n ph))"
    by (intro clear_drop ph_regex_clear) (simp add: shape_clear_def)
  with "2" show ?case
    by (auto simp: ph_text_opens ph_text_shorter shape_clear_def clear_append)
qed simp

section \<open>Properties\<close>

text \<open>
  C40. An integer parameter never makes a match fail: digits with an optional sign are passed as
  their value where it fits 64 bits, and as the largest \<open>int64_t\<close> where it does not, for the
  plain and the optional type alike (a too small number becomes the largest one as well).
\<close>

theorem int_parameter_saturates:
  assumes "to_int64_law F" and "sformat_law F" and "m (''__'' @ dec N) = Some digits"
    and "decimal_value digits = Some i"
  shows "get_handler_args F N T_int64 m =
      ok (A_int64 (if in_int64 i then word_of_int i else int64_max)) \<and>
    get_handler_args F N T_optional_int64 m =
      ok (A_optional_int64 (Some (if in_int64 i then word_of_int i else int64_max)))"
proof -
  have g: "group_name F N = ''__'' @ dec N"
    using assms(2) by (rule group_name_eq)
  with assms(3) have s: "group_str m (group_name F N) = digits" "group_matched m (group_name F N)"
    by (simp_all add: group_str_def group_matched_def)
  have "get_int64 F N m = ok (saturated_int64 i)"
    using assms(1,4) s(1) by (intro get_int64_decimal) simp_all
  moreover have "get_optional_int64 F N m = ok (Some (saturated_int64 i))"
    using to_int64_caught [OF assms(1,4), of Some] s by (simp add: get_optional_int64_def Let_def)
  ultimately show ?thesis
    by (simp add: saturated_int64_def)
qed

lemma int_parameter_saturates_witness:
  "get_handler_args ref_folly 3 T_int64 [''__3'' \<mapsto> ''-99999999999999999999''] =
      ok (A_int64 (if in_int64 (-99999999999999999999) then word_of_int (-99999999999999999999) else int64_max)) \<and>
    get_handler_args ref_folly 3 T_optional_int64 [''__3'' \<mapsto> ''-99999999999999999999''] =
      ok (A_optional_int64 (Some (if in_int64 (-99999999999999999999)
        then word_of_int (-99999999999999999999) else int64_max)))"
  by (rule int_parameter_saturates [OF ref_folly_laws(3,2), where digits = "''-99999999999999999999''"])
     (simp_all add: dec.simps is_digit_def char_of_def bit_0)

end
