(* ===== verification/Path_Expressions.thy ===== *)
theory Path_Expressions
  imports Libraries
begin

text \<open>
  The regular expressions that route patterns are made of: their text in the perl syntax the
  library compiles them with, and what the documentation of that syntax says they match, with
  the text each named group has taken. \<open>perl_law\<close> states that the regex library keeps to it.
\<close>

section \<open>Expressions and their text\<close>

datatype class_item = Single char | Span char char

datatype expr =
    Empty
  | Chr char
  | Any
  | Digit
  | Word_char
  | One_of "class_item list"
  | Seq expr expr
  | Alt expr expr
  | Star expr
  | Plus expr
  | Lazy_plus expr
  | Opt expr
  | Group string expr

definition special_chars :: string where
  "special_chars = raw ''~.^$|()[]{}*+?''"

fun show_item :: "class_item \<Rightarrow> string" where
  "show_item (Single c) = [c]"
| "show_item (Span a b) = [a, CHR ''-'', b]"

text \<open>What a repetition binds to without parentheses, and what needs them in a sequence.\<close>

fun single :: "expr \<Rightarrow> bool" where
  "single (Chr _) = True"
| "single Any = True"
| "single Digit = True"
| "single Word_char = True"
| "single (One_of _) = True"
| "single (Group _ _) = True"
| "single _ = False"

fun is_alt :: "expr \<Rightarrow> bool" where
  "is_alt (Alt _ _) = True"
| "is_alt _ = False"

definition parens :: "bool \<Rightarrow> string \<Rightarrow> string" where
  "parens b s = (if b then ''(?:'' @ s @ '')'' else s)"

primrec show_expr :: "expr \<Rightarrow> string" where
  "show_expr Empty = []"
| "show_expr (Chr c) = (if c \<in> set special_chars then [CHR 0x5C, c] else [c])"
| "show_expr Any = ''.''"
| "show_expr Digit = raw ''~d''"
| "show_expr Word_char = raw ''~w''"
| "show_expr (One_of items) = ''['' @ concat (map show_item items) @ '']''"
| "show_expr (Seq a b) = parens (is_alt a) (show_expr a) @ parens (is_alt b) (show_expr b)"
| "show_expr (Alt a b) = show_expr a @ ''|'' @ show_expr b"
| "show_expr (Star e) = parens (\<not> single e) (show_expr e) @ ''*''"
| "show_expr (Plus e) = parens (\<not> single e) (show_expr e) @ ''+''"
| "show_expr (Lazy_plus e) = parens (\<not> single e) (show_expr e) @ ''+?''"
| "show_expr (Opt e) = parens (\<not> single e) (show_expr e) @ ''?''"
| "show_expr (Group n e) = ''(?<'' @ n @ ''>'' @ show_expr e @ '')''"

definition show_part :: "expr \<Rightarrow> string" where
  "show_part e = parens (is_alt e) (show_expr e)"

section \<open>What an expression matches\<close>

fun in_item :: "char \<Rightarrow> class_item \<Rightarrow> bool" where
  "in_item c (Single d) = (c = d)"
| "in_item c (Span a b) = ((of_char a :: nat) \<le> of_char c \<and> (of_char c :: nat) \<le> of_char b)"

definition is_word :: "char \<Rightarrow> bool" where
  "is_word c \<longleftrightarrow> is_digit c \<or> c = CHR ''_'' \<or>
     in_item c (Span (CHR ''a'') (CHR ''z'')) \<or> in_item c (Span (CHR ''A'') (CHR ''Z''))"

text \<open>
  \<open>takes e s m\<close>: the whole of \<open>s\<close> is matched by \<open>e\<close>, the groups taking \<open>m\<close>. A group in a
  repetition keeps the text of its last turn.
\<close>

inductive takes :: "expr \<Rightarrow> string \<Rightarrow> smatch \<Rightarrow> bool" where
  empty: "takes Empty [] Map.empty"
| chr: "takes (Chr c) [c] Map.empty"
| any: "takes Any [c] Map.empty"
| digit: "is_digit c \<Longrightarrow> takes Digit [c] Map.empty"
| word: "is_word c \<Longrightarrow> takes Word_char [c] Map.empty"
| one_of: "\<exists>i \<in> set items. in_item c i \<Longrightarrow> takes (One_of items) [c] Map.empty"
| seq: "takes a s m \<Longrightarrow> takes b t n \<Longrightarrow> takes (Seq a b) (s @ t) (m ++ n)"
| alt_left: "takes a s m \<Longrightarrow> takes (Alt a b) s m"
| alt_right: "takes b s m \<Longrightarrow> takes (Alt a b) s m"
| star_end: "takes (Star e) [] Map.empty"
| star_turn: "takes e s m \<Longrightarrow> takes (Star e) t n \<Longrightarrow> takes (Star e) (s @ t) (m ++ n)"
| plus: "takes e s m \<Longrightarrow> takes (Star e) t n \<Longrightarrow> takes (Plus e) (s @ t) (m ++ n)"
| lazy_plus: "takes e s m \<Longrightarrow> takes (Star e) t n \<Longrightarrow> takes (Lazy_plus e) (s @ t) (m ++ n)"
| opt_none: "takes (Opt e) [] Map.empty"
| opt_some: "takes e s m \<Longrightarrow> takes (Opt e) s m"
| group: "takes e s m \<Longrightarrow> takes (Group n e) s (m(n \<mapsto> s))"

inductive_cases takes_StarE: "takes (Star e) s m"

inductive_simps takes_simps:
  "takes Empty s m" "takes (Chr c) s m" "takes Any s m" "takes Digit s m"
  "takes Word_char s m" "takes (One_of items) s m" "takes (Seq a b) s m"
  "takes (Alt a b) s m" "takes (Plus e) s m" "takes (Lazy_plus e) s m"
  "takes (Opt e) s m" "takes (Group n e) s m"

text \<open>
  Matching a string with a compiled expression gives some match of it, none where there is none,
  or an exception where the library gives up.
\<close>

definition perl_law :: "regex_lib \<Rightarrow> expr \<Rightarrow> bool" where
  "perl_law R e \<longleftrightarrow> re_compile R (show_expr e) = ok (show_expr e) \<and>
     (\<forall>s. case re_match R (show_expr e) s of
        Inr None \<Rightarrow> \<nexists>m. takes e s m
      | Inr (Some m) \<Rightarrow> takes e s m
      | Inl f \<Rightarrow> \<exists>msg. f = Throw (Runtime_error msg))"

definition lang :: "expr \<Rightarrow> string set" where
  "lang e = {s. \<exists>m. takes e s m}"

fun groups :: "expr \<Rightarrow> string set" where
  "groups (Group n e) = insert n (groups e)"
| "groups (Seq a b) = groups a \<union> groups b"
| "groups (Alt a b) = groups a \<union> groups b"
| "groups (Star e) = groups e"
| "groups (Plus e) = groups e"
| "groups (Lazy_plus e) = groups e"
| "groups (Opt e) = groups e"
| "groups _ = {}"

lemma takes_groups: "takes e s m \<Longrightarrow> dom m \<subseteq> groups e"
  by (induction rule: takes.induct) (auto split: if_splits dest: subsetD [OF _ domI])

lemma takes_plain: "takes e s m \<Longrightarrow> groups e = {} \<Longrightarrow> m = Map.empty"
  using takes_groups [of e s m] by simp

lemma takes_lang: "groups e = {} \<Longrightarrow> takes e s m \<longleftrightarrow> s \<in> lang e \<and> m = Map.empty"
  using takes_plain [of e s] by (auto simp: lang_def)

section \<open>Languages\<close>

lemma lang_simps [simp]:
  "s \<in> lang Empty \<longleftrightarrow> s = []"
  "s \<in> lang (Chr c) \<longleftrightarrow> s = [c]"
  "s \<in> lang Any \<longleftrightarrow> length s = 1"
  "s \<in> lang Digit \<longleftrightarrow> (\<exists>c. s = [c] \<and> is_digit c)"
  "s \<in> lang Word_char \<longleftrightarrow> (\<exists>c. s = [c] \<and> is_word c)"
  "s \<in> lang (One_of items) \<longleftrightarrow> (\<exists>c. s = [c] \<and> (\<exists>i \<in> set items. in_item c i))"
  "s \<in> lang (Alt a b) \<longleftrightarrow> s \<in> lang a \<or> s \<in> lang b"
  "s \<in> lang (Opt e) \<longleftrightarrow> s = [] \<or> s \<in> lang e"
  "s \<in> lang (Group n e) \<longleftrightarrow> s \<in> lang e"
  by (auto simp: lang_def takes_simps length_Suc_conv)

lemma lang_Seq: "s \<in> lang (Seq a b) \<longleftrightarrow> (\<exists>u v. s = u @ v \<and> u \<in> lang a \<and> v \<in> lang b)"
  unfolding lang_def takes_simps by blast

lemma lang_Star_Nil [simp]: "[] \<in> lang (Star e)"
  unfolding lang_def using star_end by blast

lemma lang_Star_step: "u \<in> lang e \<Longrightarrow> v \<in> lang (Star e) \<Longrightarrow> u @ v \<in> lang (Star e)"
  unfolding lang_def using star_turn by blast

lemma lang_Plus: "s \<in> lang (Plus e) \<longleftrightarrow> (\<exists>u v. s = u @ v \<and> u \<in> lang e \<and> v \<in> lang (Star e))"
  unfolding lang_def takes_simps by blast

text \<open>Repeating an expression for one character.\<close>

lemma takes_Star_chars:
  "takes f s m \<Longrightarrow> f = Star e \<Longrightarrow> \<forall>t \<in> lang e. \<exists>c. t = [c] \<and> P c \<Longrightarrow> list_all P s"
proof (induction rule: takes.induct)
  case (star_turn e' s m t n)
  then have "s \<in> lang e" by (auto simp: lang_def)
  with star_turn show ?case by auto
qed auto

lemma Star_chars:
  assumes "\<And>t. t \<in> lang e \<longleftrightarrow> (\<exists>c. t = [c] \<and> P c)"
  shows "s \<in> lang (Star e) \<longleftrightarrow> list_all P s"
proof
  assume "s \<in> lang (Star e)"
  then show "list_all P s"
    using takes_Star_chars [of "Star e" s _ e P] assms by (auto simp: lang_def)
next
  assume "list_all P s"
  then show "s \<in> lang (Star e)"
  proof (induction s)
    case (Cons c s)
    with assms [of "[c]"] lang_Star_step [of "[c]" e s] show ?case by simp
  qed simp
qed

lemma Plus_chars:
  assumes "\<And>t. t \<in> lang e \<longleftrightarrow> (\<exists>c. t = [c] \<and> P c)"
  shows "s \<in> lang (Plus e) \<longleftrightarrow> s \<noteq> [] \<and> list_all P s"
proof
  assume "s \<in> lang (Plus e)"
  then obtain u v where "s = u @ v" "u \<in> lang e" "v \<in> lang (Star e)"
    by (auto simp: lang_Plus)
  then show "s \<noteq> [] \<and> list_all P s"
    using assms Star_chars [OF assms, of v] by auto
next
  assume "s \<noteq> [] \<and> list_all P s"
  then obtain c v where "s = [c] @ v" "P c" "list_all P v"
    by (cases s) auto
  moreover have "[c] \<in> lang e" and "v \<in> lang (Star e)"
    using calculation assms Star_chars [OF assms, of v] by auto
  ultimately show "s \<in> lang (Plus e)"
    unfolding lang_Plus by blast
qed

lemma Star_Any [simp]: "s \<in> lang (Star Any)"
  using Star_chars [of Any "\<lambda>_. True" s] by (auto simp: length_Suc_conv list_all_iff)

lemma Plus_Digit: "s \<in> lang (Plus Digit) \<longleftrightarrow> s \<noteq> [] \<and> list_all is_digit s"
  by (rule Plus_chars) simp

lemma Plus_Word: "s \<in> lang (Plus Word_char) \<longleftrightarrow> s \<noteq> [] \<and> list_all is_word s"
  by (rule Plus_chars) simp

lemma Plus_One_of:
  "s \<in> lang (Plus (One_of items)) \<longleftrightarrow> s \<noteq> [] \<and> list_all (\<lambda>c. \<exists>i \<in> set items. in_item c i) s"
  by (rule Plus_chars) simp

text \<open>Literal text.\<close>

fun literal :: "string \<Rightarrow> expr" where
  "literal [] = Empty"
| "literal [c] = Chr c"
| "literal (c # s) = Seq (Chr c) (literal s)"

lemma literal_not_alt [simp]: "\<not> is_alt (literal s)"
  by (induction s rule: literal.induct) simp_all

lemma groups_literal [simp]: "groups (literal s) = {}"
  by (induction s rule: literal.induct) simp_all

lemma lang_literal [simp]: "t \<in> lang (literal s) \<longleftrightarrow> t = s"
  by (induction s arbitrary: t rule: literal.induct) (auto simp: lang_Seq)

lemma show_literal:
  "set s \<inter> set special_chars = {} \<Longrightarrow> show_expr (literal s) = s"
  by (induction s rule: literal.induct) (auto simp: parens_def)

declare literal.simps [simp del]

section \<open>The order of the search\<close>

text \<open>
  \<open>runs e s\<close> lists the ways to match a prefix of \<open>s\<close>, with what is left of \<open>s\<close>, in the order in
  which the library tries them: the left alternative first, one more turn of a repetition
  before none (after it for a lazy one), and turns only where they make progress.
\<close>

definition after :: "smatch \<Rightarrow> (smatch \<times> string) list \<Rightarrow> (smatch \<times> string) list" where
  "after m xs = map (\<lambda>(n, r). (m ++ n, r)) xs"

fun one_char :: "(char \<Rightarrow> bool) \<Rightarrow> string \<Rightarrow> (smatch \<times> string) list" where
  "one_char p [] = []"
| "one_char p (c # s) = (if p c then [(Map.empty, s)] else [])"

text \<open>\<open>Plus\<close> calls \<open>Star\<close> on the same expression, so it must weigh more.\<close>

primrec weight :: "expr \<Rightarrow> nat" where
  "weight Empty = 0"
| "weight (Chr c) = 0"
| "weight Any = 0"
| "weight Digit = 0"
| "weight Word_char = 0"
| "weight (One_of items) = 0"
| "weight (Seq a b) = Suc (weight a + weight b)"
| "weight (Alt a b) = Suc (weight a + weight b)"
| "weight (Star e) = Suc (weight e)"
| "weight (Plus e) = Suc (Suc (weight e))"
| "weight (Lazy_plus e) = Suc (weight e)"
| "weight (Opt e) = Suc (weight e)"
| "weight (Group n e) = Suc (weight e)"

function runs :: "expr \<Rightarrow> string \<Rightarrow> (smatch \<times> string) list" where
  "runs Empty s = [(Map.empty, s)]"
| "runs (Chr c) s = one_char (\<lambda>d. d = c) s"
| "runs Any s = one_char (\<lambda>d. True) s"
| "runs Digit s = one_char is_digit s"
| "runs Word_char s = one_char is_word s"
| "runs (One_of items) s = one_char (\<lambda>d. \<exists>i \<in> set items. in_item d i) s"
| "runs (Seq a b) s = concat (map (\<lambda>(m, r). after m (runs b r)) (runs a s))"
| "runs (Alt a b) s = runs a s @ runs b s"
| "runs (Star e) s = concat (map (\<lambda>(m, r). if length r < length s then after m (runs (Star e) r) else [])
     (runs e s)) @ [(Map.empty, s)]"
| "runs (Plus e) s = concat (map (\<lambda>(m, r). after m (runs (Star e) r)) (runs e s))"
| "runs (Lazy_plus e) s = concat (map (\<lambda>(m, r). (m, r) #
     (if length r < length s then after m (runs (Lazy_plus e) r) else [])) (runs e s))"
| "runs (Opt e) s = runs e s @ [(Map.empty, s)]"
| "runs (Group n e) s = map (\<lambda>(m, r). (m(n \<mapsto> take (length s - length r) s), r)) (runs e s)"
  by pat_completeness auto
termination
  by (relation "measures [\<lambda>(e, s). weight e, \<lambda>(e, s). length s]") auto

declare runs.simps(9,11) [simp del]

lemma in_after: "(x, r) \<in> set (after m xs) \<longleftrightarrow> (\<exists>n. x = m ++ n \<and> (n, r) \<in> set xs)"
  by (auto simp: after_def)

lemma in_one_char: "(m, r) \<in> set (one_char p s) \<longleftrightarrow> (\<exists>c. p c \<and> s = c # r \<and> m = Map.empty)"
  by (cases s) auto

lemma in_runs:
  "(m, r) \<in> set (runs (Seq a b) s) \<longleftrightarrow> (\<exists>x q y. (x, q) \<in> set (runs a s) \<and> (y, r) \<in> set (runs b q) \<and> m = x ++ y)"
  "(m, r) \<in> set (runs (Star e) s) \<longleftrightarrow> m = Map.empty \<and> r = s \<or>
     (\<exists>x q y. (x, q) \<in> set (runs e s) \<and> length q < length s \<and> (y, r) \<in> set (runs (Star e) q) \<and> m = x ++ y)"
  "(m, r) \<in> set (runs (Plus e) s) \<longleftrightarrow> (\<exists>x q y. (x, q) \<in> set (runs e s) \<and> (y, r) \<in> set (runs (Star e) q) \<and> m = x ++ y)"
  "(m, r) \<in> set (runs (Lazy_plus e) s) \<longleftrightarrow> (m, r) \<in> set (runs e s) \<or>
     (\<exists>x q y. (x, q) \<in> set (runs e s) \<and> length q < length s \<and> (y, r) \<in> set (runs (Lazy_plus e) q) \<and> m = x ++ y)"
  "(m, r) \<in> set (runs (Group n e) s) \<longleftrightarrow>
     (\<exists>x. (x, r) \<in> set (runs e s) \<and> m = x(n \<mapsto> take (length s - length r) s))"
proof -
  show "(m, r) \<in> set (runs (Star e) s) \<longleftrightarrow> m = Map.empty \<and> r = s \<or>
     (\<exists>x q y. (x, q) \<in> set (runs e s) \<and> length q < length s \<and> (y, r) \<in> set (runs (Star e) q) \<and> m = x ++ y)"
    by (subst runs.simps(9)) (auto simp: in_after split: if_splits)
  show "(m, r) \<in> set (runs (Lazy_plus e) s) \<longleftrightarrow> (m, r) \<in> set (runs e s) \<or>
     (\<exists>x q y. (x, q) \<in> set (runs e s) \<and> length q < length s \<and> (y, r) \<in> set (runs (Lazy_plus e) q) \<and> m = x ++ y)"
    by (subst runs.simps(11)) (auto simp: in_after split: if_splits)
qed (auto simp: in_after)

lemma takes_lazy: "takes (Lazy_plus e) s m \<longleftrightarrow> takes (Plus e) s m"
  by (simp add: takes_simps)

text \<open>What a run takes is matched, and what is matched is taken by some run.\<close>

lemma runs_sound: "(m, r) \<in> set (runs e s) \<Longrightarrow> \<exists>u. s = u @ r \<and> takes e u m"
proof (induction e s arbitrary: m r rule: runs.induct)
  case (7 a b s)
  then obtain x q y where x: "(x, q) \<in> set (runs a s)" "(y, r) \<in> set (runs b q)" "m = x ++ y"
    unfolding in_runs(1) by blast
  with "7.IH" obtain u v where "s = u @ q" "takes a u x" "q = v @ r" "takes b v y" by blast
  with x(3) takes.seq [of a u x b v y] show ?case by auto
next
  case (9 e s)
  from "9.prems" consider "m = Map.empty" "r = s" | x q y where "(x, q) \<in> set (runs e s)" "length q < length s"
      "(y, r) \<in> set (runs (Star e) q)" "m = x ++ y"
    using in_runs(2) [THEN iffD1] by blast
  then show ?case
  proof cases
    case (2 x q y)
    with "9.IH" obtain u v where "s = u @ q" "takes e u x" "q = v @ r" "takes (Star e) v y" by blast
    with 2(4) star_turn [of e u x v y] show ?thesis by auto
  qed (use star_end in auto)
next
  case (10 e s)
  then obtain x q y where x: "(x, q) \<in> set (runs e s)" "(y, r) \<in> set (runs (Star e) q)" "m = x ++ y"
    unfolding in_runs(3) by blast
  with "10.IH" obtain u v where "s = u @ q" "takes e u x" "q = v @ r" "takes (Star e) v y" by blast
  with x(3) plus [of e u x v y] show ?case by auto
next
  case (11 e s)
  from "11.prems" consider "(m, r) \<in> set (runs e s)" | x q y where "(x, q) \<in> set (runs e s)" "length q < length s"
      "(y, r) \<in> set (runs (Lazy_plus e) q)" "m = x ++ y"
    using in_runs(4) [THEN iffD1] by blast
  then show ?case
  proof cases
    case 1
    then obtain u where "s = u @ r" "takes e u m" using "11.IH"(1) by blast
    with lazy_plus [of e u m "[]" Map.empty] star_end show ?thesis by auto
  next
    case (2 x q y)
    obtain u where "s = u @ q" "takes e u x" using "11.IH"(1) 2(1) by blast
    moreover obtain v where "q = v @ r" "takes (Lazy_plus e) v y" using "11.IH"(2) 2(1-3) by blast
    moreover from this(2) have "takes (Star e) v y"
      unfolding takes_simps by (auto intro: star_turn)
    ultimately show ?thesis
      using 2(4) lazy_plus [of e u x v y] by auto
  qed
next
  case (13 n e s)
  then obtain x where x: "(x, r) \<in> set (runs e s)" "m = x(n \<mapsto> take (length s - length r) s)"
    unfolding in_runs(5) by blast
  with "13.IH" obtain u where u: "s = u @ r" "takes e u x" by blast
  then have "take (length s - length r) s = u" by simp
  with x(2) u group [of e u x n] show ?case by metis
next
  case (8 a b s)
  from "8.prems" consider "(m, r) \<in> set (runs a s)" | "(m, r) \<in> set (runs b s)" by auto
  then show ?case
  proof cases
    case 1
    with "8.IH"(1) obtain u where "s = u @ r" "takes a u m" by blast
    then show ?thesis by (intro exI [of _ u]) (simp add: alt_left)
  next
    case 2
    with "8.IH"(2) obtain u where "s = u @ r" "takes b u m" by blast
    then show ?thesis by (intro exI [of _ u]) (simp add: alt_right)
  qed
qed (auto simp: in_one_char takes_simps)

lemma lazy_takes_star:
  "(n, r) \<in> set (runs (Star e) q) \<Longrightarrow> (m, q) \<in> set (runs e s) \<Longrightarrow> \<exists>x. (x, r) \<in> set (runs (Lazy_plus e) s)"
proof (induction "length q" arbitrary: q n m s rule: less_induct)
  case less
  from less.prems(1) consider "r = q" | x q' y where "(x, q') \<in> set (runs e q)" "length q' < length q"
      "(y, r) \<in> set (runs (Star e) q')"
    using in_runs(2) [THEN iffD1] by blast
  then show ?case
  proof cases
    case 1
    with less.prems(2) in_runs(4) [THEN iffD2] show ?thesis by blast
  next
    case (2 x q' y)
    then obtain z where z: "(z, r) \<in> set (runs (Lazy_plus e) q)"
      using less.hyps [OF 2(2,3,1)] by blast
    obtain u where "s = u @ q" using runs_sound [OF less.prems(2)] by blast
    then have "length q < length s \<or> q = s" by (cases u) auto
    with z less.prems(2) in_runs(4) [THEN iffD2] show ?thesis by blast
  qed
qed

lemma runs_complete: "takes e u m \<Longrightarrow> \<exists>x. (x, r) \<in> set (runs e (u @ r))"
proof (induction arbitrary: r rule: takes.induct)
  case (seq a s m b t n)
  from seq.IH(1) [of "t @ r"] seq.IH(2) [of r] show ?case
    unfolding in_runs(1) append_assoc by blast
next
  case (star_turn e s m t n)
  show ?case
  proof (cases "s = []")
    case False
    then have "length (t @ r) < length (s @ t @ r)" by simp
    with star_turn.IH(1) [of "t @ r"] star_turn.IH(2) [of r] in_runs(2) [THEN iffD2] show ?thesis
      unfolding append_assoc by blast
  qed (use star_turn.IH(2) in simp)
next
  case (plus e s m t n)
  from plus.IH(1) [of "t @ r"] plus.IH(2) [of r] show ?case
    unfolding in_runs(3) append_assoc by blast
next
  case (lazy_plus e s m t n)
  from lazy_plus.IH(1) [of "t @ r"] lazy_plus.IH(2) [of r] show ?case
    using lazy_takes_star [of _ r e "t @ r" _ "s @ t @ r"] unfolding append_assoc by blast
next
  case (group e s m n)
  from group.IH [of r] show ?case unfolding in_runs(5) by blast
next
  case (star_end e)
  have "(Map.empty, r) \<in> set (runs (Star e) r)" by (rule in_runs(2) [THEN iffD2]) simp
  then show ?case by auto
qed auto

text \<open>Matching a whole string.\<close>

definition match_all :: "expr \<Rightarrow> string \<Rightarrow> smatch list" where
  "match_all e s = map fst (filter (\<lambda>(m, r). r = []) (runs e s))"

lemma match_all_sound: "m \<in> set (match_all e s) \<Longrightarrow> takes e s m"
  using runs_sound [of m "[]" e s] by (auto simp: match_all_def)

lemma match_all_complete: "takes e s m \<Longrightarrow> match_all e s \<noteq> []"
  using runs_complete [of e s m "[]"] by (auto simp: match_all_def filter_empty_conv)

text \<open>
  Searching: the first place where the expression matches, with the first run there; then from
  where that match ended. (A search that finds an empty match goes on in another way; the
  expressions searched for here match no empty text.)
\<close>

fun search :: "expr \<Rightarrow> string \<Rightarrow> (smatch \<times> string) option" where
  "search e [] = (case runs e [] of [] \<Rightarrow> None | x # _ \<Rightarrow> Some x)"
| "search e (c # s) = (case runs e (c # s) of [] \<Rightarrow> search e s | x # _ \<Rightarrow> Some x)"

function search_all :: "expr \<Rightarrow> string \<Rightarrow> smatch list" where
  "search_all e s = (case search e s of
       None \<Rightarrow> []
     | Some (m, r) \<Rightarrow> m # (if length r < length s then search_all e r else []))"
  by pat_completeness auto
termination
  by (relation "measure (\<lambda>(e, s). length s)") auto

declare search_all.simps [simp del]

definition search_law :: "regex_lib \<Rightarrow> expr \<Rightarrow> bool" where
  "search_law R e \<longleftrightarrow> re_compile R (show_expr e) = ok (show_expr e) \<and>
     (\<forall>s. re_search_all R (show_expr e) s = search_all e s)"

text \<open>A library for a given list of expressions.\<close>

definition perl_lib :: "expr list \<Rightarrow> regex_lib" where
  "perl_lib es = \<lparr>
     re_compile = ok,
     re_match = (\<lambda>rx s. ok (case find (\<lambda>e. show_expr e = rx) es of
        None \<Rightarrow> None
      | Some e \<Rightarrow> (case match_all e s of [] \<Rightarrow> None | m # _ \<Rightarrow> Some m))),
     re_search_all = (\<lambda>rx s. case find (\<lambda>e. show_expr e = rx) es of None \<Rightarrow> [] | Some e \<Rightarrow> search_all e s)\<rparr>"

lemma perl_lib_law:
  assumes "find (\<lambda>e'. show_expr e' = show_expr e) es = Some e"
  shows "perl_law (perl_lib es) e" and "search_law (perl_lib es) e"
proof -
  have "case re_match (perl_lib es) (show_expr e) s of
        Inr None \<Rightarrow> \<nexists>m. takes e s m
      | Inr (Some m) \<Rightarrow> takes e s m
      | Inl f \<Rightarrow> \<exists>msg. f = Throw (Runtime_error msg)" for s
    using assms match_all_complete [of e s] match_all_sound [of _ e s]
    by (cases "match_all e s") (auto simp: perl_lib_def)
  then show "perl_law (perl_lib es) e" by (simp add: perl_law_def perl_lib_def)
qed (use assms in \<open>simp add: search_law_def perl_lib_def\<close>)

end
