(* ===== verification/Pattern_Search.thy ===== *)
theory Pattern_Search
  imports Route_Parsing Path_Expressions "HOL-Library.Sublist"
begin

text \<open>
  What the search of \<open>parse_route_pattern\<close> (\<open>src/RouteParsing.cpp\<close>) finds in a route pattern:
  the expression it searches for as an expression tree, and the patterns in which the search
  meets exactly the placeholders one reads in them.
\<close>

section \<open>The expression of the search\<close>

definition some_text :: "string \<Rightarrow> expr" where
  "some_text n = Group n (Lazy_plus Any)"

text \<open>An optional \<open>:text\<close>, and the closing braces.\<close>

definition option_tail :: "string \<Rightarrow> expr" where
  "option_tail n = Seq (Opt (Seq (Chr (CHR '':'')) (some_text n))) (literal ''}}'')"

definition int_alt :: expr where
  "int_alt = Group ''int'' (literal ''{{i}}'')"

definition optional_int_alt :: expr where
  "optional_int_alt = Group ''optional_int'' (Seq (literal ''{{i?'') (option_tail ''optional_int_regex''))"

definition double_alt :: expr where
  "double_alt = Group ''double'' (literal ''{{d}}'')"

definition optional_double_alt :: expr where
  "optional_double_alt =
     Group ''optional_double'' (Seq (literal ''{{d?'') (option_tail ''optional_double_regex''))"

definition string_alt :: expr where
  "string_alt = Group ''string'' (Seq (literal ''{{s:'') (Seq (some_text ''string_regex'') (literal ''}}'')))"

definition optional_string_alt :: expr where
  "optional_string_alt = Group ''optional_string'' (Seq (literal ''{{s?:'')
     (Seq (some_text ''optional_string_regex'') (option_tail ''optional_string_consumed'')))"

definition parser_expr :: expr where
  "parser_expr = Alt int_alt (Alt optional_int_alt (Alt double_alt (Alt optional_double_alt
     (Alt string_alt optional_string_alt))))"

lemmas parser_defs = parser_expr_def int_alt_def optional_int_alt_def double_alt_def
  optional_double_alt_def string_alt_def optional_string_alt_def option_tail_def some_text_def

lemma show_parser_expr: "show_expr parser_expr = route_parser"
  by (simp add: parser_defs literal.simps parens_def special_chars_def route_parser_def raw_def)

section \<open>Runs of its parts\<close>

lemma after_empty [simp]: "after Map.empty xs = xs"
  by (induction xs) (auto simp: after_def)

lemma after_simps [simp]:
  "after m [] = []" "after m ((n, r) # xs) = (m ++ n, r) # after m xs"
  by (simp_all add: after_def)

lemma runs_literal:
  "runs (literal w) s = (if prefix w s then [(Map.empty, drop (length w) s)] else [])"
proof (induction w arbitrary: s rule: literal.induct)
  case (2 c)
  show ?case by (cases s) (simp_all add: literal.simps)
next
  case (3 c d w)
  then show ?case by (cases s) (auto simp: literal.simps Suc_le_eq)
qed (simp add: literal.simps)

lemma runs_literal_append [simp]: "runs (literal w) (w @ s) = [(Map.empty, s)]"
  by (simp add: runs_literal)

lemma runs_Seq_literal [simp]: "runs (Seq (literal w) b) (w @ s) = runs b s"
  by simp

lemma runs_lazy_any:
  "runs (Lazy_plus Any) s = map (\<lambda>k. (Map.empty, drop k s)) [1..<Suc (length s)]"
proof (induction s)
  case (Cons c s)
  have "[1..<Suc (length (c # s))] = 1 # map Suc [1..<Suc (length s)]"
    by (simp add: map_Suc_upt upt_conv_Cons del: upt_Suc)
  with Cons show ?case
    by (subst runs.simps(11)) (simp add: comp_def del: upt_Suc)
qed (simp add: runs.simps(11))

lemma runs_some_text:
  "runs (some_text n) s = map (\<lambda>k. ([n \<mapsto> take k s], drop k s)) [1..<Suc (length s)]"
  by (simp add: some_text_def runs_lazy_any del: upt_Suc)

text \<open>The lazy repetition stops at the first place from which the rest can go on.\<close>

lemma lazy_first:
  assumes "v \<noteq> []" and "\<And>k. 0 < k \<Longrightarrow> k < length v \<Longrightarrow> runs b (drop k v @ t) = []"
    and "runs b t = (y, r) # ys"
  shows "\<exists>zs. runs (Seq (some_text n) b) (v @ t) = ([n \<mapsto> v] ++ y, r) # zs"
proof -
  let ?f = "\<lambda>k. after [n \<mapsto> take k (v @ t)] (runs b (drop k (v @ t)))"
  have "[1..<Suc (length (v @ t))] = [1..<length v] @ length v # [Suc (length v)..<Suc (length (v @ t))]"
    using assms(1) upt_add_eq_append [of 1 "length v" "Suc (length t)"]
    by (cases v) (simp_all add: upt_conv_Cons del: upt_Suc)
  then have "runs (Seq (some_text n) b) (v @ t) =
      concat (map ?f [1..<length v]) @ ?f (length v) @ concat (map ?f [Suc (length v)..<Suc (length (v @ t))])"
    by (simp add: runs_some_text comp_def del: upt_Suc)
  moreover have "?f k = []" if "k \<in> set [1..<length v]" for k
    using assms(2) [of k] that by simp
  then have "concat (map ?f [1..<length v]) = []"
    by (simp only: concat_eq_Nil_conv) auto
  moreover have "?f (length v) = ([n \<mapsto> v] ++ y, r) # after [n \<mapsto> v] ys"
    using assms(3) by simp
  ultimately show ?thesis
    by (simp only: append_Nil append_Cons ex_simps simp_thms) blast
qed

section \<open>Patterns the search reads\<close>

text \<open>\<open>lacks w u t\<close>: no \<open>w\<close> starts in \<open>u\<close> where \<open>t\<close> follows it.\<close>

fun lacks :: "string \<Rightarrow> string \<Rightarrow> string \<Rightarrow> bool" where
  "lacks w [] t = True"
| "lacks w (c # u) t = (\<not> prefix w (c # u @ t) \<and> lacks w u t)"

text \<open>The text of a lazy group, up to the closing braces: they are not met before its end.\<close>

definition closed_text :: "string \<Rightarrow> bool" where
  "closed_text v \<longleftrightarrow> v \<noteq> [] \<and> lacks ''}}'' (tl v) ''}}''"

text \<open>
  The optional string placeholder holds its expression up to the first colon that is not its
  first character, or up to its end.
\<close>

fun ph_closed :: "placeholder \<Rightarrow> bool" where
  "ph_closed Ph_int = True"
| "ph_closed Ph_double = True"
| "ph_closed (Ph_optional_int c) = pred_option closed_text c"
| "ph_closed (Ph_optional_double c) = pred_option closed_text c"
| "ph_closed (Ph_string v) = closed_text v"
| "ph_closed (Ph_optional_string v None) = (closed_text v \<and> CHR '':'' \<notin> set (tl v))"
| "ph_closed (Ph_optional_string v (Some c)) =
     (v \<noteq> [] \<and> lacks ''}}'' (tl v) '':'' \<and> CHR '':'' \<notin> set (tl v) \<and> closed_text c)"

text \<open>
  A readable pattern: no \<open>{{\<close> before its last placeholder but those of its placeholders, each of
  which ends where it seems to end, and no placeholder in the last literal.
\<close>

definition readable :: "shape \<Rightarrow> string \<Rightarrow> bool" where
  "readable sh z \<longleftrightarrow> shape_clear sh \<and> list_all (ph_closed \<circ> snd) sh \<and> search parser_expr z = None"

lemma prefix_longer: "prefix w (u @ s) \<Longrightarrow> length w \<le> length u \<Longrightarrow> prefix w u"
  using prefix_length_prefix [of w "u @ s" u] by simp

lemma lacks_drop:
  assumes "lacks w u t" and "k < length u" and "length w \<le> Suc (length t)"
  shows "\<not> prefix w (drop k u @ t @ s)"
  using assms
proof (induction u arbitrary: k)
  case (Cons c u)
  then have "\<not> prefix w ((c # u @ t) @ s)"
    using prefix_longer [of w "c # u @ t" s] by auto
  with Cons show ?case by (cases k) simp_all
qed simp

lemma closed_text_drop:
  assumes "closed_text v" and "0 < k" and "k < length v"
  shows "\<not> prefix ''}}'' (drop k v @ ''}}'' @ s)"
proof -
  obtain i where k: "k = Suc i" using assms(2) by (cases k) simp_all
  obtain c u where v: "v = c # u" using assms(1) by (cases v) (simp_all add: closed_text_def)
  show ?thesis
    using lacks_drop [of "''}}''" u "''}}''" i s] assms(1,3) by (simp add: k v closed_text_def)
qed

lemma runs_closed_text:
  assumes "closed_text v"
  shows "\<exists>zs. runs (Seq (some_text n) (literal ''}}'')) (v @ ''}}'' @ s) = ([n \<mapsto> v], s) # zs"
proof -
  have "runs (literal ''}}'') (drop k v @ ''}}'' @ s) = []" if "0 < k" "k < length v" for k
    using closed_text_drop [OF assms that] by (simp add: runs_literal)
  moreover have "runs (literal ''}}'') (''}}'' @ s) = [(Map.empty, s)]"
    by (rule runs_literal_append)
  ultimately show ?thesis
    using lazy_first [of v "literal ''}}''" "''}}'' @ s" Map.empty s "[]" n] assms
    unfolding closed_text_def by simp
qed

lemma runs_option_tail:
  "runs (option_tail n) (''}}'' @ s) = [(Map.empty, s)]"
  "runs (option_tail n) (CHR '':'' # t) = runs (Seq (some_text n) (literal ''}}'')) t"
  "\<not> prefix ''}}'' u \<Longrightarrow> \<not> prefix '':'' u \<Longrightarrow> runs (option_tail n) u = []"
  by (cases u; auto simp: option_tail_def runs_literal)+

lemma runs_option_tail_text:
  assumes "pred_option closed_text c"
  shows "\<exists>zs. runs (option_tail n) (suffix_text c @ ''}}'' @ s) = (Map.empty(n := c), s) # zs"
proof (cases c)
  case None
  then show ?thesis using runs_option_tail(1) [of n s] by simp
next
  case (Some d)
  with assms have "closed_text d" by simp
  from runs_closed_text [OF this, of n s] Some show ?thesis
    by (simp add: runs_option_tail(2) del: runs.simps(7))
qed

text \<open>The expression of an optional string, up to a colon or the closing braces.\<close>

lemma runs_optional_string:
  assumes "ph_closed (Ph_optional_string v c)" and "n \<noteq> k"
  shows "\<exists>zs. runs (Seq (some_text n) (option_tail k)) (v @ suffix_text c @ ''}}'' @ s)
    = ([n \<mapsto> v](k := c), s) # zs"
proof -
  have v: "v \<noteq> []" and colon: "CHR '':'' \<notin> set (tl v)" and c: "pred_option closed_text c"
    using assms(1) by (cases c; simp add: closed_text_def)+
  have "runs (option_tail k) (drop i v @ suffix_text c @ ''}}'' @ s) = []" if "0 < i" "i < length v" for i
  proof (rule runs_option_tail(3))
    obtain a u where vs: "v = a # u" using v by (cases v) auto
    obtain j where i: "i = Suc j" using \<open>0 < i\<close> by (cases i) auto
    have "hd (drop j u) \<in> set u" "drop j u \<noteq> []"
      using \<open>i < length v\<close> by (auto simp: vs i hd_drop_conv_nth)
    with colon show "\<not> prefix '':'' (drop i v @ suffix_text c @ ''}}'' @ s)"
      by (cases "drop j u") (auto simp: vs i)
    show "\<not> prefix ''}}'' (drop i v @ suffix_text c @ ''}}'' @ s)"
    proof (cases c)
      case None
      with assms(1) closed_text_drop [of v i s] \<open>0 < i\<close> \<open>i < length v\<close> show ?thesis by simp
    next
      case (Some d)
      with assms(1) lacks_drop [of "''}}''" u "'':''" j "d @ ''}}'' @ s"] \<open>i < length v\<close> show ?thesis
        by (simp add: vs i)
    qed
  qed
  moreover obtain zs where "runs (option_tail k) (suffix_text c @ ''}}'' @ s) = (Map.empty(k := c), s) # zs"
    using runs_option_tail_text [OF c] by blast
  moreover have "[n \<mapsto> v] ++ Map.empty(k := c) = [n \<mapsto> v](k := c)"
    using assms(2) by (cases c) (auto simp: map_add_def)
  ultimately show ?thesis
    using lazy_first [OF v, of "option_tail k" "suffix_text c @ ''}}'' @ s"]
    by metis
qed

section \<open>The search meets the placeholders\<close>

lemma group_first:
  "runs e (u @ s) = (m, s) # zs \<Longrightarrow> \<exists>zs. runs (Group n e) (u @ s) = (m(n \<mapsto> u), s) # zs"
  by simp

lemma runs_start:
  "runs int_alt s \<noteq> [] \<Longrightarrow> prefix ''{{i}}'' s"
  "runs optional_int_alt s \<noteq> [] \<Longrightarrow> prefix ''{{i?'' s"
  "runs double_alt s \<noteq> [] \<Longrightarrow> prefix ''{{d}}'' s"
  "runs optional_double_alt s \<noteq> [] \<Longrightarrow> prefix ''{{d?'' s"
  "runs string_alt s \<noteq> [] \<Longrightarrow> prefix ''{{s:'' s"
  "runs optional_string_alt s \<noteq> [] \<Longrightarrow> prefix ''{{s?:'' s"
  by (simp_all add: int_alt_def optional_int_alt_def double_alt_def optional_double_alt_def
    string_alt_def optional_string_alt_def runs_literal split: if_splits)

lemma runs_parser_start:
  assumes "runs parser_expr s \<noteq> []"
  shows "prefix ''{{'' s"
proof -
  have "prefix ''{{'' s" if "prefix (''{{'' @ w) s" for w
    using that by (auto simp: prefix_def)
  then show ?thesis
    using assms runs_start [of s] by (auto simp: parser_expr_def)
qed

lemma runs_others:
  "\<not> prefix ''{{i}}'' s \<Longrightarrow> runs int_alt s = []"
  "\<not> prefix ''{{i?'' s \<Longrightarrow> runs optional_int_alt s = []"
  "\<not> prefix ''{{d}}'' s \<Longrightarrow> runs double_alt s = []"
  "\<not> prefix ''{{d?'' s \<Longrightarrow> runs optional_double_alt s = []"
  "\<not> prefix ''{{s:'' s \<Longrightarrow> runs string_alt s = []"
  using runs_start by blast+

lemma runs_placeholder:
  assumes "ph_closed ph"
  shows "\<exists>zs. runs parser_expr (ph_text ph @ s) = (ph_match ph, s) # zs"
proof (cases ph)
  case Ph_int
  then show ?thesis
    by (simp add: parser_expr_def int_alt_def runs_literal)
next
  case (Ph_optional_int c)
  with assms obtain zs where "runs (option_tail ''optional_int_regex'') (suffix_text c @ ''}}'' @ s) =
      (Map.empty(''optional_int_regex'' := c), s) # zs"
    using runs_option_tail_text by force
  then have "runs (Seq (literal ''{{i?'') (option_tail ''optional_int_regex'')) (ph_text ph @ s) = (Map.empty(''optional_int_regex'' := c), s) # zs"
    by (simp add: Ph_optional_int runs_literal)
  from group_first [OF this, of "''optional_int''"] Ph_optional_int show ?thesis
    by (auto simp: parser_expr_def runs_others optional_int_alt_def fun_upd_twist simp del: runs.simps(13))
next
  case Ph_double
  then show ?thesis
    by (simp add: parser_expr_def runs_others double_alt_def runs_literal)
next
  case (Ph_optional_double c)
  with assms obtain zs where "runs (option_tail ''optional_double_regex'') (suffix_text c @ ''}}'' @ s) =
      (Map.empty(''optional_double_regex'' := c), s) # zs"
    using runs_option_tail_text by force
  then have "runs (Seq (literal ''{{d?'') (option_tail ''optional_double_regex'')) (ph_text ph @ s) = (Map.empty(''optional_double_regex'' := c), s) # zs"
    by (simp add: Ph_optional_double runs_literal)
  from group_first [OF this, of "''optional_double''"] Ph_optional_double show ?thesis
    by (auto simp: parser_expr_def runs_others optional_double_alt_def fun_upd_twist simp del: runs.simps(13))
next
  case (Ph_string v)
  with assms obtain zs where "runs (Seq (some_text ''string_regex'') (literal ''}}'')) (v @ ''}}'' @ s) =
      ([''string_regex'' \<mapsto> v], s) # zs"
    using runs_closed_text by force
  then have "runs (Seq (literal ''{{s:'') (Seq (some_text ''string_regex'') (literal ''}}''))) (ph_text ph @ s) = ([''string_regex'' \<mapsto> v], s) # zs"
    by (simp add: Ph_string runs_literal)
  from group_first [OF this, of "''string''"] Ph_string show ?thesis
    by (auto simp: parser_expr_def runs_others string_alt_def fun_upd_twist simp del: runs.simps(13))
next
  case (Ph_optional_string v c)
  with assms obtain zs where "runs (Seq (some_text ''optional_string_regex'') (option_tail ''optional_string_consumed'')) (v @ suffix_text c @ ''}}'' @ s) =
      ([''optional_string_regex'' \<mapsto> v](''optional_string_consumed'' := c), s) # zs"
    using runs_optional_string [of v c "''optional_string_regex''" "''optional_string_consumed''"] by force
  then have "runs (Seq (literal ''{{s?:'') (Seq (some_text ''optional_string_regex'') (option_tail ''optional_string_consumed''))) (ph_text ph @ s) = ([''optional_string_regex'' \<mapsto> v](''optional_string_consumed'' := c), s) # zs"
    by (simp add: Ph_optional_string runs_literal)
  from group_first [OF this, of "''optional_string''"] Ph_optional_string show ?thesis
    by (auto simp: parser_expr_def runs_others optional_string_alt_def fun_upd_twist simp del: runs.simps(13))
qed

lemma search_at:
  "runs e s = x # zs \<Longrightarrow> search e s = Some x"
  "runs e (c # s) = [] \<Longrightarrow> search e (c # s) = search e s"
  by (cases s) simp_all

lemma search_skips: "clear l \<Longrightarrow> opens p \<Longrightarrow> search parser_expr (l @ p) = search parser_expr p"
proof (induction l)
  case (Cons c l)
  obtain q where p: "p = CHR ''{'' # CHR ''{'' # q" using opens_cases [OF Cons.prems(2)] .
  with Cons.prems(1) have "\<not> prefix ''{{'' (c # l @ p)"
    by (cases l) auto
  then have "runs parser_expr (c # l @ p) = []" using runs_parser_start by blast
  with Cons clear_tail [OF Cons.prems(1)] show ?case by (simp add: search_at(2))
qed simp

lemma search_ends: "lacks ''{{'' z [] \<Longrightarrow> search parser_expr z = None"
proof (induction z)
  case (Cons c z)
  then have "runs parser_expr (c # z) = []" using runs_parser_start [of "c # z"] by auto
  with Cons show ?case by (simp add: search_at(2))
next
  case Nil
  have "runs parser_expr [] = []" using runs_parser_start [of "[]"] by auto
  then show ?case by simp
qed

theorem search_readable:
  assumes "readable sh z"
  shows "search_all parser_expr (shape_text sh z) = map (ph_match \<circ> snd) sh"
  using assms
proof (induction sh)
  case Nil
  then show ?case
    by (subst search_all.simps) (simp add: readable_def shape_text_def)
next
  case (Cons a sh)
  obtain l ph where a: "a = (l, ph)" by (cases a)
  let ?rest = "shape_text sh z"
  from Cons.prems have ph: "clear l" "ph_closed ph" and rest: "readable sh z"
    by (auto simp: readable_def shape_clear_def a)
  have "opens (ph_text ph @ ?rest)"
    using ph_text_opens [of ph] by (cases rule: opens_cases) (auto simp: opens_def)
  then have "search parser_expr (l @ ph_text ph @ ?rest) = Some (ph_match ph, ?rest)"
    using search_skips [OF ph(1)] runs_placeholder [OF ph(2)] search_at(1) by metis
  moreover have "shape_text (a # sh) z = l @ ph_text ph @ ?rest"
    by (simp add: shape_text_def a)
  moreover have "ph_text ph \<noteq> []"
    using ph_text_opens [of ph] by (auto simp: opens_def)
  ultimately show ?case
    using Cons.IH [OF rest] by (subst search_all.simps) (simp add: a)
qed

lemma readable_finds: "search_law R parser_expr \<Longrightarrow> readable sh z \<Longrightarrow> finds R sh z"
  by (simp add: finds_def search_law_def show_parser_expr search_readable)

lemma parse_readable:
  assumes "sformat_law F" and "search_law R parser_expr" and "readable sh z"
    and "\<forall>(l, ph) \<in> set sh. value_compiles R ph"
  shows "parse_route_pattern F R (shape_text sh z) =
    bind (re_compile R (shape_regex sh z)) (\<lambda>rx. ok (rx, map (ph_type \<circ> snd) sh))"
  using readable_finds [OF assms(2,3)] shape_clear_separated [of sh "[]" 0] assms
  by (intro parse_route_pattern_shape) (simp_all add: readable_def)

lemma readableI:
  "shape_clear sh \<Longrightarrow> list_all (ph_closed \<circ> snd) sh \<Longrightarrow> lacks ''{{'' z [] \<Longrightarrow> readable sh z"
  by (simp add: readable_def search_ends)

lemma readable_clear: "readable sh z \<Longrightarrow> separated [] (numbered 0 sh)"
  by (simp add: readable_def shape_clear_separated)

section \<open>Properties\<close>

text \<open>
  C9. A route pattern built from literals and placeholders is translated placeholder by
  placeholder: each is replaced by its expression with the group named after its position, the
  literals stay as they are, and the parameter types come out in the order of the placeholders.
  It is refused only where the whole expression does not compile. That the search finds the
  placeholders is a consequence of how a perl expression is searched for; what is asked of the
  pattern is that no expression in it contains the text that ends its placeholder.
\<close>

theorem pattern_translated:
  assumes "sformat_law F" and "search_law R parser_expr" and "readable sh z"
    and "\<forall>(l, ph) \<in> set sh. value_compiles R ph"
  shows "parse_route_pattern F R (shape_text sh z) =
    bind (re_compile R (shape_regex sh z)) (\<lambda>rx. ok (rx, map (ph_type \<circ> snd) sh))"
  by (rule parse_readable [OF assms])

text \<open>The library that searches with the parser expression, and the longest pattern of the unit tests.\<close>

lemma perl_lib_searches: "search_law (perl_lib (parser_expr # es)) parser_expr"
  by (rule perl_lib_law) simp

lemma perl_lib_compiles: "re_compile (perl_lib es) s = ok s"
  by (simp add: perl_lib_def)

lemma perl_lib_values: "value_compiles (perl_lib es) ph"
  by (simp add: value_compiles_def perl_lib_compiles split: option.split)

definition ref_shape :: shape where
  "ref_shape = (let word = raw ''~w+''; slash = Some ''/'' in
     [(''/'', Ph_int), (''/'', Ph_optional_int slash), ([], Ph_double), (''/'', Ph_optional_double slash),
      ([], Ph_string word), (''/'', Ph_optional_string word slash), ([], Ph_optional_int slash),
      ([], Ph_optional_double slash), ([], Ph_optional_string word slash), ([], Ph_int),
      (''/'', Ph_double), (''/'', Ph_string word)])"

lemma ref_shape_readable: "readable ref_shape []"
  by (rule readableI) (simp_all add: ref_shape_def shape_clear_def closed_text_def value_or_def raw_def Let_def)

lemma pattern_translated_witness:
  "parse_route_pattern ref_folly (perl_lib [parser_expr]) (shape_text ref_shape []) =
    bind (re_compile (perl_lib [parser_expr]) (shape_regex ref_shape []))
      (\<lambda>rx. ok (rx, map (ph_type \<circ> snd) ref_shape)) \<and>
   shape_text ref_shape [] = raw (''/{{i}}/{{i?:/}}{{d}}/{{d?:/}}{{s:~w+}}/{{s?:~w+:/}}{{i?:/}}'' @
     ''{{d?:/}}{{s?:~w+:/}}{{i}}/{{d}}/{{s:~w+}}'')"
proof (intro conjI)
  show "parse_route_pattern ref_folly (perl_lib [parser_expr]) (shape_text ref_shape []) =
    bind (re_compile (perl_lib [parser_expr]) (shape_regex ref_shape []))
      (\<lambda>rx. ok (rx, map (ph_type \<circ> snd) ref_shape))"
    using ref_folly_laws(2) perl_lib_searches ref_shape_readable
    by (rule pattern_translated) (simp add: perl_lib_values)
qed (simp add: shape_text_def ref_shape_def raw_def Let_def)

lemma parse_refused:
  assumes "sformat_law F" and "search_law R parser_expr" and "readable (sh @ (l, ph) # sh') z"
    and "\<forall>(l, ph) \<in> set sh. value_compiles R ph" and "ph_value ph = Some v" and "re_compile R v = throw e"
  shows "parse_route_pattern F R (shape_text (sh @ (l, ph) # sh') z) = throw e"
proof -
  have "fold_outcome (collect_match F R) ([], []) (map (ph_match \<circ> snd) (sh @ (l, ph) # sh')) = throw e"
    using collect_matches [OF assms(1,4), of "[]" "[]"] collect_match_refused [OF assms(5,6)]
    by (simp add: fold_outcome_append)
  then show ?thesis
    using readable_finds [OF assms(2,3)] by (simp add: parse_route_pattern_def finds_def)
qed

text \<open>
  C37. A pattern is refused when the expression of one of its string placeholders is not a valid
  one, with the error of the first such expression, whatever stands behind it in the pattern.
\<close>

theorem pattern_refused:
  assumes "sformat_law F" and "search_law R parser_expr" and "readable (sh @ (l, ph) # sh') z"
    and "\<forall>(l, ph) \<in> set sh. value_compiles R ph" and "ph_value ph = Some v" and "re_compile R v = throw e"
  shows "parse_route_pattern F R (shape_text (sh @ (l, ph) # sh') z) = throw e"
  by (rule parse_refused [OF assms])

text \<open>A library that refuses one expression.\<close>

definition refusing :: "string \<Rightarrow> regex_lib \<Rightarrow> regex_lib" where
  "refusing v R = R\<lparr>re_compile := (\<lambda>s. if s = v then throw (Runtime_error ''regex_error'') else re_compile R s)\<rparr>"

lemma refusing_searches: "search_law R e \<Longrightarrow> v \<noteq> show_expr e \<Longrightarrow> search_law (refusing v R) e"
  by (simp add: search_law_def refusing_def)

lemma pattern_refused_witness:
  "parse_route_pattern ref_folly (refusing ''.+)'' (perl_lib [parser_expr]))
      (shape_text ([] @ (''/'', Ph_string ''.+)'') # [(''/'', Ph_int)]) []) = throw (Runtime_error ''regex_error'') \<and>
   shape_text ([] @ (''/'', Ph_string ''.+)'') # [(''/'', Ph_int)]) [] = ''/{{s:.+)}}/{{i}}''"
proof
  have "readable ([] @ (''/'', Ph_string ''.+)'') # [(''/'', Ph_int)]) []"
    by (rule readableI) (simp_all add: shape_clear_def closed_text_def)
  moreover have "search_law (refusing ''.+)'' (perl_lib [parser_expr])) parser_expr"
    by (rule refusing_searches [OF perl_lib_searches]) (simp add: show_parser_expr route_parser_def raw_def)
  ultimately show "parse_route_pattern ref_folly (refusing ''.+)'' (perl_lib [parser_expr]))
      (shape_text ([] @ (''/'', Ph_string ''.+)'') # [(''/'', Ph_int)]) []) = throw (Runtime_error ''regex_error'')"
    using ref_folly_laws(2)
    by (intro pattern_refused [where v = "''.+)''"]) (simp_all add: refusing_def)
qed (simp add: shape_text_def)

text \<open>
  C38. Two valid expressions the translation does not take as they are written. One that ends in
  a closing brace, as a repetition count does, loses it to the placeholder's braces: it is read
  without its last brace, which stays behind the group as a literal. One of an optional string
  that has a colon inside, as any \<open>(?:...)\<close> has, is cut there: what is compiled is the part
  before the colon, so the route is refused when that part is not an expression by itself.
\<close>

theorem expressions_cut:
  assumes "sformat_law F" and "search_law R parser_expr"
    and "readable [(l, Ph_string v)] ''}''" and "value_compiles R (Ph_string v)"
    and "readable [(l', Ph_optional_string u (Some w))] z" and "re_compile R u = throw e"
  shows "parse_route_pattern F R (l @ ''{{s:'' @ (v @ ''}'') @ ''}}'') =
      bind (re_compile R (l @ ''(?<__0>'' @ v @ '')}'')) (\<lambda>rx. ok (rx, [String])) \<and>
    parse_route_pattern F R (l' @ ''{{s?:'' @ (u @ '':'' @ w) @ ''}}'' @ z) = throw e"
proof
  have "l @ ''{{s:'' @ (v @ ''}'') @ ''}}'' = shape_text [(l, Ph_string v)] ''}''"
    by (simp add: shape_text_def)
  with parse_readable [OF assms(1-3)] assms(4)
  show "parse_route_pattern F R (l @ ''{{s:'' @ (v @ ''}'') @ ''}}'') =
      bind (re_compile R (l @ ''(?<__0>'' @ v @ '')}'')) (\<lambda>rx. ok (rx, [String]))"
    by (simp add: shape_regex_def expanded_def dec.simps char_of_def bit_0)
  have "l' @ ''{{s?:'' @ (u @ '':'' @ w) @ ''}}'' @ z =
      shape_text ([] @ (l', Ph_optional_string u (Some w)) # []) z"
    by (simp add: shape_text_def)
  with parse_refused [OF assms(1,2), of "[]" l' "Ph_optional_string u (Some w)" "[]" z u e] assms(5,6)
  show "parse_route_pattern F R (l' @ ''{{s?:'' @ (u @ '':'' @ w) @ ''}}'' @ z) = throw e"
    by simp
qed

lemma expressions_cut_witness:
  "parse_route_pattern ref_folly (refusing ''(?'' (perl_lib [parser_expr]))
      (''/'' @ ''{{s:'' @ (''[a-z]{2'' @ ''}'') @ ''}}'') =
     bind (re_compile (refusing ''(?'' (perl_lib [parser_expr])) (''/'' @ ''(?<__0>'' @ ''[a-z]{2'' @ '')}''))
       (\<lambda>rx. ok (rx, [String])) \<and>
   parse_route_pattern ref_folly (refusing ''(?'' (perl_lib [parser_expr]))
      (''/'' @ ''{{s?:'' @ (''(?'' @ '':'' @ ''a|b)'') @ ''}}'' @ []) = throw (Runtime_error ''regex_error'')"
proof (rule expressions_cut [OF ref_folly_laws(2)])
  show "search_law (refusing ''(?'' (perl_lib [parser_expr])) parser_expr"
    by (rule refusing_searches [OF perl_lib_searches]) (simp add: show_parser_expr route_parser_def raw_def)
  show "readable [(''/'', Ph_string ''[a-z]{2'')] ''}''"
    and "readable [(''/'', Ph_optional_string ''(?'' (Some ''a|b)''))] []"
    by (rule readableI; simp add: shape_clear_def closed_text_def value_or_def)+
qed (simp_all add: refusing_def value_compiles_def perl_lib_def)

end
