(* ===== verification/Regex_Route.thy ===== *)
theory Regex_Route
  imports Static_Route Pattern_Search
begin

text \<open>
  \<open>src/Route.h\<close>, \<open>src/Route-inl.h\<close> and the part of \<open>src/Util.h\<close> they rest on: a route whose
  pattern is a regular expression with typed parameters. The constructor compares the
  parameters of the pattern with those of the handler; a match extracts the arguments and
  passes them on.
\<close>

section \<open>The handler's argument types\<close>

text \<open>
  \<open>make_type_sequence\<close> skips the first parameter of a call operator: the request of a
  handler, \<open>this\<close> of \<open>setRequestArgs\<close>.
\<close>

datatype parameter = P_this | P_request | P_arg handler_type

definition make_type_sequence :: "parameter list \<Rightarrow> parameter list" where
  "make_type_sequence params = tl params"

text \<open>
  \<open>make_route\<close> on a handler drops its \<open>this\<close> and then its request parameter,
  \<open>make_streaming_route\<close> the \<open>this\<close> of \<open>setRequestArgs\<close>. Other parameter types have no
  \<open>to_RouteParamType\<close> and do not compile.
\<close>

fun arg_types :: "parameter list \<Rightarrow> handler_type list option" where
  "arg_types [] = Some []"
| "arg_types (P_arg t # ps) = map_option (Cons t) (arg_types ps)"
| "arg_types _ = None"

definition handler_args_of :: "parameter list \<Rightarrow> handler_type list option" where
  "handler_args_of call_operator = (case make_type_sequence call_operator of
       P_request # HandlerArgs \<Rightarrow> arg_types HandlerArgs
     | _ \<Rightarrow> None)"

definition streaming_args_of :: "parameter list \<Rightarrow> handler_type list option" where
  "streaming_args_of setRequestArgs = arg_types (make_type_sequence setRequestArgs)"

section \<open>State and constructor\<close>

datatype 'h route_callable =
    Route_plain "(http_request \<Rightarrow> handler_arg list \<Rightarrow> response_future) option"
  | Route_streaming "'h option outcome" "'h \<Rightarrow> handler_arg list \<Rightarrow> 'h outcome"

record 'h regex_route =
  rr_originalPattern :: string
  rr_methods :: "HTTPMethod set"
  rr_handler :: "'h route_callable"
  rr_args :: "handler_type list"
  rr_regex :: regex

definition count_error :: "folly_lib \<Rightarrow> string \<Rightarrow> RouteParamType list \<Rightarrow> RouteParamType list \<Rightarrow> string" where
  "count_error F pattern patternParams functionParams =
     fl_sformat F (''Pattern parameter count != function parameter count ({} vs {})'' @ newline)
       [FNat (length patternParams), FNat (length functionParams)] @
     fl_sformat F (''Pattern: {}'' @ newline) [FStr pattern] @
     fl_sformat F (''Pattern parameters:'' @ newline) [] @
     concat (map (\<lambda>param. fl_sformat F (''{}'' @ newline) [FStr (param_to_string param)]) patternParams) @
     fl_sformat F (''Function parameters:'' @ newline) [] @
     concat (map (\<lambda>param. fl_sformat F (''{}'' @ newline) [FStr (param_to_string param)]) functionParams)"

text \<open>The loop that compares the parameters from index \<open>i\<close> on.\<close>

definition mismatch_error ::
  "folly_lib \<Rightarrow> string \<Rightarrow> nat \<Rightarrow> RouteParamType \<Rightarrow> RouteParamType \<Rightarrow> string" where
  "mismatch_error F pattern i p f = fl_sformat F
     (''Pattern: {}'' @ newline @
      ''Pattern parameter {} ({}) does not match function parameter {} ({})'')
     [FStr pattern, FNat i, FStr (param_to_string p), FNat i, FStr (param_to_string f)]"

fun compare_params ::
  "folly_lib \<Rightarrow> string \<Rightarrow> nat \<Rightarrow> RouteParamType list \<Rightarrow> RouteParamType list \<Rightarrow> unit outcome" where
  "compare_params F pattern i (p # ps) (f # fs) =
     (if p \<noteq> f then throw (Runtime_error (mismatch_error F pattern i p f))
      else compare_params F pattern (Suc i) ps fs)"
| "compare_params F pattern i _ _ = ok ()"

definition new_Route ::
  "folly_lib \<Rightarrow> regex_lib \<Rightarrow> string \<Rightarrow> HTTPMethod set \<Rightarrow> handler_type list \<Rightarrow> 'h route_callable
     \<Rightarrow> 'h regex_route outcome" where
  "new_Route F R pattern methods HandlerArgs handler =
     bind (parse_route_pattern F R pattern) (\<lambda>(regex, patternParams).
       let functionParams = parse_function_parameters HandlerArgs in
       if length patternParams \<noteq> length functionParams
       then throw (Runtime_error (count_error F pattern patternParams functionParams))
       else bind (compare_params F pattern 0 patternParams functionParams) (\<lambda>_.
         ok \<lparr>rr_originalPattern = pattern, rr_methods = methods, rr_handler = handler,
             rr_args = HandlerArgs, rr_regex = regex\<rparr>))"

text \<open>
  The helper functions: from a function pointer, whose arguments are given, or from a callable,
  whose arguments are deduced (\<open>None\<close> does not compile).
\<close>

definition make_route_pointer ::
  "folly_lib \<Rightarrow> regex_lib \<Rightarrow> string \<Rightarrow> HTTPMethod set \<Rightarrow> handler_type list
     \<Rightarrow> (http_request \<Rightarrow> handler_arg list \<Rightarrow> response_future) option \<Rightarrow> 'h regex_route outcome" where
  "make_route_pointer F R pattern methods HandlerArgs handler =
     new_Route F R pattern methods HandlerArgs (Route_plain handler)"

definition make_route ::
  "folly_lib \<Rightarrow> regex_lib \<Rightarrow> string \<Rightarrow> HTTPMethod set \<Rightarrow> parameter list
     \<Rightarrow> (http_request \<Rightarrow> handler_arg list \<Rightarrow> response_future) option \<Rightarrow> 'h regex_route outcome option" where
  "make_route F R pattern methods call_operator handler =
     map_option (\<lambda>HandlerArgs. new_Route F R pattern methods HandlerArgs (Route_plain handler))
       (handler_args_of call_operator)"

definition make_streaming_route ::
  "folly_lib \<Rightarrow> regex_lib \<Rightarrow> string \<Rightarrow> HTTPMethod set \<Rightarrow> parameter list \<Rightarrow> 'h option outcome
     \<Rightarrow> ('h \<Rightarrow> handler_arg list \<Rightarrow> 'h outcome) \<Rightarrow> 'h regex_route outcome option" where
  "make_streaming_route F R pattern methods setRequestArgs_type factory setRequestArgs =
     map_option (\<lambda>HandlerArgs. new_Route F R pattern methods HandlerArgs (Route_streaming factory setRequestArgs))
       (streaming_args_of setRequestArgs_type)"

text \<open>From a pointer to a factory function: the callable version with that pointer as the callable.\<close>

definition make_streaming_route_pointer ::
  "folly_lib \<Rightarrow> regex_lib \<Rightarrow> string \<Rightarrow> HTTPMethod set \<Rightarrow> parameter list \<Rightarrow> 'h option outcome
     \<Rightarrow> ('h \<Rightarrow> handler_arg list \<Rightarrow> 'h outcome) \<Rightarrow> 'h regex_route outcome option" where
  "make_streaming_route_pointer F R pattern methods setRequestArgs_type handler setRequestArgs =
     make_streaming_route F R pattern methods setRequestArgs_type handler setRequestArgs"

section \<open>Matching\<close>

fun eval_args :: "folly_lib \<Rightarrow> nat \<Rightarrow> handler_type list \<Rightarrow> smatch \<Rightarrow> handler_arg list outcome" where
  "eval_args F N [] matches = ok []"
| "eval_args F N (T # Ts) matches =
     bind (get_handler_args F N T matches) (\<lambda>a.
     bind (eval_args F (Suc N) Ts matches) (\<lambda>as. ok (a # as)))"

definition call_handler ::
  "folly_lib \<Rightarrow> handler_type list \<Rightarrow> (http_request \<Rightarrow> handler_arg list \<Rightarrow> response_future) option
     \<Rightarrow> http_request \<Rightarrow> smatch \<Rightarrow> response_future" where
  "call_handler F Ts f request matches = (case eval_args F 0 Ts matches of
       Inl e \<Rightarrow> Completed 0 (Inl e)
     | Inr args \<Rightarrow> (case f of
           None \<Rightarrow> Completed 0 (throw (Other_std ''bad_function_call''))
         | Some g \<Rightarrow> g request args))"

definition call_streaming_handler ::
  "folly_lib \<Rightarrow> handler_type list \<Rightarrow> ('h \<Rightarrow> handler_arg list \<Rightarrow> 'h outcome) \<Rightarrow> 'h \<Rightarrow> smatch \<Rightarrow> 'h outcome" where
  "call_streaming_handler F Ts setRequestArgs handler matches =
     bind (eval_args F 0 Ts matches) (setRequestArgs handler)"

fun regex_match_maker ::
  "folly_lib \<Rightarrow> handler_type list \<Rightarrow> smatch \<Rightarrow> 'h route_callable \<Rightarrow> 'h route_match outcome" where
  "regex_match_maker F Ts matches (Route_plain f) =
     RouteMatch_handler RouteMatched (Some (\<lambda>request. call_handler F Ts f request matches))"
| "regex_match_maker F Ts matches (Route_streaming factory setRequestArgs) =
     RouteMatch_streaming RouteMatched (Some (\<lambda>_.
       guarded_call factory (\<lambda>ret. call_streaming_handler F Ts setRequestArgs ret matches)))"

definition regex_handler ::
  "folly_lib \<Rightarrow> regex_lib \<Rightarrow> 'h regex_route \<Rightarrow> http_message option \<Rightarrow> 'h route_match outcome" where
  "regex_handler F R route request =
     bind (check (request \<noteq> None) ''Request must not be null'') (\<lambda>_.
     bind (getMethodAndPath F request) (\<lambda>(method, path).
     bind (re_match R (rr_regex route) path) (\<lambda>m. case m of
         None \<Rightarrow> RouteMatch_handler PathNotMatched None
       | Some matches \<Rightarrow>
           if method \<notin> rr_methods route then RouteMatch_handler MethodNotMatched None
           else regex_match_maker F (rr_args route) matches (rr_handler route))))"

section \<open>The route interface\<close>

definition regex_matches :: "folly_lib \<Rightarrow> regex_lib \<Rightarrow> 'h regex_route \<Rightarrow> http_message \<Rightarrow> smatch option" where
  "regex_matches F R r m =
     (case re_match R (rr_regex r) (effective_path F m) of Inr x \<Rightarrow> x | Inl _ \<Rightarrow> None)"

text \<open>Matching the path stays within the regex library's complexity bound.\<close>

definition match_bounded :: "folly_lib \<Rightarrow> regex_lib \<Rightarrow> 'h regex_route \<Rightarrow> http_message \<Rightarrow> bool" where
  "match_bounded F R r m \<longleftrightarrow>
     (case re_match R (rr_regex r) (effective_path F m) of Inr _ \<Rightarrow> True | Inl _ \<Rightarrow> False)"

lemma regex_match_maker_total: "\<exists>x. regex_match_maker F Ts s h = ok x"
  by (cases h) simp_all

lemma regex_match_maker_matched:
  "regex_match_maker F Ts s h = ok x \<Longrightarrow> rm_result x = RouteMatched \<and> one_callable x"
  by (cases h) (auto simp: one_callable_def)

lemma regex_handler_eq:
  "regex_handler F R r (Some m) = (case getMethodAndPath F (Some m) of
     Inl e \<Rightarrow> Inl e
   | Inr _ \<Rightarrow> (case re_match R (rr_regex r) (effective_path F m) of
       Inl e \<Rightarrow> Inl e
     | Inr None \<Rightarrow> ok (no_match PathNotMatched)
     | Inr (Some s) \<Rightarrow> if effective_method m \<notin> rr_methods r then ok (no_match MethodNotMatched)
                     else regex_match_maker F (rr_args r) s (rr_handler r)))"
  by (cases rule: addressable_cases [of F m])
     (auto simp: regex_handler_def bind_def split: sum.splits option.splits)

interpretation regex: base_route "regex_handler F R"
  "\<lambda>r m. addressable F m \<and> match_bounded F R r m"
  "\<lambda>r m. regex_matches F R r m \<noteq> None" "\<lambda>r m. effective_method m \<in> rr_methods r"
  for F R
proof unfold_locales
  fix r :: "'h regex_route" and m and x :: "'h route_match"
  show "\<exists>x. regex_handler F R r (Some m) = ok x" if "addressable F m \<and> match_bounded F R r m"
    using that regex_match_maker_total
    by (cases rule: addressable_cases [of F m])
       (auto simp: regex_handler_eq match_bounded_def split: sum.splits option.splits)
  show "rm_result x = RouteMatched \<and> one_callable x"
    if "regex_handler F R r (Some m) = ok x" "regex_matches F R r m \<noteq> None"
      "effective_method m \<in> rr_methods r"
    using that
    by (auto simp: regex_handler_eq regex_matches_def dest: regex_match_maker_matched
        split: sum.splits option.splits)
qed (auto simp: regex_handler_eq regex_matches_def split: sum.splits option.splits)

section \<open>Facts about construction and arguments\<close>

lemma compare_params_ok:
  "length ps = length fs \<Longrightarrow>
   compare_params F pattern i ps fs = ok () \<longleftrightarrow> ps = fs"
  by (induction F pattern i ps fs rule: compare_params.induct) auto

lemma compare_params_first:
  assumes "length ps = length fs" and "k < length ps" and "ps ! k \<noteq> fs ! k"
    and "\<And>j. j < k \<Longrightarrow> ps ! j = fs ! j"
  shows "compare_params F pattern i ps fs
    = throw (Runtime_error (mismatch_error F pattern (i + k) (ps ! k) (fs ! k)))"
  using assms
proof (induction ps fs arbitrary: i k rule: list_induct2)
  case (Cons p ps f fs)
  show ?case
  proof (cases k)
    case 0
    with Cons.prems show ?thesis by simp
  next
    case (Suc k')
    with Cons.prems(3) [of 0] have "p = f" by simp
    moreover have "ps ! j = fs ! j" if "j < k'" for j
      using Cons.prems(3) [of "Suc j"] that Suc by simp
    ultimately show ?thesis
      using Cons.IH [of k' "Suc i"] Cons.prems Suc by simp
  qed
qed simp

text \<open>Two handler types with the same route parameter type are the same.\<close>

lemma to_RouteParamType_inj: "inj to_RouteParamType"
proof (rule injI)
  fix a b assume "to_RouteParamType a = to_RouteParamType b"
  then show "a = b" by (cases a; cases b) simp_all
qed

lemma eval_args_length: "eval_args F N Ts m = ok as \<Longrightarrow> length as = length Ts"
  by (induction Ts arbitrary: N as) (auto simp: bind_eq_Inr)

fun arg_type :: "handler_arg \<Rightarrow> handler_type" where
  "arg_type (A_int64 _) = T_int64"
| "arg_type (A_optional_int64 _) = T_optional_int64"
| "arg_type (A_double _) = T_double"
| "arg_type (A_optional_double _) = T_optional_double"
| "arg_type (A_string _) = T_string"
| "arg_type (A_optional_string _) = T_optional_string"

lemma get_handler_args_type: "get_handler_args F N T m = ok a \<Longrightarrow> arg_type a = T"
  by (cases T) (auto simp: bind_eq_Inr)

lemma eval_args_types: "eval_args F N Ts m = ok as \<Longrightarrow> map arg_type as = Ts"
  by (induction Ts arbitrary: N as) (auto simp: bind_eq_Inr dest: get_handler_args_type)

text \<open>
  What a handler is to get for a parameter, given what its group has captured (\<open>None\<close>: the group
  took no part in the match): the text or nothing, the number or the largest \<open>int64_t\<close> where the
  library refuses to convert, a \<open>double\<close> or the library's exception.
\<close>

definition int64_or_max :: "folly_lib \<Rightarrow> string \<Rightarrow> int64" where
  "int64_or_max F s = (case fl_to_int64 F s of Inr v \<Rightarrow> v | Inl _ \<Rightarrow> int64_max)"

fun captured_arg :: "folly_lib \<Rightarrow> handler_type \<Rightarrow> string option \<Rightarrow> handler_arg outcome" where
  "captured_arg F T_string text = ok (A_string (case text of None \<Rightarrow> [] | Some s \<Rightarrow> s))"
| "captured_arg F T_int64 text = ok (A_int64 (int64_or_max F (case text of None \<Rightarrow> [] | Some s \<Rightarrow> s)))"
| "captured_arg F T_double text =
     bind (fl_to_double F (case text of None \<Rightarrow> [] | Some s \<Rightarrow> s)) (\<lambda>v. ok (A_double v))"
| "captured_arg F T_optional_string text = ok (A_optional_string text)"
| "captured_arg F T_optional_int64 text = ok (A_optional_int64 (map_option (int64_or_max F) text))"
| "captured_arg F T_optional_double None = ok (A_optional_double None)"
| "captured_arg F T_optional_double (Some s) = bind (fl_to_double F s) (\<lambda>v. ok (A_optional_double (Some v)))"

text \<open>\<open>folly::to\<close> reports what it cannot convert by standard exceptions.\<close>

definition conversion_law :: "folly_lib \<Rightarrow> bool" where
  "conversion_law F \<longleftrightarrow> (\<forall>s. std_faults (fl_to_int64 F s))"

lemma int64_caught:
  assumes "conversion_law F"
  shows "catch_std (bind (fl_to_int64 F s) (\<lambda>v. ok (g v))) (\<lambda>e. ok (g int64_max)) = ok (g (int64_or_max F s))"
  using assms unfolding conversion_law_def int64_or_max_def
  by (auto elim!: throws_only_cases dest: spec [of _ s])

lemma get_handler_args_captured:
  assumes "sformat_law F" and "conversion_law F"
  shows "get_handler_args F N T m = captured_arg F T (m (''__'' @ dec N))"
proof (cases T)
  case T_int64
  then show ?thesis
    using int64_caught [OF assms(2), of _ "\<lambda>v. v"]
    by (simp add: get_int64_def group_name_eq [OF assms(1)] group_str_def)
next
  case T_optional_int64
  then show ?thesis
    using int64_caught [OF assms(2), of _ Some]
    by (simp add: get_optional_int64_def group_name_eq [OF assms(1)] group_str_def group_matched_def Let_def split: option.split)
qed (simp_all add: get_double_def get_string_def get_optional_double_def get_optional_string_def bind_assoc
    group_name_eq [OF assms(1)] group_str_def group_matched_def Let_def split: option.split)

text \<open>Argument \<open>i\<close> comes from group \<open>N + i\<close>.\<close>

lemma eval_args_nth:
  "case eval_args F N Ts m of
     Inr args \<Rightarrow> length args = length Ts \<and> (\<forall>i < length Ts. get_handler_args F (N + i) (Ts ! i) m = ok (args ! i))
   | Inl e \<Rightarrow> \<exists>i < length Ts. get_handler_args F (N + i) (Ts ! i) m = Inl e"
proof (induction Ts arbitrary: N)
  case (Cons T Ts)
  show ?case
  proof (cases "get_handler_args F N T m")
    case (Inl e)
    then show ?thesis by (auto intro: exI [of _ 0])
  next
    case (Inr a)
    with Cons.IH [of "Suc N"] show ?thesis
      by (cases "eval_args F (Suc N) Ts m") (auto simp: nth_Cons split: nat.split)
  qed
qed simp

section \<open>How construction fails\<close>

abbreviation runtime_faults :: "'a outcome \<Rightarrow> bool" where
  "runtime_faults \<equiv> throws_only (\<lambda>e. \<exists>msg. e = Runtime_error msg)"

lemma compile_runtime: "compile_law R \<Longrightarrow> runtime_faults (re_compile R s)"
  unfolding compile_law_def by (drule spec [of _ s]) auto

lemma route_to_regex_runtime:
  "compile_law R \<Longrightarrow> runtime_faults (route_to_regex F R ty n g value consumed)"
  by (cases ty) (auto intro!: throws_only_bind compile_runtime)

lemma collect_match_runtime: "compile_law R \<Longrightarrow> runtime_faults (collect_match F R st m)"
  by (auto simp: collect_match_def Let_def split: prod.splits
      intro!: throws_only_bind compile_runtime)

text \<open>The text to replace was found, so replacing it is within the string.\<close>

lemma replace_next_runtime: "runtime_faults (replace_next F st r)"
  by (auto simp: replace_next_def Let_def str_replace_def dest: str_find_Some
      split: prod.splits option.splits)

lemma parse_route_pattern_runtime:
  "compile_law R \<Longrightarrow> runtime_faults (parse_route_pattern F R pattern)"
  unfolding parse_route_pattern_def
  by (auto intro!: throws_only_bind compile_runtime fold_outcome_throws_only
      collect_match_runtime replace_next_runtime)

lemma compare_params_runtime: "runtime_faults (compare_params F pattern i ps fs)"
  by (induction F pattern i ps fs rule: compare_params.induct) auto

section \<open>Properties\<close>

lemma new_Route_parsed:
  assumes "parse_route_pattern F R pattern = ok (rx, types)"
  shows "new_Route F R pattern methods Ts handler =
    (let params = map to_RouteParamType Ts in
     if length types \<noteq> length params then throw (Runtime_error (count_error F pattern types params))
     else bind (compare_params F pattern 0 types params) (\<lambda>_.
       ok \<lparr>rr_originalPattern = pattern, rr_methods = methods, rr_handler = handler,
           rr_args = Ts, rr_regex = rx\<rparr>))"
  using assms by (simp add: new_Route_def parse_function_parameters_eq Let_def)

lemma new_Route_shape:
  assumes "sformat_law F" and "search_law R parser_expr" and "readable sh z"
    and "\<forall>(l, ph) \<in> set sh. value_compiles R ph" and "re_compile R (shape_regex sh z) = ok rx"
  shows "new_Route F R (shape_text sh z) methods Ts handler = ok route \<longleftrightarrow>
    map (ph_type \<circ> snd) sh = map to_RouteParamType Ts \<and>
    route = \<lparr>rr_originalPattern = shape_text sh z, rr_methods = methods, rr_handler = handler,
      rr_args = Ts, rr_regex = rx\<rparr>"
proof -
  have "parse_route_pattern F R (shape_text sh z) = ok (rx, map (ph_type \<circ> snd) sh)"
    using parse_readable [OF assms(1-4)] assms(5) by simp
  from new_Route_parsed [OF this, of methods Ts handler] show ?thesis
    using compare_params_ok [of "map (ph_type \<circ> snd) sh" "map to_RouteParamType Ts" F "shape_text sh z" 0]
    by (auto simp: Let_def bind_eq_Inr dest: map_eq_imp_length_eq)
qed

text \<open>
  C12. A route with a well-formed pattern is constructed exactly when the types of its
  placeholders are, one by one, those its handler takes (a handler cannot be called with
  arguments of other types than the pattern yields), and then it matches with the translated
  expression.
\<close>

theorem route_constructed:
  assumes "sformat_law F" and "search_law R parser_expr" and "readable sh z"
    and "\<forall>(l, ph) \<in> set sh. value_compiles R ph" and "re_compile R (shape_regex sh z) = ok rx"
  shows "new_Route F R (shape_text sh z) methods Ts handler = ok route \<longleftrightarrow>
    map (ph_type \<circ> snd) sh = map to_RouteParamType Ts \<and>
    route = \<lparr>rr_originalPattern = shape_text sh z, rr_methods = methods, rr_handler = handler,
      rr_args = Ts, rr_regex = rx\<rparr>"
  by (rule new_Route_shape [OF assms])

text \<open>
  A mismatch is reported, and the report names the first parameter that differs: its
  position and the two types there.
\<close>

theorem route_mismatch_reported:
  assumes "parse_route_pattern F R pattern = ok (rx, types)" and "length types = length Ts"
    and "k < length types" and "types ! k \<noteq> to_RouteParamType (Ts ! k)"
    and "\<And>j. j < k \<Longrightarrow> types ! j = to_RouteParamType (Ts ! j)"
  shows "new_Route F R pattern methods Ts handler =
    throw (Runtime_error (mismatch_error F pattern k (types ! k) (to_RouteParamType (Ts ! k))))"
proof -
  have "compare_params F pattern 0 types (map to_RouteParamType Ts) = throw (Runtime_error
      (mismatch_error F pattern (0 + k) (types ! k) (map to_RouteParamType Ts ! k)))"
    using assms(2-5) by (intro compare_params_first) simp_all
  then show ?thesis
    using assms(2,3) by (simp add: new_Route_parsed [OF assms(1)])
qed

text \<open>
  C39. Whatever the pattern and the handler, constructing a route either succeeds, and the route
  keeps the pattern, the methods, the handler and its argument types, or throws a
  \<open>std::runtime_error\<close>: no string operation of the translation is out of range, and a
  malformed user expression is an error of that kind too.
\<close>

theorem route_errors_runtime:
  assumes "compile_law R"
  shows "(\<exists>rx. new_Route F R pattern methods Ts handler =
       ok \<lparr>rr_originalPattern = pattern, rr_methods = methods, rr_handler = handler,
           rr_args = Ts, rr_regex = rx\<rparr>) \<or>
     (\<exists>msg. new_Route F R pattern methods Ts handler = throw (Runtime_error msg))"
  using parse_route_pattern_runtime [OF assms, of F pattern]
proof (cases rule: throws_only_cases)
  case (returned parsed)
  obtain rx types where parsed: "parse_route_pattern F R pattern = ok (rx, types)"
    using returned by (cases parsed) auto
  from compare_params_runtime [of F pattern 0 types "map to_RouteParamType Ts"] show ?thesis
    by (cases rule: throws_only_cases) (auto simp: new_Route_parsed [OF parsed] Let_def)
qed (auto simp: new_Route_def)

text \<open>
  C13. What a matched route passes on: when its handler is called, it gets the request and as
  many arguments as it declares, each of the declared type; argument \<open>i\<close> is what the group
  \<open>__i\<close> of the match has captured (a text, a number cut to the largest \<open>int64_t\<close>, a \<open>double\<close>,
  or nothing for an optional parameter that took no part in the match). Where an argument cannot be
  converted (a \<open>double\<close> out of the library's range), the call fails with the library's
  exception and the handler is not reached.
\<close>

theorem route_passes_arguments:
  assumes "sformat_law F" and "conversion_law F"
    and "regex_handler F R r (Some m) = ok x" and "rm_result x = RouteMatched"
    and "rr_handler r = Route_plain (Some f)"
  shows "\<exists>h groups. rm_handler x = Some h \<and> re_match R (rr_regex r) (effective_path F m) = ok (Some groups) \<and>
    (\<forall>req.
      (\<exists>args. map arg_type args = rr_args r \<and> h req = f req args \<and>
        (\<forall>i < length args. captured_arg F (rr_args r ! i) (groups (''__'' @ dec i)) = ok (args ! i))) \<or>
      (\<exists>i < length (rr_args r). \<exists>e. captured_arg F (rr_args r ! i) (groups (''__'' @ dec i)) = Inl e \<and>
        h req = Completed 0 (Inl e)))"
proof -
  obtain groups where g: "re_match R (rr_regex r) (effective_path F m) = ok (Some groups)"
    and x: "regex_match_maker F (rr_args r) groups (rr_handler r) = ok x"
    using assms(3,4) by (auto simp: regex_handler_eq split: sum.splits option.splits if_splits)
  from x assms(5) have "rm_handler x = Some (\<lambda>request. call_handler F (rr_args r) (Some f) request groups)"
    by auto
  with g eval_args_nth [where F = F and N = 0 and Ts = "rr_args r" and m = groups] show ?thesis
    by (auto simp: call_handler_def get_handler_args_captured [OF assms(1,2)] dest: eval_args_types split: sum.splits)
qed

section \<open>Witnesses\<close>

abbreviation ref_searching :: regex_lib where
  "ref_searching \<equiv> perl_lib [parser_expr]"

definition ref_callable :: "unit route_callable" where
  "ref_callable = Route_plain None"

definition ref_args :: "handler_type list" where
  "ref_args = [T_int64, T_optional_int64, T_double, T_optional_double, T_string, T_optional_string,
     T_optional_int64, T_optional_double, T_optional_string, T_int64, T_double, T_string]"

definition ref_shape_route :: "unit regex_route" where
  "ref_shape_route = \<lparr>rr_originalPattern = shape_text ref_shape [], rr_methods = {GET},
     rr_handler = ref_callable, rr_args = ref_args, rr_regex = shape_regex ref_shape []\<rparr>"

lemma route_constructed_witness:
  "new_Route ref_folly ref_searching (shape_text ref_shape []) {GET} ref_args ref_callable = ok ref_shape_route"
proof -
  have "new_Route ref_folly ref_searching (shape_text ref_shape []) {GET} ref_args ref_callable
      = ok ref_shape_route \<longleftrightarrow>
    map (ph_type \<circ> snd) ref_shape = map to_RouteParamType ref_args \<and>
    ref_shape_route = \<lparr>rr_originalPattern = shape_text ref_shape [], rr_methods = {GET},
      rr_handler = ref_callable, rr_args = ref_args, rr_regex = shape_regex ref_shape []\<rparr>"
    using ref_folly_laws(2) perl_lib_searches ref_shape_readable
    by (rule route_constructed) (simp_all add: perl_lib_values perl_lib_compiles)
  then show ?thesis
    by (simp add: ref_shape_def ref_shape_route_def ref_args_def Let_def)
qed

definition small_shape :: shape where
  "small_shape = [(''/u/'', Ph_int), (''/'', Ph_string ''[a-z]+'')]"

lemma small_shape_readable: "readable small_shape []"
  by (rule readableI) (simp_all add: small_shape_def shape_clear_def closed_text_def)

lemma route_mismatch_reported_witness:
  "new_Route ref_folly ref_searching (shape_text small_shape []) {GET} [T_int64, T_double] ref_callable =
    throw (Runtime_error (mismatch_error ref_folly (shape_text small_shape []) 1
      ([Int64, String] ! 1) (to_RouteParamType ([T_int64, T_double] ! 1))))"
proof (rule route_mismatch_reported)
  from parse_readable [OF ref_folly_laws(2) perl_lib_searches small_shape_readable, of "[]"]
  show "parse_route_pattern ref_folly ref_searching (shape_text small_shape []) =
      ok (shape_regex small_shape [], [Int64, String])"
    by (simp add: perl_lib_values perl_lib_compiles small_shape_def)
qed (auto simp: less_Suc_eq)

lemma route_errors_runtime_witness:
  "(\<exists>rx. new_Route ref_folly ref_regex ''/u/{{i}}'' {GET} [T_int64] ref_callable =
       ok \<lparr>rr_originalPattern = ''/u/{{i}}'', rr_methods = {GET}, rr_handler = ref_callable,
           rr_args = [T_int64], rr_regex = rx\<rparr>) \<or>
   (\<exists>msg. new_Route ref_folly ref_regex ''/u/{{i}}'' {GET} [T_int64] ref_callable =
       throw (Runtime_error msg))"
  using ref_regex_law by (rule route_errors_runtime)

definition ref_user_groups :: smatch where
  "ref_user_groups = [''__0'' \<mapsto> ''42'', ''__1'' \<mapsto> ''bob'']"

definition ref_user_regex :: regex_lib where
  "ref_user_regex = ref_regex\<lparr>re_match := (\<lambda>r s. ok (if s = ''/u/42/bob'' then Some ref_user_groups else None))\<rparr>"

definition ref_user_handler :: "http_request \<Rightarrow> handler_arg list \<Rightarrow> response_future" where
  "ref_user_handler req args = Completed 0 (ok (HTTPResponse_status ref_iobuf
     (if args = [A_int64 42, A_string ''bob''] then 200 else 404)))"

definition ref_user_route :: "unit regex_route" where
  "ref_user_route = \<lparr>rr_originalPattern = ''/u/{{i}}/{{s:[a-z]+}}'', rr_methods = {GET},
     rr_handler = Route_plain (Some ref_user_handler), rr_args = [T_int64, T_string], rr_regex = []\<rparr>"

definition ref_user_match :: "unit route_match" where
  "ref_user_match = \<lparr>rm_result = RouteMatched, rm_handler = Some (\<lambda>request.
     call_handler ref_folly [T_int64, T_string] (Some ref_user_handler) request ref_user_groups),
     rm_streamingHandler = None\<rparr>"

lemma ref_user_matches:
  "regex_handler ref_folly ref_user_regex ref_user_route (Some (plain_message ''/u/42/bob'')) = ok ref_user_match"
  by (simp add: regex_handler_def getMethodAndPath_total [OF ref_folly_laws(1)] effective_path_def
      effective_method_def unescaped_def value_or_def plain_message_def ref_user_route_def
      ref_user_regex_def ref_user_match_def) (simp add: ref_folly_def)

lemma ref_folly_conversion: "conversion_law ref_folly"
  by (auto simp: conversion_law_def ref_folly_def split: option.splits)

text \<open>The two arguments of the user's route, each from its own group.\<close>

lemma ref_user_args:
  assumes "map arg_type args = [T_int64, T_string]"
    and "\<forall>i < length args. captured_arg ref_folly ([T_int64, T_string] ! i) (ref_user_groups (''__'' @ dec i)) = ok (args ! i)"
  shows "args = [A_int64 42, A_string ''bob'']"
proof -
  from assms(1) obtain a b where args: "args = [a, b]" by (auto simp: map_eq_Cons_conv)
  have "dec 0 = ''0''" "dec 1 = ''1''" by (simp_all add: dec.simps char_of_def bit_0)
  moreover have "int64_or_max ref_folly ''42'' = 42"
    by (simp add: int64_or_max_def ref_folly_def in_int64_def is_digit_def)
  ultimately show ?thesis
    using assms(2) [rule_format, of 0] assms(2) [rule_format, of 1] by (simp add: args ref_user_groups_def)
qed

lemma route_passes_arguments_witness:
  "\<exists>h. rm_handler ref_user_match = Some h \<and> (\<forall>req. h req = Completed 0 (ok (HTTPResponse_status ref_iobuf 200)))"
proof -
  have "rm_result ref_user_match = RouteMatched" "rr_handler ref_user_route = Route_plain (Some ref_user_handler)"
    by (simp_all add: ref_user_match_def ref_user_route_def)
  from route_passes_arguments [OF ref_folly_laws(2) ref_folly_conversion ref_user_matches this]
  obtain h groups where h: "rm_handler ref_user_match = Some h"
    "re_match ref_user_regex (rr_regex ref_user_route) (effective_path ref_folly (plain_message ''/u/42/bob'')) = ok (Some groups)"
    "\<forall>req. (\<exists>args. map arg_type args = rr_args ref_user_route \<and> h req = ref_user_handler req args \<and>
        (\<forall>i < length args. captured_arg ref_folly (rr_args ref_user_route ! i) (groups (''__'' @ dec i)) = ok (args ! i))) \<or>
      (\<exists>i < length (rr_args ref_user_route). \<exists>e.
        captured_arg ref_folly (rr_args ref_user_route ! i) (groups (''__'' @ dec i)) = Inl e \<and> h req = Completed 0 (Inl e))"
    by blast
  have groups: "groups = ref_user_groups"
    using h(2) by (simp add: ref_user_regex_def split: if_splits)
  have types: "rr_args ref_user_route = [T_int64, T_string]" by (simp add: ref_user_route_def)
  have none_fails: "\<nexists>i e. i < length [T_int64, T_string] \<and> captured_arg ref_folly ([T_int64, T_string] ! i) (g i) = Inl e" for g
    by (auto simp: nth_Cons split: nat.splits)
  have "h req = Completed 0 (ok (HTTPResponse_status ref_iobuf 200))" for req
  proof -
    obtain args where args: "map arg_type args = [T_int64, T_string]" "h req = ref_user_handler req args"
        "\<forall>i < length args. captured_arg ref_folly ([T_int64, T_string] ! i) (ref_user_groups (''__'' @ dec i)) = ok (args ! i)"
      using spec [OF h(3), of req] none_fails [of "\<lambda>i. ref_user_groups (''__'' @ dec i)"]
      unfolding groups types by metis
    show ?thesis
      unfolding args(2) ref_user_handler_def ref_user_args [OF args(1,3)] by simp
  qed
  with h(1) show ?thesis by blast
qed

end
