(* ===== verification/Route_Language.thy ===== *)
theory Route_Language
  imports Regex_Route
begin

text \<open>
  What the patterns of \<open>src/Route.h\<close> mean: the paths a pattern of expressions and placeholders
  reads and the text each placeholder takes, as the README's table has it; that the routes of
  \<open>Regex_Route\<close> match exactly those; and that the arguments written into an unambiguous path
  are the ones the handler gets.
\<close>

section \<open>Patterns of expressions\<close>

datatype slot =
    Int_slot
  | Optional_int_slot "expr option"
  | Double_slot
  | Optional_double_slot "expr option"
  | String_slot expr
  | Optional_string_slot expr "expr option"

definition sign_expr :: expr where
  "sign_expr = Opt (One_of [Single (CHR ''+''), Single (CHR ''-'')])"

definition int_expr :: expr where
  "int_expr = Seq sign_expr (Plus Digit)"

definition double_expr :: expr where
  "double_expr = Seq sign_expr (Seq (Plus Digit) (Opt (Seq (Chr (CHR ''.'')) (Plus Digit))))"

fun slot_ph :: "slot \<Rightarrow> placeholder" where
  "slot_ph Int_slot = Ph_int"
| "slot_ph (Optional_int_slot c) = Ph_optional_int (map_option show_part c)"
| "slot_ph Double_slot = Ph_double"
| "slot_ph (Optional_double_slot c) = Ph_optional_double (map_option show_part c)"
| "slot_ph (String_slot e) = Ph_string (show_expr e)"
| "slot_ph (Optional_string_slot e c) = Ph_optional_string (show_expr e) (map_option show_part c)"

fun value_expr :: "slot \<Rightarrow> expr" where
  "value_expr (String_slot e) = e"
| "value_expr (Optional_string_slot e c) = e"
| "value_expr Double_slot = double_expr"
| "value_expr (Optional_double_slot c) = double_expr"
| "value_expr _ = int_expr"

fun is_optional :: "slot \<Rightarrow> bool" where
  "is_optional (Optional_int_slot c) = True"
| "is_optional (Optional_double_slot c) = True"
| "is_optional (Optional_string_slot e c) = True"
| "is_optional _ = False"

fun consumed :: "slot \<Rightarrow> expr" where
  "consumed (Optional_int_slot (Some e)) = e"
| "consumed (Optional_double_slot (Some e)) = e"
| "consumed (Optional_string_slot v (Some e)) = e"
| "consumed _ = Empty"

type_synonym pattern = "(expr \<times> slot) list"

definition pattern_shape :: "pattern \<Rightarrow> shape" where
  "pattern_shape ps = map (\<lambda>(l, s). (show_part l, slot_ph s)) ps"

definition pattern_text :: "pattern \<Rightarrow> expr \<Rightarrow> string" where
  "pattern_text ps z = shape_text (pattern_shape ps) (show_expr z)"

text \<open>The expression such a pattern becomes.\<close>

abbreviation group_of :: "nat \<Rightarrow> string" where
  "group_of n \<equiv> ''__'' @ dec n"

definition slot_expr :: "nat \<Rightarrow> slot \<Rightarrow> expr" where
  "slot_expr n s = (let g = Group (group_of n) (value_expr s) in
     if is_optional s then Opt (Seq g (consumed s)) else g)"

fun pattern_expr :: "nat \<Rightarrow> pattern \<Rightarrow> expr \<Rightarrow> expr" where
  "pattern_expr n [] z = z"
| "pattern_expr n ((l, s) # ps) z = Seq l (Seq (slot_expr n s) (pattern_expr (Suc n) ps z))"

lemma show_int_expr: "show_expr int_expr = raw ''[+-]?~d+''"
  by (simp add: int_expr_def sign_expr_def parens_def raw_def)

lemma show_double_expr: "show_expr double_expr = raw ''[+-]?~d+(?:~.~d+)?''"
  by (simp add: double_expr_def sign_expr_def parens_def raw_def special_chars_def)

lemma slot_expr_not_alt: "\<not> is_alt (slot_expr n s)"
  by (simp add: slot_expr_def Let_def)

lemma show_slot_expr: "show_expr (slot_expr n s) = ph_regex n (slot_ph s)"
proof (cases s)
  case (Optional_int_slot c)
  then show ?thesis
    by (cases c) (simp_all add: slot_expr_def Let_def show_int_expr raw_def parens_def show_part_def value_or_def)
next
  case (Optional_double_slot c)
  then show ?thesis
    by (cases c) (simp_all add: slot_expr_def Let_def show_double_expr raw_def parens_def show_part_def value_or_def)
next
  case (Optional_string_slot e c)
  then show ?thesis
    by (cases c) (simp_all add: slot_expr_def Let_def parens_def show_part_def value_or_def)
qed (simp_all add: slot_expr_def Let_def show_int_expr show_double_expr raw_def)

lemma show_pattern_expr:
  "\<not> is_alt z \<Longrightarrow> expanded (numbered n (pattern_shape ps)) (show_expr z) = show_expr (pattern_expr n ps z)"
proof (induction n ps z rule: pattern_expr.induct)
  case (2 n l s ps z)
  moreover have "\<not> is_alt (pattern_expr (Suc n) ps z)"
    using "2.prems" by (cases ps) auto
  ultimately show ?case
    by (simp add: pattern_shape_def expanded_def show_slot_expr slot_expr_not_alt parens_def show_part_def)
qed (simp add: pattern_shape_def expanded_def)

section \<open>The paths a pattern reads\<close>

text \<open>A placeholder takes a segment of the path; an optional one may take nothing.\<close>

definition slot_reads :: "slot \<Rightarrow> string \<Rightarrow> string option \<Rightarrow> bool" where
  "slot_reads s seg cap \<longleftrightarrow> (case cap of
     None \<Rightarrow> is_optional s \<and> seg = []
   | Some v \<Rightarrow> v \<in> lang (value_expr s) \<and> (\<exists>w \<in> lang (consumed s). seg = v @ w))"

inductive reads :: "pattern \<Rightarrow> expr \<Rightarrow> string \<Rightarrow> string option list \<Rightarrow> bool" where
  last: "p \<in> lang z \<Longrightarrow> reads [] z p []"
| slot: "w \<in> lang l \<Longrightarrow> slot_reads s seg cap \<Longrightarrow> reads ps z p caps \<Longrightarrow>
    reads ((l, s) # ps) z (w @ seg @ p) (cap # caps)"

inductive_simps reads_simps: "reads [] z p caps" "reads ((l, s) # ps) z p caps"

text \<open>Patterns whose expressions have no named groups of their own.\<close>

fun no_groups :: "pattern \<Rightarrow> expr \<Rightarrow> bool" where
  "no_groups [] z = (groups z = {} \<and> \<not> is_alt z)"
| "no_groups ((l, s) # ps) z =
     (groups l = {} \<and> groups (value_expr s) = {} \<and> groups (consumed s) = {} \<and> no_groups ps z)"

fun taken :: "nat \<Rightarrow> string option \<Rightarrow> smatch" where
  "taken n None = Map.empty"
| "taken n (Some v) = [group_of n \<mapsto> v]"

fun captured :: "nat \<Rightarrow> string option list \<Rightarrow> smatch" where
  "captured n [] = Map.empty"
| "captured n (cap # caps) = taken n cap ++ captured (Suc n) caps"

lemma consumed_required: "\<not> is_optional s \<Longrightarrow> consumed s = Empty"
  by (cases s) simp_all

lemma takes_slot_expr:
  assumes "groups (value_expr s) = {}" and "groups (consumed s) = {}"
  shows "takes (slot_expr n s) seg m \<longleftrightarrow> (\<exists>cap. slot_reads s seg cap \<and> m = taken n cap)"
proof (cases "is_optional s")
  case True
  then show ?thesis
    using assms
    by (auto simp: slot_expr_def Let_def takes_simps takes_lang slot_reads_def split: option.splits
        intro: exI [of _ None] exI [of _ "Some v" for v])
next
  case False
  then show ?thesis
    using assms
    by (auto simp: slot_expr_def Let_def takes_simps takes_lang slot_reads_def consumed_required
        split: option.splits intro: exI [of _ "Some v" for v])
qed

lemma takes_pattern_expr:
  "no_groups ps z \<Longrightarrow> takes (pattern_expr n ps z) p m \<longleftrightarrow>
     (\<exists>caps. reads ps z p caps \<and> m = captured n caps)"
proof (induction n ps z arbitrary: p m rule: pattern_expr.induct)
  case (1 n z)
  then show ?case by (auto simp: takes_lang reads_simps)
next
  case (2 n l s ps z)
  then have slot_eq: "takes (slot_expr n s) u k \<longleftrightarrow> (\<exists>cap. slot_reads s u cap \<and> k = taken n cap)" for u k
    by (simp add: takes_slot_expr)
  have rest: "takes (pattern_expr (Suc n) ps z) q k \<longleftrightarrow>
      (\<exists>caps. reads ps z q caps \<and> k = captured (Suc n) caps)" for q k
    using 2 by simp
  have literal: "takes l w k \<longleftrightarrow> w \<in> lang l \<and> k = Map.empty" for w k
    using "2.prems" by (simp add: takes_lang)
  show ?case
  proof
    assume "takes (pattern_expr n ((l, s) # ps) z) p m"
    then obtain w u q cap caps where "p = w @ u @ q" "w \<in> lang l" "slot_reads s u cap"
        "reads ps z q caps" "m = taken n cap ++ captured (Suc n) caps"
      unfolding pattern_expr.simps takes_simps literal slot_eq rest by clarsimp
    then show "\<exists>caps. reads ((l, s) # ps) z p caps \<and> m = captured n caps"
      by (intro exI [of _ "cap # caps"]) (simp add: reads.slot)
  next
    assume "\<exists>caps. reads ((l, s) # ps) z p caps \<and> m = captured n caps"
    then obtain caps0 where r: "reads ((l, s) # ps) z p caps0" and m: "m = captured n caps0"
      by blast
    from r show "takes (pattern_expr n ((l, s) # ps) z) p m"
    proof (cases rule: reads.cases)
      case (slot w seg cap q caps)
      then have "takes (Seq l (Seq (slot_expr n s) (pattern_expr (Suc n) ps z))) (w @ seg @ q)
          (Map.empty ++ (taken n cap ++ captured (Suc n) caps))"
        using literal slot_eq rest by (intro takes.seq) auto
      with slot m show ?thesis by simp
    qed
  qed
qed

lemma captured_before: "k < n \<Longrightarrow> captured n caps (group_of k) = None"
proof (induction n caps rule: captured.induct)
  case (2 n cap caps)
  then show ?case by (cases cap) (simp_all add: map_add_def)
qed simp

lemma captured_lookup: "i < length caps \<Longrightarrow> captured n caps (group_of (n + i)) = caps ! i"
proof (induction n caps arbitrary: i rule: captured.induct)
  case (2 n cap caps)
  show ?case
  proof (cases i)
    case 0
    then show ?thesis
      using captured_before [of n "Suc n" caps] by (cases cap) (simp_all add: map_add_def)
  next
    case (Suc j)
    with 2 have "captured (Suc n) caps (group_of (n + i)) = caps ! j" by simp
    with Suc show ?thesis
      by (cases cap) (auto simp: map_add_def split: option.split)
  qed
qed simp

lemma reads_length: "reads ps z p caps \<Longrightarrow> length caps = length ps"
  by (induction rule: reads.induct) simp_all

section \<open>Routes read the paths of their patterns\<close>

text \<open>
  What is asked of a pattern, and of the library on it: no named groups of its own, and a text
  that is readable; and the documented behaviour for the expression patterns are searched with,
  for the expressions of string placeholders and for the whole.
\<close>

definition proper :: "pattern \<Rightarrow> expr \<Rightarrow> bool" where
  "proper ps z \<longleftrightarrow> no_groups ps z \<and> readable (pattern_shape ps) (show_expr z)"

definition supports :: "regex_lib \<Rightarrow> pattern \<Rightarrow> expr \<Rightarrow> bool" where
  "supports R ps z \<longleftrightarrow> search_law R parser_expr \<and>
     (\<forall>(l, ph) \<in> set (pattern_shape ps). value_compiles R ph) \<and> perl_law R (pattern_expr 0 ps z)"

definition slot_types :: "pattern \<Rightarrow> RouteParamType list" where
  "slot_types ps = map (\<lambda>(l, s). ph_type (slot_ph s)) ps"

lemma no_groups_not_alt: "no_groups ps z \<Longrightarrow> \<not> is_alt z"
  by (induction ps z rule: no_groups.induct) auto

lemma new_Route_pattern:
  assumes "sformat_law F" and "proper ps z" and "supports R ps z"
  shows "new_Route F R (pattern_text ps z) methods Ts handler = ok route \<longleftrightarrow>
    slot_types ps = map to_RouteParamType Ts \<and>
    route = \<lparr>rr_originalPattern = pattern_text ps z, rr_methods = methods, rr_handler = handler,
      rr_args = Ts, rr_regex = show_expr (pattern_expr 0 ps z)\<rparr>"
proof -
  have rx: "shape_regex (pattern_shape ps) (show_expr z) = show_expr (pattern_expr 0 ps z)"
    using assms(2) no_groups_not_alt [of ps z]
    by (simp add: shape_regex_def proper_def show_pattern_expr)
  then have "re_compile R (shape_regex (pattern_shape ps) (show_expr z)) = ok (show_expr (pattern_expr 0 ps z))"
    using assms(3) by (simp add: supports_def perl_law_def)
  moreover have "map (ph_type \<circ> snd) (pattern_shape ps) = slot_types ps"
    by (simp add: pattern_shape_def slot_types_def split_def)
  ultimately show ?thesis
    using new_Route_shape [OF assms(1), of R "pattern_shape ps" "show_expr z"
        "show_expr (pattern_expr 0 ps z)" methods Ts handler route] assms(2,3)
    by (simp add: supports_def proper_def pattern_text_def)
qed

lemma regex_match_reads:
  assumes "proper ps z" and "supports R ps z"
  shows "case re_match R (show_expr (pattern_expr 0 ps z)) p of
      Inr None \<Rightarrow> \<nexists>caps. reads ps z p caps
    | Inr (Some g) \<Rightarrow> \<exists>caps. reads ps z p caps \<and> g = captured 0 caps
    | Inl f \<Rightarrow> \<exists>msg. f = Throw (Runtime_error msg)"
proof -
  have "case re_match R (show_expr (pattern_expr 0 ps z)) p of
      Inr None \<Rightarrow> \<nexists>g. takes (pattern_expr 0 ps z) p g
    | Inr (Some g) \<Rightarrow> takes (pattern_expr 0 ps z) p g
    | Inl f \<Rightarrow> \<exists>msg. f = Throw (Runtime_error msg)"
    using assms(2) unfolding supports_def perl_law_def by blast
  moreover have "takes (pattern_expr 0 ps z) p g \<longleftrightarrow> (\<exists>caps. reads ps z p caps \<and> g = captured 0 caps)" for g
    using assms(1) takes_pattern_expr by (simp add: proper_def)
  ultimately show ?thesis
    by (simp split: sum.splits option.splits)
qed

lemma pattern_matched:
  assumes "proper ps z" and "supports R ps z" and "rr_regex r = show_expr (pattern_expr 0 ps z)"
    and "match_bounded F R r m"
  shows "regex_matches F R r m = None \<longleftrightarrow> (\<nexists>caps. reads ps z (effective_path F m) caps)"
    and "regex_matches F R r m = Some g \<Longrightarrow> \<exists>caps. reads ps z (effective_path F m) caps \<and> g = captured 0 caps"
  using regex_match_reads [OF assms(1,2), of "effective_path F m"] assms(3,4)
  by (auto simp: regex_matches_def match_bounded_def split: sum.splits option.splits)

text \<open>What such a route answers, where the captured texts are determined by the path.\<close>

lemma pattern_route_handler:
  assumes "proper ps z" and "supports R ps z" and "rr_regex r = show_expr (pattern_expr 0 ps z)"
    and "addressable F m" and "match_bounded F R r m" and "effective_method m \<in> rr_methods r"
    and "reads ps z (effective_path F m) caps"
    and "\<And>caps'. reads ps z (effective_path F m) caps' \<Longrightarrow> caps' = caps"
  shows "regex_handler F R r (Some m) = regex_match_maker F (rr_args r) (captured 0 caps) (rr_handler r)"
proof -
  obtain g where g: "regex_matches F R r m = Some g"
    using pattern_matched(1) [OF assms(1-3,5)] assms(7) by auto
  with pattern_matched(2) [OF assms(1-3,5)] assms(8) have "g = captured 0 caps"
    by blast
  with g have "re_match R (rr_regex r) (effective_path F m) = ok (Some (captured 0 caps))"
    by (simp add: regex_matches_def split: sum.splits)
  then show ?thesis
    using assms(4,6) by (cases rule: addressable_cases [of F m]) (simp_all add: regex_handler_eq)
qed

section \<open>Unambiguous patterns\<close>

text \<open>The characters an expression may match, whether it matches nothing, and literal text.\<close>

primrec may :: "expr \<Rightarrow> char \<Rightarrow> bool" where
  "may Empty c = False"
| "may (Chr d) c = (c = d)"
| "may Any c = True"
| "may Digit c = is_digit c"
| "may Word_char c = is_word c"
| "may (One_of items) c = (\<exists>i \<in> set items. in_item c i)"
| "may (Seq a b) c = (may a c \<or> may b c)"
| "may (Alt a b) c = (may a c \<or> may b c)"
| "may (Star e) c = may e c"
| "may (Plus e) c = may e c"
| "may (Lazy_plus e) c = may e c"
| "may (Opt e) c = may e c"
| "may (Group n e) c = may e c"

primrec nullable :: "expr \<Rightarrow> bool" where
  "nullable Empty = True"
| "nullable (Chr d) = False"
| "nullable Any = False"
| "nullable Digit = False"
| "nullable Word_char = False"
| "nullable (One_of items) = False"
| "nullable (Seq a b) = (nullable a \<and> nullable b)"
| "nullable (Alt a b) = (nullable a \<or> nullable b)"
| "nullable (Star e) = True"
| "nullable (Plus e) = nullable e"
| "nullable (Lazy_plus e) = nullable e"
| "nullable (Opt e) = True"
| "nullable (Group n e) = nullable e"

fun literal_text :: "expr \<Rightarrow> string option" where
  "literal_text Empty = Some []"
| "literal_text (Chr c) = Some [c]"
| "literal_text (Seq (Chr c) e) = map_option (Cons c) (literal_text e)"
| "literal_text _ = None"

lemma takes_may: "takes e s m \<Longrightarrow> c \<in> set s \<Longrightarrow> may e c"
  by (induction rule: takes.induct) auto

lemma takes_nullable: "takes e s m \<Longrightarrow> s = [] \<Longrightarrow> nullable e"
  by (induction rule: takes.induct) auto

lemma literal_text_lang: "literal_text e = Some w \<Longrightarrow> v \<in> lang e \<longleftrightarrow> v = w"
  by (induction e arbitrary: v w rule: literal_text.induct) (auto simp: lang_Seq)

definition slot_may :: "slot \<Rightarrow> char \<Rightarrow> bool" where
  "slot_may s c \<longleftrightarrow> may (value_expr s) c \<or> may (consumed s) c"

text \<open>The segment of an optional placeholder tells its value, if any.\<close>

definition exact :: "slot \<Rightarrow> bool" where
  "exact s \<longleftrightarrow> is_optional s \<longrightarrow> (case literal_text (consumed s) of
     None \<Rightarrow> False | Some w \<Rightarrow> w \<noteq> [] \<or> \<not> nullable (value_expr s))"

text \<open>
  Patterns of literal text and placeholders in which the text behind a placeholder starts with
  a character that the placeholder cannot take.
\<close>

type_synonym url_pattern = "(string \<times> slot) list"

definition literals :: "url_pattern \<Rightarrow> pattern" where
  "literals ps = map (\<lambda>(w, s). (literal w, s)) ps"

lemma literals_simps [simp]:
  "literals [] = []" "literals ((w, s) # ps) = (literal w, s) # literals ps"
  by (simp_all add: literals_def)

fun delimited :: "url_pattern \<Rightarrow> bool" where
  "delimited [] = True"
| "delimited [(w, s)] = exact s"
| "delimited ((w, s) # (w', s') # ps) =
     (exact s \<and> (case w' of [] \<Rightarrow> False | c # _ \<Rightarrow> \<not> slot_may s c) \<and> delimited ((w', s') # ps))"

lemma slot_reads_may: "slot_reads s seg cap \<Longrightarrow> c \<in> set seg \<Longrightarrow> slot_may s c"
  by (auto simp: slot_reads_def slot_may_def lang_def dest: takes_may split: option.splits)

lemma slot_reads_unique:
  assumes "exact s" and "slot_reads s seg cap" and "slot_reads s seg cap'"
  shows "cap = cap'"
proof (cases "is_optional s")
  case True
  then obtain w where w: "literal_text (consumed s) = Some w" "w \<noteq> [] \<or> \<not> nullable (value_expr s)"
    using assms(1) by (auto simp: exact_def split: option.splits)
  have "v @ w \<noteq> []" if "v \<in> lang (value_expr s)" for v
    using that w(2) by (auto simp: lang_def dest: takes_nullable)
  then show ?thesis
    using assms(2,3) literal_text_lang [OF w(1)] by (auto simp: slot_reads_def split: option.splits)
next
  case False
  with assms(2,3) show ?thesis
    by (auto simp: slot_reads_def consumed_required split: option.splits)
qed

lemma cut_unique:
  "c \<notin> set a \<Longrightarrow> c \<notin> set b \<Longrightarrow> a @ c # x = b @ c # y \<longleftrightarrow> a = b \<and> x = y"
proof (induction a arbitrary: b)
  case Nil
  then show ?case by (cases b) auto
next
  case (Cons d a)
  then show ?case by (cases b) auto
qed

lemma reads_literals:
  "reads (literals ((w, s) # ps)) z p caps \<longleftrightarrow> (\<exists>seg q cap caps'. p = w @ seg @ q \<and>
     slot_reads s seg cap \<and> reads (literals ps) z q caps' \<and> caps = cap # caps')"
  unfolding literals_simps reads_simps lang_literal by blast

lemma reads_one_value:
  assumes "\<not> is_optional s"
  shows "reads [(literal w, s)] Empty p caps \<longleftrightarrow> (\<exists>v. p = w @ v \<and> v \<in> lang (value_expr s) \<and> caps = [Some v])"
proof -
  have "slot_reads s seg cap \<longleftrightarrow> seg \<in> lang (value_expr s) \<and> cap = Some seg" for seg cap
    using assms by (auto simp: slot_reads_def consumed_required split: option.splits)
  then show ?thesis
    using reads_literals [of w s "[]" Empty p caps] by (simp add: reads_simps)
qed

lemma reads_unique:
  "delimited ps \<Longrightarrow> reads (literals ps) (literal z) p caps \<Longrightarrow> reads (literals ps) (literal z) p caps'
     \<Longrightarrow> caps = caps'"
proof (induction ps arbitrary: p caps caps' rule: delimited.induct)
  case 1
  then show ?case by (simp add: reads_simps)
next
  case (2 w s)
  then show ?case
    using slot_reads_unique [of s] by (auto simp: reads_literals reads_simps simp del: literals_simps(2))
next
  case (3 w s w' s' ps)
  then obtain c t where c: "w' = c # t" "\<not> slot_may s c" "exact s" "delimited ((w', s') # ps)"
    by (auto split: list.splits)
  from "3.prems"(2) obtain seg q cap r where 1: "p = w @ seg @ q" "slot_reads s seg cap"
      "reads (literals ((w', s') # ps)) (literal z) q r" "caps = cap # r"
    unfolding reads_literals [of w s] by blast
  from "3.prems"(3) obtain seg' q' cap' r' where 2: "p = w @ seg' @ q'" "slot_reads s seg' cap'"
      "reads (literals ((w', s') # ps)) (literal z) q' r'" "caps' = cap' # r'"
    unfolding reads_literals [of w s] by blast
  have "\<exists>u. q = c # u" "\<exists>u. q' = c # u"
    using 1(3) 2(3) c(1) by (auto simp: reads_simps)
  moreover have "c \<notin> set seg" "c \<notin> set seg'"
    using 1(2) 2(2) c(2) slot_reads_may by blast+
  moreover have "seg @ q = seg' @ q'"
    using 1(1) 2(1) by simp
  ultimately have "seg = seg'" "q = q'"
    using cut_unique [of c seg seg'] by blast+
  with 1 2 "3.IH" [OF c(4)] slot_reads_unique [OF c(3)] show ?case by blast
qed

section \<open>Paths written from arguments\<close>

fun arg_capture :: "handler_arg \<Rightarrow> string option" where
  "arg_capture (A_int64 i) = Some (dec_int (sint i))"
| "arg_capture (A_optional_int64 o') = map_option (\<lambda>i. dec_int (sint i)) o'"
| "arg_capture (A_string v) = Some v"
| "arg_capture (A_optional_string o') = o'"
| "arg_capture _ = None"

definition arg_text :: "slot \<Rightarrow> handler_arg \<Rightarrow> string" where
  "arg_text s a = (case arg_capture a of None \<Rightarrow> [] | Some v \<Rightarrow> v @ value_or (literal_text (consumed s)) [])"

text \<open>The arguments that can be written for a placeholder; doubles are left aside.\<close>

fun fits :: "slot \<Rightarrow> handler_arg \<Rightarrow> bool" where
  "fits Int_slot (A_int64 i) = True"
| "fits (Optional_int_slot c) (A_optional_int64 o') = True"
| "fits (String_slot e) (A_string v) = (match_all e v \<noteq> [])"
| "fits (Optional_string_slot e c) (A_optional_string o') =
     (case o' of None \<Rightarrow> True | Some v \<Rightarrow> match_all e v \<noteq> [])"
| "fits _ _ = False"

fun url :: "url_pattern \<Rightarrow> string \<Rightarrow> handler_arg list \<Rightarrow> string" where
  "url ((w, s) # ps) z (a # as) = w @ arg_text s a @ url ps z as"
| "url _ z _ = z"

lemma lang_match_all: "v \<in> lang e \<longleftrightarrow> match_all e v \<noteq> []"
  using match_all_complete [of e v] match_all_sound [of "hd (match_all e v)" e v] hd_in_set
  by (auto simp: lang_def)

text \<open>The values of \<open>{{i}}\<close> are the texts of decimal numbers.\<close>

lemma digits_value_Some: "digits_value acc s \<noteq> None \<longleftrightarrow> list_all is_digit s"
  by (induction acc s rule: digits_value.induct) simp_all

lemma int_expr_decimal: "v \<in> lang int_expr \<longleftrightarrow> decimal_value v \<noteq> None"
proof -
  have "v \<in> lang int_expr \<longleftrightarrow> (v \<noteq> [] \<and> list_all is_digit v) \<or>
      (\<exists>d. (v = CHR ''+'' # d \<or> v = CHR ''-'' # d) \<and> d \<noteq> [] \<and> list_all is_digit d)"
    unfolding int_expr_def sign_expr_def lang_Seq Plus_Digit
    by (auto intro: exI [of _ "[c]" for c])
  also have "\<dots> \<longleftrightarrow> decimal_value v \<noteq> None"
  proof (cases v)
    case (Cons c s)
    have "\<not> is_digit (CHR ''-'')" "\<not> is_digit (CHR ''+'')"
      by (simp_all add: is_digit_def)
    then show ?thesis
      using Cons digits_value_Some [of 0 s] digits_value_Some [of 0 "c # s"]
      by (auto simp del: digits_value.simps)
  qed simp
  finally show ?thesis .
qed

lemma dec_int_lang: "dec_int i \<in> lang int_expr"
  by (simp add: int_expr_decimal decimal_value_dec_int)

lemma fits_capture: "fits s a \<Longrightarrow> case arg_capture a of None \<Rightarrow> is_optional s | Some v \<Rightarrow> v \<in> lang (value_expr s)"
  by (cases "(s, a)" rule: fits.cases) (auto simp: dec_int_lang lang_match_all [symmetric] split: option.splits)

lemma fits_type: "fits s a \<Longrightarrow> to_RouteParamType (arg_type a) = ph_type (slot_ph s)"
  by (cases "(s, a)" rule: fits.cases) auto

lemma fits_reads:
  assumes "fits s a" and "exact s"
  shows "slot_reads s (arg_text s a) (arg_capture a)"
proof -
  obtain w where "literal_text (consumed s) = Some w"
    using assms(2) by (cases "is_optional s") (auto simp: exact_def consumed_required split: option.splits)
  then show ?thesis
    using fits_capture [OF assms(1)] literal_text_lang [of "consumed s" w w]
    by (auto simp: slot_reads_def arg_text_def value_or_def split: option.splits)
qed

lemma delimited_tail: "delimited ((w, s) # ps) \<Longrightarrow> exact s \<and> delimited ps"
  by (cases ps) auto

lemma url_reads:
  "delimited ps \<Longrightarrow> list_all2 (\<lambda>(w, s) a. fits s a) ps as \<Longrightarrow>
   reads (literals ps) (literal z) (url ps z as) (map arg_capture as)"
proof (induction ps z as rule: url.induct)
  case (1 w s ps z a as)
  with delimited_tail [OF "1.prems"(1)] show ?case
    by (auto intro!: reads.slot fits_reads)
qed (auto intro: reads.last)

lemma eval_capture:
  assumes "sformat_law F" and "to_int64_law F" and "m (group_of N) = arg_capture a" and "fits s a"
  shows "get_handler_args F N (arg_type a) m = ok a"
proof -
  have exact: "saturated_int64 (sint i) = i" for i :: int64
    using sint_lt [of i] sint_ge [of i] by (simp add: saturated_int64_def in_int64_def)
  have str: "group_str m (group_name F N) = v \<and> group_matched m (group_name F N)" if "arg_capture a = Some v" for v
    using assms(1,3) that by (simp add: group_name_eq group_str_def group_matched_def)
  have none: "\<not> group_matched m (group_name F N)" if "arg_capture a = None"
    using assms(1,3) that by (simp add: group_name_eq group_matched_def)
  have int: "get_int64 F N m = ok i" if "arg_capture a = Some (dec_int (sint i))" for i
    using get_int64_decimal [OF assms(2), of m N "sint i"] str [OF that] exact
    by (simp add: decimal_value_dec_int)
  have opt: "get_optional_int64 F N m = ok (Some i)" if "arg_capture a = Some (dec_int (sint i))" for i
    using to_int64_caught [OF assms(2) decimal_value_dec_int, where g = Some] str [OF that] exact
    by (simp add: get_optional_int64_def Let_def)
  show ?thesis
  proof (cases "(s, a)" rule: fits.cases)
    case (2 c o')
    then show ?thesis
      using opt str none by (cases o') (simp_all add: get_optional_int64_def Let_def)
  next
    case (4 e c o')
    then show ?thesis
      using str none by (cases o') (simp_all add: get_optional_string_def Let_def)
  qed (use int str assms(4) in \<open>simp_all add: get_string_def\<close>)
qed

lemma eval_args_captured:
  assumes "sformat_law F" and "to_int64_law F"
  shows "list_all2 (\<lambda>(w, s) a. fits s a) ps as \<Longrightarrow>
    (\<And>i. i < length as \<Longrightarrow> m (group_of (N + i)) = arg_capture (as ! i)) \<Longrightarrow>
    eval_args F N (map arg_type as) m = ok as"
proof (induction ps as arbitrary: N rule: list_all2_induct)
  case (Cons p ps a as)
  obtain w s where p: "p = (w, s)" by (cases p)
  have "m (group_of N) = arg_capture a"
    using Cons.prems [of 0] by simp
  with p Cons.hyps have "get_handler_args F N (arg_type a) m = ok a"
    by (auto intro: eval_capture [OF assms])
  moreover have "eval_args F (Suc N) (map arg_type as) m = ok as"
    using Cons.prems [of "Suc i" for i] by (intro Cons.IH) auto
  ultimately show ?case by simp
qed simp

lemma route_reads:
  assumes "sformat_law F" and "proper ps z" and "supports R ps z"
    and "new_Route F R (pattern_text ps z) methods Ts handler = ok r" and "match_bounded F R r m"
  shows "regex_matches F R r m \<noteq> None \<longleftrightarrow> (\<exists>caps. reads ps z (effective_path F m) caps)"
proof -
  have "rr_regex r = show_expr (pattern_expr 0 ps z)"
    using new_Route_pattern [OF assms(1-3), of methods Ts handler r] assms(4) by auto
  from pattern_matched(1) [OF assms(2,3) this assms(5)] show ?thesis by simp
qed

section \<open>Properties\<close>

text \<open>
  C8. A route matches exactly the paths its pattern reads: once it is constructed, and wherever
  the library does not give up, a request's decoded path belongs to the route just when it is
  the literal parts of the pattern with a value of the right form for every placeholder, an
  optional placeholder standing for nothing or for a value with its consumed part behind it.
\<close>

theorem route_language:
  assumes "sformat_law F" and "proper ps z" and "supports R ps z"
    and "new_Route F R (pattern_text ps z) methods Ts handler = ok r" and "match_bounded F R r m"
  shows "regex_matches F R r m \<noteq> None \<longleftrightarrow> (\<exists>caps. reads ps z (effective_path F m) caps)"
  by (rule route_reads [OF assms])

text \<open>
  C2. Round trip through the path: for a pattern of literal text and placeholders in which the
  text behind a placeholder starts with a character the placeholder cannot take, a request for
  the path written from some arguments (any 64-bit integers, any strings of the placeholders'
  expressions, absent ones included) is matched, and the handler is called with exactly those
  arguments.
\<close>

theorem url_round_trip:
  assumes "sformat_law F" and "to_int64_law F" and "delimited us"
    and "proper (literals us) (literal z)" and "supports R (literals us) (literal z)"
    and "new_Route F R (pattern_text (literals us) (literal z)) methods Ts (Route_plain (Some f)) = ok r"
    and "list_all2 (\<lambda>(w, s) a. fits s a) us as" and "effective_path F m = url us z as"
    and "addressable F m" and "match_bounded F R r m" and "effective_method m \<in> methods"
  shows "\<exists>x h. regex_handler F R r (Some m) = ok x \<and> rm_result x = RouteMatched \<and>
    rm_handler x = Some h \<and> (\<forall>req. h req = f req as)"
proof -
  let ?g = "captured 0 (map arg_capture as)"
  have types: "slot_types (literals us) = map to_RouteParamType Ts" and r: "r = \<lparr>rr_originalPattern =
      pattern_text (literals us) (literal z), rr_methods = methods, rr_handler = Route_plain (Some f),
      rr_args = Ts, rr_regex = show_expr (pattern_expr 0 (literals us) (literal z))\<rparr>"
    using new_Route_pattern [OF assms(1,4,5), of methods Ts "Route_plain (Some f)" r] assms(6) by auto
  have "map to_RouteParamType (map arg_type as) = slot_types (literals us)"
    using assms(7) by (induction us as rule: list_all2_induct) (auto simp: slot_types_def fits_type)
  then have Ts: "Ts = map arg_type as"
    using types inj_map_eq_map [OF to_RouteParamType_inj] by metis
  have "?g (group_of (0 + i)) = arg_capture (as ! i)" if "i < length as" for i
    using captured_lookup [of i "map arg_capture as" 0] that by simp
  from eval_args_captured [OF assms(1,2,7) this] have args: "eval_args F 0 Ts ?g = ok as"
    by (simp add: Ts)
  have read: "reads (literals us) (literal z) (effective_path F m) (map arg_capture as)"
    using url_reads [OF assms(3,7)] assms(8) by simp
  from pattern_route_handler [OF assms(4,5) _ assms(9,10) _ read]
  have "regex_handler F R r (Some m) = regex_match_maker F Ts ?g (Route_plain (Some f))"
    using reads_unique [OF assms(3) read] assms(11) by (simp add: r)
  then show ?thesis
    by (simp add: call_handler_def args)
qed

section \<open>The README's examples\<close>

definition user_by_id :: pattern where
  "user_by_id = [(literal ''/user/'', Int_slot)]"

definition user_by_name :: pattern where
  "user_by_name = [(literal ''/user/'', String_slot (Plus Word_char))]"

definition comments :: pattern where
  "comments = [(literal ''/comments/'', Optional_string_slot (Plus Word_char) (Some (Chr (CHR ''/''))))]"

lemma special_chars_eq: "set special_chars = set ''.^$|()[]{}*+?'' \<union> {CHR 0x5C}"
  by (auto simp: special_chars_def raw_def)

lemma readme_texts:
  "pattern_text user_by_id Empty = ''/user/{{i}}''"
  "pattern_text user_by_name Empty = raw ''/user/{{s:~w+}}''"
  "pattern_text comments (literal ''activity'') = raw ''/comments/{{s?:~w+:/}}activity''"
  by (simp_all add: pattern_text_def pattern_shape_def shape_text_def user_by_id_def user_by_name_def
      comments_def show_part_def parens_def show_literal special_chars_eq raw_def)

lemma readme_proper:
  "proper user_by_id Empty" "proper user_by_name Empty" "proper comments (literal ''activity'')"
  by (auto intro!: readableI simp: proper_def user_by_id_def user_by_name_def comments_def pattern_shape_def
      shape_clear_def closed_text_def show_part_def parens_def show_literal special_chars_eq int_expr_def sign_expr_def
      raw_def value_or_def)

lemma one_slot_reads:
  "(\<exists>caps. reads [(literal w, s)] z p caps) \<longleftrightarrow>
     (\<exists>seg cap q. p = w @ seg @ q \<and> slot_reads s seg cap \<and> q \<in> lang z)"
  using reads_literals [of w s "[]" z p] by (auto simp: reads_simps)

lemma readme_reads:
  "(\<exists>caps. reads user_by_id Empty p caps) \<longleftrightarrow> (\<exists>v. p = ''/user/'' @ v \<and> v \<in> lang int_expr)"
  "(\<exists>caps. reads user_by_name Empty p caps) \<longleftrightarrow> (\<exists>v. p = ''/user/'' @ v \<and> v \<noteq> [] \<and> list_all is_word v)"
  "(\<exists>caps. reads comments (literal ''activity'') p caps) \<longleftrightarrow> p = ''/comments/activity'' \<or>
     (\<exists>v. p = ''/comments/'' @ v @ ''/activity'' \<and> v \<noteq> [] \<and> list_all is_word v)"
  unfolding user_by_id_def user_by_name_def comments_def one_slot_reads slot_reads_def
  by (auto simp: Plus_Word split: option.splits) force+

lemma readme_words:
  "''1234'' \<in> lang int_expr" "[] \<notin> lang int_expr"
  "list_all is_word ''john_smith''" "\<not> list_all is_word ''some-user!''" "\<not> list_all is_word ''bad-user!''"
  by (simp_all add: int_expr_decimal is_word_def is_digit_def)

lemma readme_verdicts:
  "\<exists>caps. reads user_by_id Empty ''/user/1234'' caps" "\<nexists>caps. reads user_by_id Empty ''/user/'' caps"
  "\<exists>caps. reads user_by_name Empty ''/user/john_smith'' caps"
  "\<nexists>caps. reads user_by_name Empty ''/user/some-user!'' caps"
  "\<exists>caps. reads comments (literal ''activity'') ''/comments/activity'' caps"
  "\<nexists>caps. reads comments (literal ''activity'') ''/comments/bad-user!/activity'' caps"
  "\<nexists>caps. reads comments (literal ''activity'') ''/comments/john_smith'' caps"
  "\<exists>caps. reads comments (literal ''activity'') ''/comments/john_smith/activity'' caps"
  unfolding readme_reads
proof -
  show "\<exists>v. ''/user/1234'' = ''/user/'' @ v \<and> v \<in> lang int_expr"
    "\<nexists>v. ''/user/'' = ''/user/'' @ v \<and> v \<in> lang int_expr"
    "\<exists>v. ''/user/john_smith'' = ''/user/'' @ v \<and> v \<noteq> [] \<and> list_all is_word v"
    "\<nexists>v. ''/user/some-user!'' = ''/user/'' @ v \<and> v \<noteq> [] \<and> list_all is_word v"
    using readme_words by auto
  have "v = ''bad-user!''" if "''bad-user!/activity'' = v @ ''/activity''" for v
    using that append_same_eq [of "''bad-user!''" "''/activity''" v] by simp
  then show "\<not> (''/comments/bad-user!/activity'' = ''/comments/activity'' \<or>
      (\<exists>v. ''/comments/bad-user!/activity'' = ''/comments/'' @ v @ ''/activity'' \<and> v \<noteq> [] \<and> list_all is_word v))"
    using readme_words(5) by auto
  have "''john_smith'' \<noteq> v @ ''/activity''" for v
    using arg_cong [of "''john_smith''" "v @ ''/activity''" last] by auto
  then show "\<not> (''/comments/john_smith'' = ''/comments/activity'' \<or>
      (\<exists>v. ''/comments/john_smith'' = ''/comments/'' @ v @ ''/activity'' \<and> v \<noteq> [] \<and> list_all is_word v))"
    by auto
  show "''/comments/john_smith/activity'' = ''/comments/activity'' \<or>
      (\<exists>v. ''/comments/john_smith/activity'' = ''/comments/'' @ v @ ''/activity'' \<and> v \<noteq> [] \<and> list_all is_word v)"
    using readme_words(3) by (intro disjI2 exI [of _ "''john_smith''"]) simp
qed simp_all

definition readme_paths :: "string list" where
  "readme_paths = [''/user/1234'', ''/user/'', ''/user/john_smith'', ''/user/some-user!'',
     ''/comments/activity'', ''/comments/bad-user!/activity'', ''/comments/john_smith'',
     ''/comments/john_smith/activity'']"

text \<open>
  The README's examples of dynamic patterns: each of its valid and invalid paths is matched
  or refused as it says, but for one: the pattern for comments, with an optional word and
  \<open>activity\<close> behind it, does not accept \<open>/comments/john_smith\<close>, which the README lists as
  valid; it accepts \<open>/comments/john_smith/activity\<close>.
\<close>

theorem readme_examples:
  fixes handler :: "'h route_callable"
  assumes "sformat_law F" and "supports R user_by_id Empty" and "supports R user_by_name Empty"
    and "supports R comments (literal ''activity'')"
    and "new_Route F R ''/user/{{i}}'' methods [T_int64] handler = ok r1"
    and "new_Route F R (raw ''/user/{{s:~w+}}'') methods [T_string] handler = ok r2"
    and "new_Route F R (raw ''/comments/{{s?:~w+:/}}activity'') methods [T_optional_string] handler = ok r3"
    and "\<And>p. p \<in> set readme_paths \<Longrightarrow> effective_path F (at p) = p"
    and "\<And>(r :: 'h regex_route) p. p \<in> set readme_paths \<Longrightarrow> match_bounded F R r (at p)"
  shows "map (\<lambda>p. regex_matches F R r1 (at p) \<noteq> None) [''/user/1234'', ''/user/''] = [True, False] \<and>
    map (\<lambda>p. regex_matches F R r2 (at p) \<noteq> None) [''/user/john_smith'', ''/user/some-user!''] =
      [True, False] \<and>
    map (\<lambda>p. regex_matches F R r3 (at p) \<noteq> None) [''/comments/activity'',
        ''/comments/bad-user!/activity'', ''/comments/john_smith'', ''/comments/john_smith/activity'']
      = [True, False, False, True]"
proof -
  note routes = assms(5-7) [folded readme_texts]
  have "regex_matches F R r1 (at p) \<noteq> None \<longleftrightarrow> (\<exists>caps. reads user_by_id Empty p caps)"
    and "regex_matches F R r2 (at p) \<noteq> None \<longleftrightarrow> (\<exists>caps. reads user_by_name Empty p caps)"
    and "regex_matches F R r3 (at p) \<noteq> None \<longleftrightarrow> (\<exists>caps. reads comments (literal ''activity'') p caps)"
    if "p \<in> set readme_paths" for p
    using route_reads [OF assms(1) readme_proper(1) assms(2) routes(1) assms(9) [OF that]]
      route_reads [OF assms(1) readme_proper(2) assms(3) routes(2) assms(9) [OF that]]
      route_reads [OF assms(1) readme_proper(3) assms(4) routes(3) assms(9) [OF that]] assms(8) [OF that]
    by simp_all
  note found = this [unfolded readme_paths_def]
  show ?thesis
    using readme_verdicts by (simp add: found del: not_None_eq)
qed

section \<open>Witnesses\<close>

text \<open>A pattern that starts with a slash does not become the expression of the search.\<close>

lemma perl_lib_supports:
  assumes "hd (show_expr (pattern_expr 0 ps z)) = CHR ''/''"
    and "find (\<lambda>e. show_expr e = show_expr (pattern_expr 0 ps z)) es = Some (pattern_expr 0 ps z)"
  shows "supports (perl_lib (parser_expr # es)) ps z"
proof -
  have "hd (show_expr parser_expr) = CHR ''(''"
    by (simp add: show_parser_expr route_parser_def raw_def)
  with assms(1) have "show_expr parser_expr \<noteq> show_expr (pattern_expr 0 ps z)"
    by auto
  with assms(2) have "find (\<lambda>e. show_expr e = show_expr (pattern_expr 0 ps z)) (parser_expr # es) =
      Some (pattern_expr 0 ps z)"
    by simp
  then show ?thesis
    using perl_lib_law(1) perl_lib_searches perl_lib_values by (auto simp: supports_def)
qed

lemma perl_lib_bounded: "match_bounded F (perl_lib es) r m"
  by (simp add: match_bounded_def perl_lib_def)

definition readme_lib :: regex_lib where
  "readme_lib = (let ps = [(user_by_id, Empty), (user_by_name, Empty), (comments, literal ''activity'')] in
     perl_lib (parser_expr # map (\<lambda>(p, z). pattern_expr 0 p z) ps))"

definition ref_url :: url_pattern where
  "ref_url = [(''/user/'', Int_slot),
     (''/tag-'', Optional_string_slot (Plus (One_of [Span (CHR ''a'') (CHR ''z'')])) (Some (literal ''/''))),
     (''#'', Optional_int_slot None)]"

lemma show_slashes:
  "hd (show_expr (pattern_expr 0 user_by_id Empty)) = CHR ''/''"
  "hd (show_expr (pattern_expr 0 user_by_name Empty)) = CHR ''/''"
  "hd (show_expr (pattern_expr 0 comments (literal ''activity''))) = CHR ''/''"
  "hd (show_expr (pattern_expr 0 (literals ref_url) Empty)) = CHR ''/''"
  by (simp_all add: user_by_id_def user_by_name_def comments_def ref_url_def parens_def show_literal special_chars_eq)

lemma readme_lib_supports:
  "supports readme_lib user_by_id Empty" "supports readme_lib user_by_name Empty"
  "supports readme_lib comments (literal ''activity'')"
proof -
  have "show_expr (pattern_expr 0 user_by_id Empty) \<noteq> show_expr (pattern_expr 0 user_by_name Empty)"
    "show_expr (pattern_expr 0 user_by_id Empty) \<noteq> show_expr (pattern_expr 0 comments (literal ''activity''))"
    "show_expr (pattern_expr 0 user_by_name Empty) \<noteq> show_expr (pattern_expr 0 comments (literal ''activity''))"
    by (simp_all add: user_by_id_def user_by_name_def comments_def slot_expr_def parens_def show_literal
        special_chars_eq int_expr_def sign_expr_def raw_def)
  then show "supports readme_lib user_by_id Empty" "supports readme_lib user_by_name Empty"
    "supports readme_lib comments (literal ''activity'')"
    unfolding readme_lib_def Let_def
    by (auto intro!: perl_lib_supports simp: show_slashes simp del: pattern_expr.simps)
qed

definition ref_answer :: "http_request \<Rightarrow> handler_arg list \<Rightarrow> response_future" where
  "ref_answer req args = Completed 0 (ok (HTTPResponse_status ref_iobuf 200))"

definition readme_route :: "pattern \<Rightarrow> expr \<Rightarrow> handler_type list \<Rightarrow> unit regex_route" where
  "readme_route ps z Ts = \<lparr>rr_originalPattern = pattern_text ps z, rr_methods = {GET},
     rr_handler = Route_plain (Some ref_answer), rr_args = Ts, rr_regex = show_expr (pattern_expr 0 ps z)\<rparr>"

lemma readme_routes:
  "new_Route ref_folly readme_lib (pattern_text user_by_id Empty) {GET} [T_int64] (Route_plain (Some ref_answer))
     = ok (readme_route user_by_id Empty [T_int64])"
  "new_Route ref_folly readme_lib (pattern_text user_by_name Empty) {GET} [T_string] (Route_plain (Some ref_answer))
     = ok (readme_route user_by_name Empty [T_string])"
  "new_Route ref_folly readme_lib (pattern_text comments (literal ''activity'')) {GET} [T_optional_string]
     (Route_plain (Some ref_answer)) = ok (readme_route comments (literal ''activity'') [T_optional_string])"
  using readme_lib_supports readme_proper
  by (simp_all add: new_Route_pattern ref_folly_laws readme_route_def slot_types_def user_by_id_def
      user_by_name_def comments_def)

lemma readme_lib_bounded: "match_bounded F readme_lib r m"
  by (simp add: readme_lib_def perl_lib_bounded Let_def)

lemma plain_path:
  "fl_uriUnescape F PATH p = ok p \<Longrightarrow> effective_path F (plain_message p) = p"
  by (simp add: effective_path_def unescaped_def plain_message_def value_or_def)

lemma route_language_witness:
  "regex_matches ref_folly readme_lib (readme_route user_by_id Empty [T_int64]) (plain_message ''/user/7'') \<noteq> None
     \<longleftrightarrow> (\<exists>caps. reads user_by_id Empty (effective_path ref_folly (plain_message ''/user/7'')) caps)"
  by (rule route_language [OF ref_folly_laws(2) readme_proper(1) readme_lib_supports(1) readme_routes(1)
      readme_lib_bounded])

lemma readme_examples_witness:
  "map (\<lambda>p. regex_matches ref_folly readme_lib (readme_route user_by_id Empty [T_int64])
        (plain_message p) \<noteq> None) [''/user/1234'', ''/user/''] = [True, False] \<and>
    map (\<lambda>p. regex_matches ref_folly readme_lib (readme_route user_by_name Empty [T_string])
        (plain_message p) \<noteq> None) [''/user/john_smith'', ''/user/some-user!''] = [True, False] \<and>
    map (\<lambda>p. regex_matches ref_folly readme_lib (readme_route comments (literal ''activity'') [T_optional_string])
        (plain_message p) \<noteq> None) [''/comments/activity'',
        ''/comments/bad-user!/activity'', ''/comments/john_smith'', ''/comments/john_smith/activity'']
      = [True, False, False, True]"
proof (rule readme_examples [OF ref_folly_laws(2) readme_lib_supports readme_routes [unfolded readme_texts]])
  show "effective_path ref_folly (plain_message p) = p" if "p \<in> set readme_paths" for p
    using that by (auto simp: readme_paths_def ref_folly_def intro!: plain_path)
qed (rule readme_lib_bounded)

definition ref_url_lib :: regex_lib where
  "ref_url_lib = perl_lib [parser_expr, pattern_expr 0 (literals ref_url) Empty]"

definition ref_url_args :: "handler_arg list" where
  "ref_url_args = [A_int64 (-5), A_optional_string (Some ''b''), A_optional_int64 None]"

definition ref_url_route :: "unit regex_route" where
  "ref_url_route = readme_route (literals ref_url) Empty [T_int64, T_optional_string, T_optional_int64]"

lemma ref_url_text: "url ref_url [] ref_url_args = ''/user/-5/tag-b/#''"
  by (simp add: ref_url_def ref_url_args_def arg_text_def value_or_def dec_int_def dec.simps literal.simps
      char_of_def bit_0)

lemma url_round_trip_witness:
  "\<exists>x h. regex_handler ref_folly ref_url_lib ref_url_route (Some (plain_message ''/user/-5/tag-b/#'')) = ok x \<and>
    rm_result x = RouteMatched \<and> rm_handler x = Some h \<and> (\<forall>req. h req = ref_answer req ref_url_args)"
proof -
  have E: "literal [] = Empty" by (simp add: literal.simps)
  have "proper (literals ref_url) (literal [])"
    by (auto intro!: readableI simp: proper_def ref_url_def pattern_shape_def shape_clear_def closed_text_def
        show_part_def parens_def
        show_literal special_chars_eq int_expr_def sign_expr_def value_or_def)
  moreover have "supports ref_url_lib (literals ref_url) (literal [])"
    by (auto intro!: perl_lib_supports simp: ref_url_lib_def E show_slashes simp del: pattern_expr.simps)
  moreover have "delimited ref_url"
    by (simp add: ref_url_def exact_def slot_may_def int_expr_def sign_expr_def is_digit_def literal.simps)
  moreover have "list_all2 (\<lambda>(w, s) a. fits s a) ref_url ref_url_args"
    by (simp add: ref_url_def ref_url_args_def lang_match_all [symmetric] Plus_One_of)
  moreover have "new_Route ref_folly ref_url_lib (pattern_text (literals ref_url) (literal [])) {GET}
      [T_int64, T_optional_string, T_optional_int64] (Route_plain (Some ref_answer)) = ok ref_url_route"
    using calculation(1,2)
    by (simp add: new_Route_pattern [OF ref_folly_laws(2)] ref_url_route_def readme_route_def E slot_types_def ref_url_def)
  ultimately show ?thesis
    using ref_folly_laws addressable_total [OF ref_folly_laws(1)] perl_lib_bounded
    by (intro url_round_trip [where us = ref_url and z = "[]" and methods = "{GET}"
          and Ts = "[T_int64, T_optional_string, T_optional_int64]"])
       (auto simp: ref_url_text ref_url_lib_def effective_method_def plain_message_def value_or_def ref_folly_def
          intro!: plain_path [unfolded plain_message_def])
qed

end
