(* ===== verification/Router.thy ===== *)
theory Router
  imports Regex_Route
begin

text \<open>
  \<open>src/Router.h\<close>, \<open>src/Router.cpp\<close> and \<open>push_back_move\<close> of \<open>src/Util.h\<close>: the router keeps its
  static routes apart from the others, asks them first, and falls back to an error handler.
\<close>

section \<open>Routes behind the base class\<close>

text \<open>A \<open>BaseRoute\<close> is one of the two derived classes; its virtual functions dispatch.\<close>

datatype 'h route = Static "'h static_route" | Regex "'h regex_route"

fun isStaticRoute :: "'h route \<Rightarrow> bool" where
  "isStaticRoute (Static r) = True"
| "isStaticRoute (Regex r) = False"

fun route_handler ::
  "folly_lib \<Rightarrow> regex_lib \<Rightarrow> 'h route \<Rightarrow> http_message option \<Rightarrow> 'h route_match outcome" where
  "route_handler F R (Static r) request = static_handler F r request"
| "route_handler F R (Regex r) request = regex_handler F R r request"

fun route_ready :: "folly_lib \<Rightarrow> regex_lib \<Rightarrow> 'h route \<Rightarrow> http_message \<Rightarrow> bool" where
  "route_ready F R (Static r) m = addressable F m"
| "route_ready F R (Regex r) m = (addressable F m \<and> match_bounded F R r m)"

fun route_path :: "folly_lib \<Rightarrow> regex_lib \<Rightarrow> 'h route \<Rightarrow> http_message \<Rightarrow> bool" where
  "route_path F R (Static r) m = (effective_path F m = sr_originalPattern r)"
| "route_path F R (Regex r) m = (regex_matches F R r m \<noteq> None)"

fun route_methods :: "'h route \<Rightarrow> HTTPMethod set" where
  "route_methods (Static r) = sr_methods r"
| "route_methods (Regex r) = rr_methods r"

definition accepts :: "folly_lib \<Rightarrow> regex_lib \<Rightarrow> 'h route \<Rightarrow> http_message \<Rightarrow> bool" where
  "accepts F R r m \<longleftrightarrow> route_path F R r m \<and> effective_method m \<in> route_methods r"

interpretation dispatch: base_route "route_handler F R" "route_ready F R" "route_path F R"
  "\<lambda>r m. effective_method m \<in> route_methods r"
  for F R
proof unfold_locales
  fix r :: "'h route" and m and x :: "'h route_match"
  show "\<exists>x. route_handler F R r (Some m) = ok x" if "route_ready F R r m"
    using that by (cases r) (auto intro: static.ready_total regex.ready_total)
  show "x = no_match PathNotMatched"
    if "route_handler F R r (Some m) = ok x" "\<not> route_path F R r m"
    using that by (cases r) (auto intro: static.path_law regex.path_law)
  show "x = no_match MethodNotMatched"
    if "route_handler F R r (Some m) = ok x" "route_path F R r m"
      "effective_method m \<notin> route_methods r"
    using that by (cases r) (auto intro: static.method_law regex.method_law)
  show "rm_result x = RouteMatched \<and> one_callable x"
    if "route_handler F R r (Some m) = ok x" "route_path F R r m"
      "effective_method m \<in> route_methods r"
    using that static.match_law regex.match_law by (cases r) (simp_all, blast+)
qed

section \<open>The router\<close>

record 'h router =
  rt_staticRoutes :: "'h route list"
  rt_routes :: "'h route list"
  rt_errorRoutes :: "int32 \<rightharpoonup> handler option"

definition place_route :: "'h router \<Rightarrow> 'h route \<Rightarrow> 'h router" where
  "place_route rt route =
     (if isStaticRoute route then rt\<lparr>rt_staticRoutes := rt_staticRoutes rt @ [route]\<rparr>
      else rt\<lparr>rt_routes := rt_routes rt @ [route]\<rparr>)"

definition new_Router :: "(int32 \<rightharpoonup> handler option) \<Rightarrow> 'h route list \<Rightarrow> 'h router" where
  "new_Router errorRoutes routes =
     foldl place_route \<lparr>rt_staticRoutes = [], rt_routes = [], rt_errorRoutes = errorRoutes\<rparr> routes"

fun push_back_move :: "'a list \<Rightarrow> 'a list \<Rightarrow> 'a list" where
  "push_back_move container [] = container"
| "push_back_move container (value # values) = push_back_move (container @ [value]) values"

definition make_router :: "(int32 \<rightharpoonup> handler option) \<Rightarrow> 'h route list \<Rightarrow> 'h router" where
  "make_router errorRoutes routes = new_Router errorRoutes (push_back_move [] routes)"

text \<open>
  The default error handler passes its \<open>int\<close> to a constructor that takes an \<open>int16_t\<close>.
\<close>

definition getErrorHandler :: "iobuf_lib \<Rightarrow> futures_lib \<Rightarrow> 'h router \<Rightarrow> int32 \<Rightarrow> handler" where
  "getErrorHandler B X rt statusCode = (case rt_errorRoutes rt statusCode of
       None \<Rightarrow> (\<lambda>_. fu_makeFuture X (HTTPResponse_status B (ucast statusCode)))
     | Some handler \<Rightarrow> (\<lambda>request. call_function handler request))"

text \<open>
  One of the two loops of \<open>getHandler\<close>: it ends with the match that was returned, or with the
  updated \<open>methodNotFound\<close>.
\<close>

fun scan_routes ::
  "('r \<Rightarrow> http_message option \<Rightarrow> 'h route_match outcome) \<Rightarrow> 'r list \<Rightarrow> http_message option \<Rightarrow> bool
     \<Rightarrow> (bool + 'h route_match) outcome" where
  "scan_routes handle [] request methodNotFound = ok (Inl methodNotFound)"
| "scan_routes handle (route # routes) request methodNotFound =
     bind (handle route request) (\<lambda>match. case rm_result match of
         PathNotMatched \<Rightarrow> scan_routes handle routes request methodNotFound
       | MethodNotMatched \<Rightarrow> scan_routes handle routes request True
       | RouteMatched \<Rightarrow> ok (Inr match))"

definition getHandler ::
  "folly_lib \<Rightarrow> regex_lib \<Rightarrow> iobuf_lib \<Rightarrow> futures_lib \<Rightarrow> 'h router \<Rightarrow> http_message option
     \<Rightarrow> 'h route_match outcome" where
  "getHandler F R B X rt request =
     bind (scan_routes (route_handler F R) (rt_staticRoutes rt) request False) (\<lambda>s. case s of
         Inr match \<Rightarrow> ok match
       | Inl methodNotFound \<Rightarrow>
     bind (scan_routes (route_handler F R) (rt_routes rt) request methodNotFound) (\<lambda>s. case s of
         Inr match \<Rightarrow> ok match
       | Inl methodNotFound \<Rightarrow>
           if methodNotFound
           then RouteMatch_handler MethodNotMatched (Some (getErrorHandler B X rt 405))
           else RouteMatch_handler PathNotMatched (Some (getErrorHandler B X rt 404))))"

section \<open>The loop over routes that keep the interface\<close>

context base_route
begin

lemma scan_miss:
  assumes "\<forall>r \<in> set rs. ready r m" and "\<forall>r \<in> set rs. \<not> (path_matches r m \<and> method_allowed r m)"
  shows "scan_routes handle rs (Some m) nf = ok (Inl (nf \<or> (\<exists>r \<in> set rs. path_matches r m)))"
  using assms
proof (induction rs arbitrary: nf)
  case (Cons r rs)
  then obtain x where x: "handle r (Some m) = ok x" using ready_total [of r m] by auto
  with Cons show ?case
    using result_eq [OF x] by (cases "path_matches r m") simp_all
qed simp

lemma scan_hit:
  assumes "\<forall>q \<in> set pre. ready q m" and "\<forall>q \<in> set pre. \<not> (path_matches q m \<and> method_allowed q m)"
    and "path_matches r m" and "method_allowed r m" and "handle r (Some m) = ok x"
  shows "scan_routes handle (pre @ r # post) (Some m) nf = ok (Inr x)"
  using assms(1,2)
proof (induction pre arbitrary: nf)
  case Nil
  then show ?case using result_eq [OF assms(5)] assms(3-5) by simp
next
  case (Cons q pre)
  then obtain y where y: "handle q (Some m) = ok y" using ready_total [of q m] by auto
  with Cons show ?case
    using result_eq [OF y] by (cases "path_matches q m") simp_all
qed

text \<open>Whatever the loop returns as a match carries exactly one callable.\<close>

lemma scan_callable:
  "scan_routes handle rs (Some m) nf = ok (Inr x) \<Longrightarrow> rm_result x = RouteMatched \<and> one_callable x"
proof (induction rs arbitrary: nf)
  case (Cons r rs)
  then obtain y where y: "handle r (Some m) = ok y"
    by (auto simp: bind_eq_Inr)
  with Cons show ?case
    using match_law [OF y] matched_iff [OF y] by (auto split: RouteMatchResult.splits)
qed simp

end

section \<open>What the router does\<close>

lemma push_back_move_eq [simp]: "push_back_move xs ys = xs @ ys"
  by (induction ys arbitrary: xs) simp_all

lemma foldl_place_route:
  "foldl place_route rt rs = rt
     \<lparr>rt_staticRoutes := rt_staticRoutes rt @ filter isStaticRoute rs,
      rt_routes := rt_routes rt @ filter (\<lambda>r. \<not> isStaticRoute r) rs\<rparr>"
  by (induction rs arbitrary: rt) (simp_all add: place_route_def)

lemma make_router_eq [route_simps]:
  "make_router errs rs =
     \<lparr>rt_staticRoutes = filter isStaticRoute rs, rt_routes = filter (\<lambda>r. \<not> isStaticRoute r) rs,
      rt_errorRoutes = errs\<rparr>"
  by (simp add: make_router_def new_Router_def foldl_place_route)

text \<open>The order in which a router asks its routes.\<close>

definition ask_order :: "'h router \<Rightarrow> 'h route list" where
  "ask_order rt = rt_staticRoutes rt @ rt_routes rt"

lemma scan_append:
  "scan_routes handle (rs @ qs) request nf =
     bind (scan_routes handle rs request nf) (\<lambda>s. case s of
         Inr match \<Rightarrow> ok (Inr match)
       | Inl nf' \<Rightarrow> scan_routes handle qs request nf')"
proof (induction rs arbitrary: nf)
  case (Cons r rs)
  then show ?case
    by (cases "handle r request") (simp_all split: RouteMatchResult.split)
qed simp

definition fallback :: "iobuf_lib \<Rightarrow> futures_lib \<Rightarrow> 'h router \<Rightarrow> bool \<Rightarrow> 'h route_match" where
  "fallback B X rt methodNotFound =
     \<lparr>rm_result = (if methodNotFound then MethodNotMatched else PathNotMatched),
      rm_handler = Some (getErrorHandler B X rt (if methodNotFound then 405 else 404)),
      rm_streamingHandler = None\<rparr>"

lemma getHandler_scan:
  "getHandler F R B X rt request =
     bind (scan_routes (route_handler F R) (ask_order rt) request False) (\<lambda>s. case s of
         Inr match \<Rightarrow> ok match
       | Inl methodNotFound \<Rightarrow> ok (fallback B X rt methodNotFound))"
  by (auto simp: getHandler_def ask_order_def scan_append bind_assoc fallback_def
      intro!: arg_cong2 [where f = bind] ext split: sum.split)

lemma one_callable_fallback: "one_callable (fallback B X rt b)"
  by (simp add: one_callable_def fallback_def)

text \<open>A match of a router always carries exactly one callable.\<close>

lemma getHandler_callable:
  assumes "getHandler F R B X rt (Some m) = ok x"
  shows "one_callable x"
proof -
  obtain s where s: "scan_routes (route_handler F R) (ask_order rt) (Some m) False = ok s"
    using assms by (cases "scan_routes (route_handler F R) (ask_order rt) (Some m) False")
      (simp_all add: getHandler_scan)
  show ?thesis
  proof (cases s)
    case (Inl nf)
    with s assms have "x = fallback B X rt nf" by (simp add: getHandler_scan)
    then show ?thesis by (simp only: one_callable_fallback)
  next
    case (Inr y)
    with s assms dispatch.scan_callable show ?thesis
      by (simp add: getHandler_scan) blast
  qed
qed

text \<open>Routing succeeds where every route can match the request.\<close>

definition routable :: "folly_lib \<Rightarrow> regex_lib \<Rightarrow> 'h router \<Rightarrow> http_message \<Rightarrow> bool" where
  "routable F R rt m \<longleftrightarrow> (\<forall>r \<in> set (ask_order rt). route_ready F R r m)"

lemma getHandler_unmatched:
  assumes "routable F R rt m" and "\<forall>r \<in> set (ask_order rt). \<not> accepts F R r m"
  shows "getHandler F R B X rt (Some m) =
    ok (fallback B X rt (\<exists>r \<in> set (ask_order rt). route_path F R r m))"
  using dispatch.scan_miss [of "ask_order rt" F R m False] assms
  by (simp add: getHandler_scan routable_def accepts_def)

lemma getHandler_first:
  assumes "routable F R rt m" and "ask_order rt = pre @ r # post"
    and "\<forall>q \<in> set pre. \<not> accepts F R q m" and "accepts F R r m"
  shows "\<exists>x. route_handler F R r (Some m) = ok x \<and> getHandler F R B X rt (Some m) = ok x"
proof -
  have "route_ready F R r m" and pre: "\<forall>q \<in> set pre. route_ready F R q m"
    using assms(1,2) by (auto simp: routable_def)
  then obtain x where x: "route_handler F R r (Some m) = ok x"
    using dispatch.ready_total by blast
  with dispatch.scan_hit [of pre F R m r x post False] pre assms show ?thesis
    by (auto simp: getHandler_scan accepts_def)
qed

lemma first_accepting:
  assumes "\<exists>r \<in> set rs. accepts F R r m"
  obtains pre r post where "rs = pre @ r # post" "\<forall>q \<in> set pre. \<not> accepts F R q m" "accepts F R r m"
  using split_list_first_prop [OF assms] by blast

lemma getHandler_total:
  assumes "routable F R rt m"
  shows "\<exists>x. getHandler F R B X rt (Some m) = ok x"
proof (cases "\<exists>r \<in> set (ask_order rt). accepts F R r m")
  case True
  then obtain pre r post where "ask_order rt = pre @ r # post"
      "\<forall>q \<in> set pre. \<not> accepts F R q m" "accepts F R r m"
    by (rule first_accepting)
  with getHandler_first [OF assms] show ?thesis by blast
next
  case False
  with getHandler_unmatched [OF assms] show ?thesis by blast
qed

definition empty_response :: "int16 \<Rightarrow> http_response" where
  "empty_response code = \<lparr>resp_status = code, resp_headers = [], resp_body = [[]]\<rparr>"

lemma ucast_codes:
  "(ucast (405 :: int32) :: int16) = 405" "(ucast (404 :: int32) :: int16) = 404"
  "(ucast (500 :: int32) :: int16) = 500" "(ucast (503 :: int32) :: int16) = 503"
  by (simp_all add: unsigned_numeral)

lemma getErrorHandler_eq:
  assumes "futures_law X" and "iobuf_law B"
  shows "getErrorHandler B X rt code = (case rt_errorRoutes rt code of
     Some f \<Rightarrow> call_function f
   | None \<Rightarrow> (\<lambda>_. Completed 0 (ok (empty_response (ucast code)))))"
  using assms
  by (auto simp: getErrorHandler_def futures_law_def iobuf_law_def HTTPResponse_status_def
      empty_response_def fun_eq_iff split: option.splits)

lemma sint_narrow:
  fixes code :: int32
  assumes "- (2 ^ 15) \<le> sint code" and "sint code < 2 ^ 15"
  shows "sint (ucast code :: int16) = sint code"
proof -
  have "sint (ucast code :: int16) = signed_take_bit 15 (sint code)"
    by transfer (simp add: signed_take_bit_take_bit)
  with assms show ?thesis
    by (simp add: signed_take_bit_int_eq_self)
qed

text \<open>What a single route reports.\<close>

definition route_result :: "folly_lib \<Rightarrow> regex_lib \<Rightarrow> http_message \<Rightarrow> 'h route \<Rightarrow> RouteMatchResult" where
  "route_result F R m r = (case route_handler F R r (Some m) of
     Inr y \<Rightarrow> rm_result y | Inl _ \<Rightarrow> PathNotMatched)"

lemma route_result_eq:
  assumes "route_ready F R r m"
  shows "route_result F R m r = (if \<not> route_path F R r m then PathNotMatched
      else if accepts F R r m then RouteMatched else MethodNotMatched)"
proof -
  obtain x where "route_handler F R r (Some m) = ok x"
    using dispatch.ready_total [OF assms] by blast
  then show ?thesis
    using dispatch.result_eq [of F R r m x] by (simp add: route_result_def accepts_def)
qed

lemma RouteMatched_top: "(r :: RouteMatchResult) \<le> RouteMatched"
  by (cases r) (simp_all add: RouteMatchResult_order)

section \<open>Properties\<close>

text \<open>
  C3. First match: a router built from a list of routes answers with what the first route
  that accepts the request returns, where the static routes come first, in the order they
  were given, and the others follow in theirs; that answer says the route matched and carries
  exactly one of the two callables.
\<close>

theorem router_first_match:
  assumes "routable F R (make_router errs rs) m"
    and "filter isStaticRoute rs @ filter (\<lambda>r. \<not> isStaticRoute r) rs = pre @ r # post"
    and "\<forall>q \<in> set pre. \<not> accepts F R q m" and "accepts F R r m"
  shows "\<exists>x. getHandler F R B X (make_router errs rs) (Some m) = ok x \<and>
    route_handler F R r (Some m) = ok x \<and> rm_result x = RouteMatched \<and> one_callable x"
proof -
  have "ask_order (make_router errs rs) = pre @ r # post"
    using assms(2) by (simp add: ask_order_def make_router_eq)
  from getHandler_first [OF assms(1) this assms(3,4)]
  obtain x where "route_handler F R r (Some m) = ok x"
      "getHandler F R B X (make_router errs rs) (Some m) = ok x" by blast
  with dispatch.match_law [of F R r m x] assms(4) show ?thesis
    by (auto simp: accepts_def)
qed

text \<open>
  C20. No match: the router never fails to answer; it answers 405 when some route has the path
  and 404 when none has, with the error handler registered for that status, or without one a
  handler whose response has that status and no body.
\<close>

theorem router_fallback:
  assumes "routable F R (make_router errs rs) m" and "\<forall>r \<in> set rs. \<not> accepts F R r m"
    and "futures_law X" and "iobuf_law B"
  shows "getHandler F R B X (make_router errs rs) (Some m) = ok
    (if \<exists>r \<in> set rs. route_path F R r m
     then \<lparr>rm_result = MethodNotMatched, rm_handler = Some (case errs 405 of
              Some f \<Rightarrow> call_function f | None \<Rightarrow> (\<lambda>_. Completed 0 (ok (empty_response 405)))),
            rm_streamingHandler = None\<rparr>
     else \<lparr>rm_result = PathNotMatched, rm_handler = Some (case errs 404 of
              Some f \<Rightarrow> call_function f | None \<Rightarrow> (\<lambda>_. Completed 0 (ok (empty_response 404)))),
            rm_streamingHandler = None\<rparr>)"
proof -
  let ?rt = "make_router errs rs"
  have "set (ask_order ?rt) = set rs"
    by (auto simp: ask_order_def make_router_eq)
  then have "getHandler F R B X ?rt (Some m) = ok (fallback B X ?rt (\<exists>r \<in> set rs. route_path F R r m))"
    using getHandler_unmatched [OF assms(1), of B X] assms(2) by simp
  moreover have "rt_errorRoutes ?rt = errs"
    by (simp add: make_router_eq)
  ultimately show ?thesis
    by (cases "\<exists>r \<in> set rs. route_path F R r m")
       (simp_all add: fallback_def getErrorHandler_eq [OF assms(3,4)] ucast_codes cong: option.case_cong)
qed

text \<open>
  The best match wins: the result a router reports is the greatest of the results its routes
  would report one by one (no match of the path below a match of the path alone, below a full
  match), and no match of the path when it has no routes.
\<close>

theorem router_best_match:
  assumes "routable F R (make_router errs rs) m"
  shows "\<exists>x. getHandler F R B X (make_router errs rs) (Some m) = ok x \<and>
    rm_result x = Max (set (PathNotMatched # map (route_result F R m) rs))"
proof -
  let ?rt = "make_router errs rs" and ?all = "set (PathNotMatched # map (route_result F R m) rs)"
  have order: "set (ask_order ?rt) = set rs"
    by (auto simp: ask_order_def make_router_eq)
  then have res: "route_result F R m r = (if \<not> route_path F R r m then PathNotMatched
      else if accepts F R r m then RouteMatched else MethodNotMatched)" if "r \<in> set rs" for r
    using that assms by (intro route_result_eq) (simp add: routable_def)
  show ?thesis
  proof (cases "\<exists>r \<in> set (ask_order ?rt). accepts F R r m")
    case True
    then obtain pre r post where r: "ask_order ?rt = pre @ r # post"
        "\<forall>q \<in> set pre. \<not> accepts F R q m" "accepts F R r m"
      by (rule first_accepting)
    then obtain x where x: "route_handler F R r (Some m) = ok x" "getHandler F R B X ?rt (Some m) = ok x"
      using getHandler_first [OF assms] by blast
    have "r \<in> set rs" using r(1) order by auto
    with res [OF this] r(3) have "RouteMatched \<in> ?all"
      by (force simp: accepts_def)
    then have "Max ?all = RouteMatched"
      by (intro Max_eqI) (auto simp: RouteMatched_top)
    moreover have "rm_result x = RouteMatched"
      using dispatch.match_law [OF x(1)] r(3) by (simp add: accepts_def)
    ultimately show ?thesis using x(2) by simp
  next
    case False
    with order have none: "\<forall>r \<in> set rs. \<not> accepts F R r m" by simp
    have eq: "getHandler F R B X ?rt (Some m) = ok (fallback B X ?rt (\<exists>r \<in> set rs. route_path F R r m))"
      using getHandler_unmatched [OF assms False [simplified], of B X] order by simp
    have "Max ?all = (if \<exists>r \<in> set rs. route_path F R r m then MethodNotMatched else PathNotMatched)"
    proof (rule Max_eqI)
      show "(if \<exists>r \<in> set rs. route_path F R r m then MethodNotMatched else PathNotMatched) \<in> ?all"
        using res none by (auto simp: image_iff split: if_splits)
      show "y \<le> (if \<exists>r \<in> set rs. route_path F R r m then MethodNotMatched else PathNotMatched)"
        if "y \<in> ?all" for y
        using that res none by (auto simp: RouteMatchResult_order)
    qed simp
    with eq show ?thesis by (simp add: fallback_def)
  qed
qed

text \<open>
  The default error handler for a status that fits a 16-bit integer answers with that
  status; the parameter is an \<open>int\<close>, and others lose their upper half.
\<close>

theorem default_error_status:
  assumes "rt_errorRoutes rt code = None" and "futures_law X"
    and "- (2 ^ 15) \<le> sint code" and "sint code < 2 ^ 15"
  shows "\<exists>r. getErrorHandler B X rt code req = Completed 0 (ok r) \<and>
     sint (resp_status r) = sint code"
  using assms
  by (simp add: getErrorHandler_def futures_law_def HTTPResponse_status_def sint_narrow)

section \<open>Witnesses\<close>

definition ref_handler :: handler where
  "ref_handler req = Completed 0 (ok (empty_response 200))"

definition ref_static :: "unit route" where
  "ref_static = Static (make_static_route ''/hello'' {GET} (Some ref_handler))"

definition ref_regex_route :: "unit route" where
  "ref_regex_route = Regex \<lparr>rr_originalPattern = ''/bye'', rr_methods = {GET},
     rr_handler = Route_plain None, rr_args = [], rr_regex = ''/bye''\<rparr>"

definition ref_routes :: "unit route list" where
  "ref_routes = [ref_regex_route, ref_static]"

lemma ref_hello_path: "effective_path ref_folly (plain_message ''/hello'') = ''/hello''"
  by (simp add: effective_path_def unescaped_def plain_message_def ref_folly_def value_or_def)

lemma ref_hello_method: "effective_method (plain_message p) = GET"
  by (simp add: effective_method_def plain_message_def value_or_def)

lemma ref_routable: "routable ref_folly ref_regex (make_router errs ref_routes) m"
  by (simp add: routable_def ask_order_def make_router_eq ref_routes_def ref_static_def
      ref_regex_route_def addressable_total [OF ref_folly_laws(1)] match_bounded_def)
     (simp add: ref_regex_def)

lemma router_first_match_witness:
  "\<exists>x. getHandler ref_folly ref_regex ref_iobuf ref_futures (make_router (\<lambda>_. None) ref_routes)
        (Some (plain_message ''/hello'')) = ok x \<and>
     route_handler ref_folly ref_regex ref_static (Some (plain_message ''/hello'')) = ok x \<and>
     rm_result x = RouteMatched \<and> one_callable x"
  by (rule router_first_match [OF ref_routable, where pre = "[]" and post = "[ref_regex_route]"])
     (simp_all add: ref_routes_def ref_static_def ref_regex_route_def accepts_def ref_hello_path
       ref_hello_method make_static_route_def)

lemma router_fallback_witness:
  "getHandler ref_folly ref_regex ref_iobuf ref_futures (make_router (\<lambda>_. None) [ref_regex_route])
      (Some (plain_message ''/hello'')) = ok
    (if \<exists>r \<in> set [ref_regex_route]. route_path ref_folly ref_regex r (plain_message ''/hello'')
     then \<lparr>rm_result = MethodNotMatched, rm_handler = Some (case (\<lambda>_. None) (405 :: int32) of
              Some f \<Rightarrow> call_function f | None \<Rightarrow> (\<lambda>_. Completed 0 (ok (empty_response 405)))),
            rm_streamingHandler = None\<rparr>
     else \<lparr>rm_result = PathNotMatched, rm_handler = Some (case (\<lambda>_. None) (404 :: int32) of
              Some f \<Rightarrow> call_function f | None \<Rightarrow> (\<lambda>_. Completed 0 (ok (empty_response 404)))),
            rm_streamingHandler = None\<rparr>)"
proof (rule router_fallback [OF _ _ ref_futures_law ref_iobuf_law])
  show "routable ref_folly ref_regex (make_router (\<lambda>_. None) [ref_regex_route]) (plain_message ''/hello'')"
    by (simp add: routable_def ask_order_def make_router_eq
        ref_regex_route_def addressable_total [OF ref_folly_laws(1)] match_bounded_def)
       (simp add: ref_regex_def)
  show "\<forall>r \<in> set [ref_regex_route]. \<not> accepts ref_folly ref_regex r (plain_message ''/hello'')"
    by (simp add: accepts_def ref_regex_route_def regex_matches_def ref_hello_path)
       (simp add: ref_regex_def)
qed

lemma router_best_match_witness:
  "\<exists>x. getHandler ref_folly ref_regex ref_iobuf ref_futures (make_router (\<lambda>_. None) ref_routes)
        (Some (plain_message ''/hello'')) = ok x \<and>
    rm_result x = Max (set (PathNotMatched #
      map (route_result ref_folly ref_regex (plain_message ''/hello'')) ref_routes))"
  by (rule router_best_match [OF ref_routable])

lemma default_error_status_witness:
  "\<exists>r. getErrorHandler ref_iobuf ref_futures (make_router (\<lambda>_. None) [] :: unit router) 503 req
      = Completed 0 (ok r) \<and> sint (resp_status r) = sint (503 :: int32)"
  by (rule default_error_status [OF _ ref_futures_law]) (simp_all add: make_router_eq)

end
