(* ===== verification/Http_Handler.thy ===== *)
theory Http_Handler
  imports Router
begin

text \<open>
  \<open>src/HTTPHandler.h\<close> and \<open>src/HTTPHandler.cpp\<close>: the handler that collects a whole request,
  runs the user's handler with a time limit and error fallbacks, and sends the response. Its
  lifetime is the subject of \<open>Http_Connection\<close>.
\<close>

section \<open>State and callbacks\<close>

text \<open>The calls made on proxygen's \<open>ResponseBuilder\<close>, in order.\<close>

datatype builder_call =
    B_status int16 string
  | B_header string string
  | B_body iobuf
  | B_send
  | B_sendWithEOM

record 'h http_handler =
  hh_timeout :: int64
  hh_router :: "'h router"
  hh_handler :: "handler option"
  hh_body :: "iobuf option"
  hh_message :: "http_message option"
  hh_request :: "http_request option"
  hh_response :: "response_future option"

definition new_HTTPHandler ::
  "iobuf_lib \<Rightarrow> int64 \<Rightarrow> 'h router option \<Rightarrow> handler option \<Rightarrow> 'h http_handler outcome" where
  "new_HTTPHandler B timeout router handler = (case router of
       None \<Rightarrow> Inl (Abort (Check_failed ''router != nullptr''))
     | Some rt \<Rightarrow> ok \<lparr>hh_timeout = timeout, hh_router = rt, hh_handler = handler,
         hh_body = Some (io_create B 0), hh_message = None, hh_request = None, hh_response = None\<rparr>)"

definition sendResponse :: "iobuf_lib \<Rightarrow> http_response \<Rightarrow> builder_call list" where
  "sendResponse B response =
     [B_status (getStatusCode response) []] @
     map (\<lambda>(header, value). B_header header value) (snd (getHeaders response)) @
     [B_body (getBody B response), B_sendWithEOM]"

definition onRequest :: "'h http_handler \<Rightarrow> http_message option \<Rightarrow> 'h http_handler outcome" where
  "onRequest h headers = noexcept
     (bind (check (hh_message h = None) ''message_ == nullptr'')
       (\<lambda>_. ok (h\<lparr>hh_message := headers\<rparr>)))"

definition onBody :: "iobuf_lib \<Rightarrow> 'h http_handler \<Rightarrow> iobuf \<Rightarrow> 'h http_handler outcome" where
  "onBody B h body = (case hh_body h of
       None \<Rightarrow> Inl (Abort (Undefined_behaviour ''body_ is null''))
     | Some b \<Rightarrow> ok (h\<lparr>hh_body := Some (io_prependChain B b body)\<rparr>))"

definition http_onUpgrade :: "'h http_handler \<Rightarrow> string \<Rightarrow> 'h http_handler" where
  "http_onUpgrade h prot = h"

text \<open>The future of \<open>onEOM\<close> up to the callback that sends its value.\<close>

definition response_chain ::
  "iobuf_lib \<Rightarrow> futures_lib \<Rightarrow> int64 \<Rightarrow> 'h router \<Rightarrow> handler option \<Rightarrow> http_request \<Rightarrow> response_future" where
  "response_chain B X timeout router handler request =
     fu_onError X
       (fu_onTimeout X
         (fu_onError X
           (fu_via X (\<lambda>_. call_function handler request))
           (\<lambda>e. getErrorHandler B X router 500 request))
         timeout
         (\<lambda>_. getErrorHandler B X router 503 request))
       (\<lambda>e. fu_makeFuture X (HTTPResponse_text B 500 ''Unknown error''))"

definition onEOM ::
  "folly_lib \<Rightarrow> iobuf_lib \<Rightarrow> futures_lib \<Rightarrow> 'h http_handler \<Rightarrow> 'h http_handler outcome" where
  "onEOM F B X h = noexcept
     (bind (HTTPRequest F (hh_message h) (hh_body h)) (\<lambda>request.
       ok (h\<lparr>hh_message := None, hh_body := None, hh_request := Some request,
             hh_response := Some (response_chain B X (hh_timeout h) (hh_router h) (hh_handler h) request)\<rparr>)))"

text \<open>The \<open>then(evb, ...)\<close> callback runs on a value only.\<close>

definition sent :: "response_future \<Rightarrow> (nat \<times> http_response) option" where
  "sent c = (case c of Completed t (Inr r) \<Rightarrow> Some (t, r) | _ \<Rightarrow> None)"

section \<open>What the future becomes\<close>

text \<open>The scheduled call of the user's handler.\<close>

abbreviation scheduled :: "futures_lib \<Rightarrow> handler option \<Rightarrow> http_request \<Rightarrow> response_future" where
  "scheduled X handler request \<equiv> fu_via X (\<lambda>_. call_function handler request)"

lemma futures_simps [simp]:
  assumes "futures_law X"
  shows "fu_makeFuture X r = Completed 0 (ok r)" "fu_onError X c h = on_error_spec c h"
  using assms by (simp_all add: futures_law_def)

lemma onTimeout_law:
  assumes "futures_law X" and "0 < sint T"
  shows "fu_onTimeout X c T h = on_timeout_spec c (nat (sint T)) h \<or>
    expires_at c (nat (sint T)) \<and> fu_onTimeout X c T h = on_timeout_spec c (Suc (nat (sint T))) h"
  using assms unfolding futures_law_def Let_def by blast

lemma onTimeout_cases:
  assumes "futures_law X" and "0 < sint T"
  obtains (spec) "fu_onTimeout X c T h = on_timeout_spec c (nat (sint T)) h"
  | (tie) r where "c = Completed (nat (sint T)) r"
      "fu_onTimeout X c T h = on_timeout_spec c (Suc (nat (sint T))) h"
proof (cases "fu_onTimeout X c T h = on_timeout_spec c (nat (sint T)) h")
  case False
  with assms have tied: "expires_at c (nat (sint T))"
      "fu_onTimeout X c T h = on_timeout_spec c (Suc (nat (sint T))) h"
    using onTimeout_law [OF assms, of c h] by blast+
  then obtain r where "c = Completed (nat (sint T)) r"
    by (cases c) (simp_all add: expires_at_def)
  then show ?thesis using tied(2) by (rule tie)
qed (rule spec)

lemma onTimeout_in_time:
  assumes "futures_law X" and "0 < sint T" and "int t < sint T" and "r \<noteq> throw Timed_out"
  shows "fu_onTimeout X (Completed t r) T h = Completed t r"
  using assms(3,4) by (cases rule: onTimeout_cases [OF assms(1,2), of "Completed t r" h]) auto

definition late :: "response_future \<Rightarrow> int64 \<Rightarrow> bool" where
  "late c T \<longleftrightarrow> (case c of Never \<Rightarrow> True | Completed t r \<Rightarrow> sint T < int t)"

lemma onTimeout_late:
  assumes "futures_law X" and "0 < sint T" and "late c T"
  shows "fu_onTimeout X c T h = delay (nat (sint T)) (h ())"
  using assms(2,3)
  by (cases rule: onTimeout_cases [OF assms(1,2), of c h]; cases c) (auto simp: late_def)

text \<open>A future that settles: it completes, with a value or a standard exception.\<close>

definition settles_within :: "nat \<Rightarrow> response_future \<Rightarrow> bool" where
  "settles_within s c \<longleftrightarrow> (case c of Never \<Rightarrow> False | Completed t r \<Rightarrow> t \<le> s \<and> std_faults r)"

definition no_foreign :: "response_future \<Rightarrow> bool" where
  "no_foreign c \<longleftrightarrow> (case c of Never \<Rightarrow> True | Completed t r \<Rightarrow> std_faults r)"

lemma no_foreign_delay [simp]: "no_foreign (delay d c) = no_foreign c"
  by (cases c) (simp_all add: no_foreign_def)

lemma no_foreign_Completed [simp]: "no_foreign (Completed t r) = std_faults r"
  by (simp add: no_foreign_def)

lemma on_error_no_foreign:
  "no_foreign c \<Longrightarrow> (\<And>e. no_foreign (h e)) \<Longrightarrow> no_foreign (on_error_spec c h)"
  by (cases "(c, h)" rule: on_error_spec.cases)
     (auto simp: throws_only_def)

lemma on_timeout_settles:
  assumes "no_foreign c" and "settles_within s (h ())"
  shows "settles_within (d + s) (on_timeout_spec c d h)"
  using assms
  by (cases c; cases "h ()") (auto simp: no_foreign_def settles_within_def split: if_splits)

lemma settles_within_mono: "settles_within s c \<Longrightarrow> s \<le> s' \<Longrightarrow> settles_within s' c"
  by (auto simp: settles_within_def split: completion.splits)

lemma onTimeout_settles:
  assumes "futures_law X" and "0 < sint T" and "no_foreign c" and "settles_within s (h ())"
  shows "settles_within (nat (sint T) + s) (fu_onTimeout X c T h)"
proof (cases rule: onTimeout_cases [OF assms(1,2), of c h])
  case 1
  then show ?thesis
    using on_timeout_settles [of c s h, OF assms(3,4)] by metis
next
  case (2 r)
  then show ?thesis
    using assms(3,4) by (auto simp: no_foreign_def settles_within_def split: completion.splits)
qed

section \<open>The end of the message\<close>

lemma sendResponse_nonempty [simp]: "sendResponse B r \<noteq> []"
  by (simp add: sendResponse_def)

lemma onEOM_eq:
  assumes "unescape_law F" and "hh_message h = Some m" and "hh_body h = Some b"
  shows "onEOM F B X h = ok (h\<lparr>hh_message := None, hh_body := None,
      hh_request := Some \<lparr>req_message = m, req_body = b, req_path = effective_path F m,
        req_method = effective_method m\<rparr>,
      hh_response := Some (response_chain B X (hh_timeout h) (hh_router h) (hh_handler h)
        \<lparr>req_message = m, req_body = b, req_path = effective_path F m,
         req_method = effective_method m\<rparr>)\<rparr>)"
  using assms by (simp add: onEOM_def HTTPRequest_total)

section \<open>The chain, case by case\<close>

lemma scheduled_handler:
  assumes "futures_law X"
  shows "\<exists>d. scheduled X handler req = delay d (call_function handler req)"
  using assms unfolding futures_law_def by blast

definition unknown_error :: "iobuf_lib \<Rightarrow> http_response" where
  "unknown_error B = HTTPResponse_text B 500 ''Unknown error''"

text \<open>The last \<open>onError\<close>: a value stays, a standard exception becomes the plain 500 response.\<close>

fun last_resort :: "iobuf_lib \<Rightarrow> response_future \<Rightarrow> response_future" where
  "last_resort B (Completed t (Inl (Throw e))) =
     (if is_std e then Completed t (ok (unknown_error B)) else Completed t (throw e))"
| "last_resort B c = c"

lemma last_onError:
  "futures_law X \<Longrightarrow> fu_onError X c (\<lambda>e. fu_makeFuture X (HTTPResponse_text B 500 ''Unknown error''))
     = last_resort B c"
  by (cases "(B, c)" rule: last_resort.cases) (simp_all add: unknown_error_def)

lemma last_resort_delay: "last_resort B (delay d c) = delay d (last_resort B c)"
  by (cases "(B, c)" rule: last_resort.cases) simp_all

text \<open>A settled future followed by the last \<open>onError\<close> always has a response.\<close>

lemma last_resort_value:
  assumes "settles_within s c"
  shows "\<exists>t r. last_resort B c = Completed t (ok r) \<and> t \<le> s"
  using assms
  by (cases "(B, c)" rule: last_resort.cases) (auto simp: settles_within_def throws_only_def)

lemma response_chain_eq:
  assumes "futures_law X"
  shows "response_chain B X T rt handler req = last_resort B
    (fu_onTimeout X (on_error_spec (scheduled X handler req) (\<lambda>e. getErrorHandler B X rt 500 req)) T
       (\<lambda>_. getErrorHandler B X rt 503 req))"
  unfolding response_chain_def last_onError [OF assms] futures_simps(2) [OF assms] ..

lemma chain_in_time:
  assumes "futures_law X" and "0 < sint T"
    and "scheduled X handler req = Completed t (ok r)" and "int t < sint T"
  shows "response_chain B X T rt handler req = Completed t (ok r)"
  using onTimeout_in_time [OF assms(1,2,4), of "ok r"]
  by (simp add: response_chain_eq [OF assms(1)] assms(3))

text \<open>The error handlers of a router and the user's handler throw nothing but standard exceptions.\<close>

definition well_behaved :: "iobuf_lib \<Rightarrow> futures_lib \<Rightarrow> 'h router \<Rightarrow> handler option \<Rightarrow> http_request \<Rightarrow> bool" where
  "well_behaved B X rt handler req \<longleftrightarrow> no_foreign (call_function handler req) \<and>
     no_foreign (getErrorHandler B X rt 500 req)"

lemma chain_settles:
  assumes "futures_law X" and "0 < sint T" and "well_behaved B X rt handler req"
    and "settles_within s (getErrorHandler B X rt 503 req)"
  shows "\<exists>t r. response_chain B X T rt handler req = Completed t (ok r) \<and> t \<le> nat (sint T) + s"
proof -
  obtain d where "scheduled X handler req = delay d (call_function handler req)"
    using scheduled_handler [OF assms(1)] by blast
  then have "no_foreign (scheduled X handler req)"
    using assms(3) by (simp add: well_behaved_def)
  then have "no_foreign (on_error_spec (scheduled X handler req) (\<lambda>e. getErrorHandler B X rt 500 req))"
    using assms(3) by (intro on_error_no_foreign) (simp_all add: well_behaved_def)
  from onTimeout_settles [OF assms(1,2) this assms(4)]
  have "settles_within (nat (sint T) + s)
    (fu_onTimeout X (on_error_spec (scheduled X handler req) (\<lambda>e. getErrorHandler B X rt 500 req)) T
       (\<lambda>_. getErrorHandler B X rt 503 req))" .
  from last_resort_value [OF this] show ?thesis
    by (simp add: response_chain_eq [OF assms(1)])
qed

lemma default_handler_settles:
  assumes "futures_law X" and "rt_errorRoutes rt code = None"
  shows "settles_within 0 (getErrorHandler B X rt code req)"
    and "no_foreign (getErrorHandler B X rt code req)"
  using assms by (simp_all add: getErrorHandler_def settles_within_def throws_only_def)

lemma chain_late:
  assumes "futures_law X" and "iobuf_law B" and "0 < sint T"
    and "late (scheduled X handler req) T"
  shows "response_chain B X T rt handler req = delay (nat (sint T)) (last_resort B
    (case rt_errorRoutes rt 503 of None \<Rightarrow> Completed 0 (ok (empty_response 503))
     | Some f \<Rightarrow> call_function f req))"
proof -
  have "late (on_error_spec (scheduled X handler req) (\<lambda>e. getErrorHandler B X rt 500 req)) T"
  proof (cases "(scheduled X handler req, \<lambda>e :: exn. getErrorHandler B X rt 500 req)" rule: on_error_spec.cases)
    case (1 t e h)
    with assms(4) show ?thesis
      by (cases "getErrorHandler B X rt 500 req") (auto simp: late_def)
  qed (use assms(4) in \<open>auto simp: late_def\<close>)
  from onTimeout_late [OF assms(1,3) this]
  have "fu_onTimeout X (on_error_spec (scheduled X handler req) (\<lambda>e. getErrorHandler B X rt 500 req)) T
      (\<lambda>_. getErrorHandler B X rt 503 req) = delay (nat (sint T)) (getErrorHandler B X rt 503 req)" .
  moreover have "getErrorHandler B X rt 503 req = (case rt_errorRoutes rt 503 of
      None \<Rightarrow> Completed 0 (ok (empty_response 503)) | Some f \<Rightarrow> call_function f req)"
    by (simp add: getErrorHandler_eq [OF assms(1,2)] ucast_codes split: option.split)
  ultimately show ?thesis
    by (simp only: response_chain_eq [OF assms(1)] last_resort_delay)
qed

section \<open>Properties\<close>

text \<open>
  A handler that completes in time: if the scheduled call of the user's handler completes
  with a response before the timeout, that response is what is sent, at that time.
\<close>

theorem handler_success:
  assumes "unescape_law F" and "futures_law X" and "0 < sint (hh_timeout h)"
    and "hh_message h = Some m" and "hh_body h = Some b"
    and "onEOM F B X h = ok h'" and "hh_request h' = Some req"
    and "scheduled X (hh_handler h) req = Completed t (ok r)" and "int t < sint (hh_timeout h)"
  shows "\<exists>c. hh_response h' = Some c \<and> sent c = Some (t, r)"
proof -
  from onEOM_eq [OF assms(1,4,5), of B X] assms(6,7)
  have "hh_response h' = Some (response_chain B X (hh_timeout h) (hh_router h) (hh_handler h) req)"
    by auto
  with chain_in_time [OF assms(2,3,8,9), of B "hh_router h"] show ?thesis
    by (simp add: sent_def)
qed

text \<open>
  C22. A handler that fails in time with a standard exception: the router's error handler for 500
  takes over, if it completes before the timeout its response is sent, and without a
  registered one the response is an empty 500.
\<close>

theorem handler_failure:
  assumes "futures_law X" and "iobuf_law B" and "0 < sint T"
    and "scheduled X handler req = Completed t (throw e)" and "is_std e"
    and "case rt_errorRoutes rt 500 of None \<Rightarrow> d = 0 \<and> r = empty_response 500
         | Some f \<Rightarrow> call_function f req = Completed d (ok r)"
    and "int (t + d) < sint T"
  shows "response_chain B X T rt handler req = Completed (t + d) (ok r)"
proof -
  have "getErrorHandler B X rt 500 req = Completed d (ok r)"
    using assms(6) by (auto simp: getErrorHandler_eq [OF assms(1,2)] ucast_codes split: option.splits)
  with assms(4,5) have "on_error_spec (scheduled X handler req) (\<lambda>e. getErrorHandler B X rt 500 req)
      = Completed (t + d) (ok r)"
    by simp
  then show ?thesis
    using onTimeout_in_time [OF assms(1,3,7), of "ok r"] by (simp add: response_chain_eq [OF assms(1)])
qed

text \<open>
  C21. A handler that does not complete within the timeout, or never: at the timeout the router's
  error handler for 503 answers, and without a registered one the response is an empty 503;
  what the user's handler returns later is dropped.
\<close>

theorem handler_timeout:
  assumes "futures_law X" and "iobuf_law B" and "0 < sint T"
    and "late (scheduled X handler req) T"
  shows "response_chain B X T rt handler req = delay (nat (sint T)) (last_resort B
    (case rt_errorRoutes rt 503 of None \<Rightarrow> Completed 0 (ok (empty_response 503))
     | Some f \<Rightarrow> call_function f req))"
  by (rule chain_late [OF assms])

text \<open>
  C4. A response is sent in bounded time: whatever the user's handler does (it may throw, never
  complete, or be null), if neither it nor the router's handler for 500 throws anything but
  standard exceptions, and the router's handler for 503 settles within \<open>s\<close> with a response or a
  standard exception, a response is ready no later than the timeout plus \<open>s\<close>, which is 0 for the
  default 503 handler.
\<close>

theorem handler_always_answers:
  assumes "futures_law X" and "0 < sint T" and "well_behaved B X rt handler req"
    and "settles_within s (getErrorHandler B X rt 503 req)"
  shows "\<exists>t r. sent (response_chain B X T rt handler req) = Some (t, r) \<and> t \<le> nat (sint T) + s"
  using chain_settles [OF assms] by (auto simp: sent_def)

text \<open>
  An exception that does not derive from \<open>std::exception\<close>, thrown by the handler in time,
  passes all three \<open>onError\<close> stages: nothing is ever sent for the request.
\<close>

theorem foreign_exception_silent:
  assumes "futures_law X" and "0 < sint T"
    and "scheduled X handler req = Completed t (throw Non_std)" and "int t < sint T"
  shows "sent (response_chain B X T rt handler req) = None"
  using assms onTimeout_in_time [OF assms(1,2,4), of "throw Non_std"]
  by (simp add: response_chain_eq sent_def)

section \<open>Witnesses\<close>

abbreviation ref_router :: "unit router" where
  "ref_router \<equiv> make_router (\<lambda>_. None) ref_routes"

definition ref_request :: http_request where
  "ref_request = \<lparr>req_message = plain_message ''/hello'', req_body = [[]], req_path = ''/hello'',
     req_method = GET\<rparr>"

definition ref_http_handler :: "unit http_handler" where
  "ref_http_handler = \<lparr>hh_timeout = 30000, hh_router = ref_router, hh_handler = Some ref_handler,
     hh_body = Some [[]], hh_message = Some (plain_message ''/hello''), hh_request = None, hh_response = None\<rparr>"

definition ref_http_handler_done :: "unit http_handler" where
  "ref_http_handler_done = ref_http_handler\<lparr>hh_message := None, hh_body := None,
     hh_request := Some ref_request,
     hh_response := Some (response_chain ref_iobuf ref_futures 30000 ref_router (Some ref_handler) ref_request)\<rparr>"

lemma ref_scheduled: "fu_via ref_futures f = f ()"
  by (simp add: ref_futures_def)

lemma ref_no_errors: "rt_errorRoutes ref_router code = None"
  by (simp add: make_router_eq)

lemma ref_onEOM: "onEOM ref_folly ref_iobuf ref_futures ref_http_handler = ok ref_http_handler_done"
proof -
  have "hh_message ref_http_handler = Some (plain_message ''/hello'')" "hh_body ref_http_handler = Some [[]]"
    by (simp_all add: ref_http_handler_def)
  from onEOM_eq [OF ref_folly_laws(1) this] show ?thesis
    by (simp add: ref_http_handler_done_def ref_request_def ref_hello_path ref_hello_method ref_http_handler_def)
qed

lemma handler_success_witness:
  "\<exists>c. hh_response ref_http_handler_done = Some c \<and> sent c = Some (0, empty_response 200)"
  by (rule handler_success [OF ref_folly_laws(1) ref_futures_law _ _ _ ref_onEOM])
     (simp_all add: ref_http_handler_done_def ref_http_handler_def ref_scheduled call_function_def ref_handler_def)

lemma handler_failure_witness:
  "response_chain ref_iobuf ref_futures 30000 ref_router
     (Some (\<lambda>_. Completed 5 (throw (Runtime_error ''broken'')))) ref_request
   = Completed (5 + 0) (ok (empty_response 500))"
  by (rule handler_failure [OF ref_futures_law ref_iobuf_law, where e = "Runtime_error ''broken''"])
     (simp_all add: ref_scheduled call_function_def ref_no_errors)

lemma handler_timeout_witness:
  "response_chain ref_iobuf ref_futures 30000 ref_router (Some (\<lambda>_. Never)) ref_request
   = delay (nat (sint (30000 :: int64))) (last_resort ref_iobuf
      (case rt_errorRoutes ref_router 503 of None \<Rightarrow> Completed 0 (ok (empty_response 503))
       | Some f \<Rightarrow> call_function f ref_request))"
  by (rule handler_timeout [OF ref_futures_law ref_iobuf_law])
     (simp_all add: ref_scheduled call_function_def late_def)

lemma ref_behaved:
  "no_foreign (call_function handler req) \<Longrightarrow> well_behaved ref_iobuf ref_futures ref_router handler req"
  by (simp add: well_behaved_def default_handler_settles(2) [OF ref_futures_law ref_no_errors])

lemma handler_always_answers_witness:
  "\<exists>t r. sent (response_chain ref_iobuf ref_futures 30000 ref_router (Some (\<lambda>_. Never)) ref_request) = Some (t, r) \<and>
     t \<le> nat (sint (30000 :: int64)) + 0"
  by (rule handler_always_answers [OF ref_futures_law _ ref_behaved
        default_handler_settles(1) [OF ref_futures_law ref_no_errors]])
     (simp_all add: call_function_def no_foreign_def)

lemma foreign_exception_silent_witness:
  "sent (response_chain ref_iobuf ref_futures 30000 ref_router
     (Some (\<lambda>_. Completed 5 (throw Non_std))) ref_request) = None"
  by (rule foreign_exception_silent [OF ref_futures_law, where t = 5])
     (simp_all add: ref_scheduled call_function_def)

end
