(* ===== verification/Streaming_Handler.thy ===== *)
theory Streaming_Handler
  imports Http_Handler
begin

text \<open>
  \<open>src/StreamingHTTPHandler.h\<close> and \<open>src/StreamingHTTPHandler-inl.h\<close>: the base class of the
  streaming handlers. Its operations do not touch the connection themselves: each posts a
  task to the event base, which runs the tasks in order. A derived class extends the record
  and supplies the virtual functions.
\<close>

section \<open>State\<close>

type_synonym event_base = nat

text \<open>The lambdas given to \<open>runInEventBaseThread\<close>.\<close>

datatype task = Calls "builder_call list" | Delete_this

record stream_handler =
  sh_downstream :: bool
  sh_evb :: "event_base option"
  sh_responseBuilder :: bool
  sh_sentHeaders :: bool
  sh_posted :: "task list"

record 's virtuals =
  v_onRequestReceived :: "'s \<Rightarrow> http_request \<Rightarrow> 's outcome"
  v_onRequestComplete :: "'s \<Rightarrow> 's outcome"
  v_onUnhandledError :: "'s \<Rightarrow> string \<Rightarrow> 's outcome"

text \<open>Posting a task dereferences \<open>evb_\<close>.\<close>

definition runInEventBaseThread :: "'z stream_handler_scheme \<Rightarrow> task \<Rightarrow> 'z stream_handler_scheme outcome" where
  "runInEventBaseThread h task = (case sh_evb h of
       None \<Rightarrow> Inl (Abort (Undefined_behaviour ''evb_ is null''))
     | Some _ \<Rightarrow> ok (h\<lparr>sh_posted := sh_posted h @ [task]\<rparr>))"

section \<open>proxygen's callbacks\<close>

text \<open>\<open>current\<close> is the event base of the calling thread, as the \<open>EventBaseManager\<close> tells it.\<close>

definition streaming_onRequest ::
  "folly_lib \<Rightarrow> iobuf_lib \<Rightarrow> ('z stream_handler_scheme) virtuals \<Rightarrow> event_base
     \<Rightarrow> 'z stream_handler_scheme \<Rightarrow> http_message option \<Rightarrow> 'z stream_handler_scheme outcome" where
  "streaming_onRequest F B V current h headers = noexcept
     (bind (check (sh_downstream h) ''downstream_ != nullptr'') (\<lambda>_.
      let h = (if sh_evb h = None then h\<lparr>sh_evb := Some current\<rparr> else h);
          h = h\<lparr>sh_responseBuilder := True\<rparr> in
      bind (HTTPRequest F headers (Some (io_create B 0))) (\<lambda>request.
      v_onRequestReceived V h request)))"

definition onUpgrade :: "'z stream_handler_scheme \<Rightarrow> string \<Rightarrow> 'z stream_handler_scheme" where
  "onUpgrade h prot = h"

definition streaming_requestComplete ::
  "('z stream_handler_scheme) virtuals \<Rightarrow> 'z stream_handler_scheme \<Rightarrow> 'z stream_handler_scheme outcome" where
  "streaming_requestComplete V h = noexcept
     (bind (v_onRequestComplete V h) (\<lambda>h. runInEventBaseThread h Delete_this))"

definition streaming_onError ::
  "('z stream_handler_scheme) virtuals \<Rightarrow> 'z stream_handler_scheme \<Rightarrow> string \<Rightarrow> 'z stream_handler_scheme outcome" where
  "streaming_onError V h err = noexcept
     (bind (v_onUnhandledError V h err) (\<lambda>h. runInEventBaseThread h Delete_this))"

section \<open>Sending\<close>

definition header_calls :: "iobuf_lib \<Rightarrow> http_response \<Rightarrow> builder_call list" where
  "header_calls B response =
     [B_status (getStatusCode response) []] @
     map (\<lambda>(header, value). B_header header value) (snd (getHeaders response)) @
     (let body = getBody B response in
      if io_length B body \<noteq> 0 then [B_body (getBody B response)] else []) @
     [B_send]"

definition sendResponseHeaders ::
  "iobuf_lib \<Rightarrow> 'z stream_handler_scheme \<Rightarrow> http_response \<Rightarrow> 'z stream_handler_scheme outcome" where
  "sendResponseHeaders B h response = noexcept
     (bind (check (sh_evb h \<noteq> None) ''evb_ != nullptr'') (\<lambda>_.
      bind (check (sh_sentHeaders h = False) ''sentHeaders_ == false'') (\<lambda>_.
      runInEventBaseThread (h\<lparr>sh_sentHeaders := True\<rparr>) (Calls (header_calls B response)))))"

definition sendBody ::
  "iobuf_lib \<Rightarrow> 'z stream_handler_scheme \<Rightarrow> iobuf \<Rightarrow> 'z stream_handler_scheme outcome" where
  "sendBody B h data = noexcept
     (bind (check (sh_evb h \<noteq> None) ''evb_ != nullptr'') (\<lambda>_.
      bind (check (sh_sentHeaders h) ''sentHeaders_'') (\<lambda>_.
      if io_length B data = 0 then ok h
      else runInEventBaseThread h (Calls [B_body data, B_send]))))"

definition sendEOF :: "'z stream_handler_scheme \<Rightarrow> 'z stream_handler_scheme outcome" where
  "sendEOF h = noexcept
     (bind (check (sh_evb h \<noteq> None) ''evb_ != nullptr'') (\<lambda>_.
      bind (check (sh_sentHeaders h) ''sentHeaders_'') (\<lambda>_.
      runInEventBaseThread h (Calls [B_sendWithEOM]))))"

section \<open>Running the tasks\<close>

text \<open>
  What the posted tasks do to the connection, in the order they were posted. The flags say
  whether \<open>responseBuilder_\<close> is set and whether the handler has not been deleted yet.
\<close>

fun run_tasks :: "bool \<Rightarrow> bool \<Rightarrow> builder_call list \<Rightarrow> task list \<Rightarrow> builder_call list outcome" where
  "run_tasks builder alive wire [] = ok wire"
| "run_tasks builder alive wire (Calls calls # ts) =
     (if \<not> alive then Inl (Abort (Undefined_behaviour ''use of a deleted handler''))
      else if \<not> builder then Inl (Abort (Undefined_behaviour ''responseBuilder_ is null''))
      else run_tasks builder alive (wire @ calls) ts)"
| "run_tasks builder alive wire (Delete_this # ts) =
     (if alive then run_tasks builder False wire ts
      else Inl (Abort (Undefined_behaviour ''double delete'')))"

definition wire_of :: "'z stream_handler_scheme \<Rightarrow> builder_call list outcome" where
  "wire_of h = run_tasks (sh_responseBuilder h) True [] (sh_posted h)"

section \<open>The protocol of a response\<close>

text \<open>
  What a response builder accepts: the status, headers, perhaps a body, \<open>send\<close>; then any
  number of bodies, each sent; then \<open>sendWithEOM\<close>, after which nothing may follow.
\<close>

datatype progress = Fresh | Heading | Headed | Streaming_body | Chunk | Finished

fun builder_step :: "progress \<Rightarrow> builder_call \<Rightarrow> progress option" where
  "builder_step Fresh (B_status c m) = Some Heading"
| "builder_step Heading (B_header k v) = Some Heading"
| "builder_step Heading (B_body b) = Some Headed"
| "builder_step Heading B_send = Some Streaming_body"
| "builder_step Heading B_sendWithEOM = Some Finished"
| "builder_step Headed B_send = Some Streaming_body"
| "builder_step Headed B_sendWithEOM = Some Finished"
| "builder_step Streaming_body (B_body b) = Some Chunk"
| "builder_step Streaming_body B_sendWithEOM = Some Finished"
| "builder_step Chunk B_send = Some Streaming_body"
| "builder_step _ _ = None"

fun builder_run :: "progress \<Rightarrow> builder_call list \<Rightarrow> progress option" where
  "builder_run s [] = Some s"
| "builder_run s (c # cs) = (case builder_step s c of None \<Rightarrow> None | Some s' \<Rightarrow> builder_run s' cs)"

fun body_bytes :: "builder_call list \<Rightarrow> string" where
  "body_bytes [] = []"
| "body_bytes (B_body b # cs) = concat b @ body_bytes cs"
| "body_bytes (_ # cs) = body_bytes cs"

fun status_sent :: "builder_call list \<Rightarrow> int16 option" where
  "status_sent [] = None"
| "status_sent (B_status c m # cs) = Some c"
| "status_sent (_ # cs) = status_sent cs"

lemma builder_run_append:
  "builder_run s (xs @ ys) = (case builder_run s xs of None \<Rightarrow> None | Some s' \<Rightarrow> builder_run s' ys)"
  by (induction xs arbitrary: s) (auto split: option.splits)

lemma body_bytes_append [wire_simps]: "body_bytes (xs @ ys) = body_bytes xs @ body_bytes ys"
  by (induction xs rule: body_bytes.induct) simp_all

lemma status_sent_append:
  "status_sent (xs @ ys) = (case status_sent xs of None \<Rightarrow> status_sent ys | Some c \<Rightarrow> Some c)"
  by (induction xs rule: status_sent.induct) simp_all

lemma builder_headers [simp]:
  "builder_run Heading (map (\<lambda>(k, v). B_header k v) hs @ cs) = builder_run Heading cs"
  "body_bytes (map (\<lambda>(k, v). B_header k v) hs @ cs) = body_bytes cs"
  by (induction hs) auto

text \<open>The whole response of an ordinary handler keeps the same protocol.\<close>

lemma sendResponse_protocol: "builder_run Fresh (sendResponse B r) = Some Finished"
  by (simp add: sendResponse_def)

lemma sendResponse_contents:
  "iobuf_law B \<Longrightarrow> status_sent (sendResponse B r) = Some (resp_status r) \<and>
     body_bytes (sendResponse B r) = concat (resp_body r)"
  by (simp add: sendResponse_def getStatusCode_def getBody_def iobuf_law_def)

lemma header_calls_run [wire_simps]:
  "builder_run Fresh (header_calls B r) = Some Streaming_body"
  by (simp add: header_calls_def Let_def)

lemma header_calls_bytes [wire_simps]:
  "iobuf_law B \<Longrightarrow> body_bytes (header_calls B r) =
     (if io_length B (resp_body r) = 0 then [] else concat (resp_body r))"
  by (simp add: header_calls_def Let_def getBody_def iobuf_law_def)

lemma header_calls_status [wire_simps]:
  "status_sent (header_calls B r) = Some (resp_status r)"
  by (simp add: header_calls_def getStatusCode_def)

section \<open>The interface the derived classes use\<close>

text \<open>
  A response stream: headers once, then bodies, then the end. \<open>payload\<close> is what has been sent
  as body bytes so far.
\<close>

locale response_stream =
  fixes open_headers :: "'s \<Rightarrow> http_response \<Rightarrow> 's outcome"
    and send_body :: "'s \<Rightarrow> iobuf \<Rightarrow> 's outcome"
    and send_eof :: "'s \<Rightarrow> 's outcome"
    and idle :: "'s \<Rightarrow> bool" and streaming :: "'s \<Rightarrow> int16 \<Rightarrow> string \<Rightarrow> bool"
    and finished :: "'s \<Rightarrow> int16 \<Rightarrow> string \<Rightarrow> bool"
    and head_payload :: "http_response \<Rightarrow> string"
  assumes headers_stream: "idle s \<Longrightarrow>
      \<exists>s'. open_headers s r = ok s' \<and> streaming s' (resp_status r) (head_payload r)"
    and body_stream: "streaming s c p \<Longrightarrow>
      \<exists>s'. send_body s [seg] = ok s' \<and> streaming s' c (p @ seg)"
    and eof_stream: "streaming s c p \<Longrightarrow> \<exists>s'. send_eof s = ok s' \<and> finished s' c p"
begin

lemma bodies_stream:
  "streaming s c p \<Longrightarrow>
   \<exists>s'. fold_outcome send_body s (map (\<lambda>seg. [seg]) segs) = ok s' \<and> streaming s' c (p @ concat segs)"
proof (induction segs arbitrary: s p)
  case (Cons seg segs)
  then obtain s1 where "send_body s [seg] = ok s1" "streaming s1 c (p @ seg)"
    using body_stream by blast
  with Cons.IH [of s1 "p @ seg"] show ?case by auto
qed simp

lemma answer_stream:
  assumes "idle s"
  shows "\<exists>s'. bind (open_headers s r) send_eof = ok s' \<and> finished s' (resp_status r) (head_payload r)"
proof -
  obtain s1 where "open_headers s r = ok s1" "streaming s1 (resp_status r) (head_payload r)"
    using headers_stream [OF assms] by blast
  with eof_stream show ?thesis by fastforce
qed

lemma whole_stream:
  assumes "idle s"
  shows "\<exists>s'. bind (open_headers s r) (\<lambda>s. bind (fold_outcome send_body s (map (\<lambda>seg. [seg]) segs)) send_eof) = ok s'
    \<and> finished s' (resp_status r) (head_payload r @ concat segs)"
proof -
  obtain s1 where s1: "open_headers s r = ok s1" "streaming s1 (resp_status r) (head_payload r)"
    using headers_stream [OF assms] by blast
  then obtain s2 where "fold_outcome send_body s1 (map (\<lambda>seg. [seg]) segs) = ok s2"
      "streaming s2 (resp_status r) (head_payload r @ concat segs)"
    using bodies_stream by blast
  with s1 eof_stream show ?thesis by fastforce
qed

end

section \<open>The base class keeps the interface\<close>

definition can_answer :: "'z stream_handler_scheme \<Rightarrow> bool" where
  "can_answer h \<longleftrightarrow>
     sh_evb h \<noteq> None \<and> sh_responseBuilder h \<and> \<not> sh_sentHeaders h \<and> sh_posted h = []"

text \<open>
  \<open>in_state s h c p\<close>: the tasks posted so far are accepted up to \<open>s\<close>, carry the status \<open>c\<close> and
  the body bytes \<open>p\<close>, and the handler has not been deleted.
\<close>

definition in_state :: "progress \<Rightarrow> 'z stream_handler_scheme \<Rightarrow> int16 \<Rightarrow> string \<Rightarrow> bool" where
  "in_state s h c p \<longleftrightarrow> sh_evb h \<noteq> None \<and> sh_responseBuilder h \<and> sh_sentHeaders h \<and>
     Delete_this \<notin> set (sh_posted h) \<and>
     (\<exists>w. wire_of h = ok w \<and> builder_run Fresh w = Some s \<and> status_sent w = Some c \<and> body_bytes w = p)"

lemma run_tasks_append:
  "Delete_this \<notin> set ts \<Longrightarrow>
   run_tasks b True wire (ts @ us) = bind (run_tasks b True wire ts) (\<lambda>w. run_tasks b True w us)"
  by (induction b True wire ts rule: run_tasks.induct) simp_all

definition head_bytes :: "iobuf_lib \<Rightarrow> http_response \<Rightarrow> string" where
  "head_bytes B r = (if io_length B (resp_body r) = 0 then [] else concat (resp_body r))"

lemmas posting_defs = runInEventBaseThread_def in_state_def wire_of_def

lemmas run_appends = run_tasks_append builder_run_append status_sent_append body_bytes_append

lemma sendResponseHeaders_stream:
  assumes "iobuf_law B" and "can_answer h"
  shows "\<exists>h'. sendResponseHeaders B h r = ok h' \<and>
    in_state Streaming_body h' (resp_status r) (head_bytes B r)"
  using assms
  by (auto simp: sendResponseHeaders_def can_answer_def posting_defs head_bytes_def wire_simps)

lemma sendBody_stream:
  assumes "iobuf_law B" and "in_state Streaming_body h c p"
  shows "\<exists>h'. sendBody B h [seg] = ok h' \<and> in_state Streaming_body h' c (p @ seg)"
proof (cases "seg = []")
  case True
  with assms show ?thesis
    by (simp add: sendBody_def iobuf_law_def in_state_def)
next
  case False
  with assms show ?thesis
    by (auto simp: sendBody_def iobuf_law_def posting_defs run_appends)
qed

lemma sendEOF_stream:
  assumes "in_state Streaming_body h c p"
  shows "\<exists>h'. sendEOF h = ok h' \<and> in_state Finished h' c p"
  using assms by (auto simp: sendEOF_def posting_defs run_appends)

interpretation stream: response_stream "sendResponseHeaders B" "sendBody B" sendEOF
  "\<lambda>h. iobuf_law B \<and> can_answer h" "\<lambda>h c p. iobuf_law B \<and> in_state Streaming_body h c p"
  "in_state Finished" "head_bytes B"
  for B
  by unfold_locales (auto dest: sendResponseHeaders_stream sendBody_stream sendEOF_stream)

text \<open>A handler as its constructor leaves it, and one that has a connection.\<close>

definition StreamingHTTPHandler :: "event_base option \<Rightarrow> stream_handler" where
  "StreamingHTTPHandler evb =
     \<lparr>sh_downstream = False, sh_evb = evb, sh_responseBuilder = False, sh_sentHeaders = False,
      sh_posted = []\<rparr>"

lemma finished_wire:
  assumes "in_state Finished h c p"
  obtains w where "wire_of h = ok w" and "builder_run Fresh w = Some Finished"
    and "status_sent w = Some c" and "body_bytes w = p"
  using assms by (auto simp: in_state_def)

section \<open>Properties\<close>


definition ref_stream :: stream_handler where
  "ref_stream = \<lparr>sh_downstream = True, sh_evb = Some 0, sh_responseBuilder = True,
     sh_sentHeaders = False, sh_posted = []\<rparr>"


text \<open>
  A buffer chain whose head segment is empty is dropped by \<open>sendBody\<close>, whatever the rest of
  the chain holds: the test for an empty body looks at \<open>length()\<close>, the length of the head
  alone, so no task is posted and nothing reaches the client.
\<close>

theorem sendBody_drops_chain:
  assumes "iobuf_law B" and "sh_evb h \<noteq> None" and "sh_sentHeaders h"
  shows "sendBody B h ([] # rest) = ok h"
  using assms by (simp add: sendBody_def iobuf_law_def)

lemma sendBody_drops_chain_witness:
  "sendBody ref_iobuf (ref_stream\<lparr>sh_sentHeaders := True\<rparr>) ([] # [''lost'']) =
     ok (ref_stream\<lparr>sh_sentHeaders := True\<rparr>)"
  by (rule sendBody_drops_chain [OF ref_iobuf_law]) (simp_all add: ref_stream_def)

text \<open>
  \<open>onError\<close> posts the deletion behind everything sent before, so that still goes out whole;
  but a handler that sends anything afterwards makes the event base run a task on the deleted
  object.
\<close>

theorem streaming_delete_order:
  assumes "iobuf_law B" and "in_state s h c p" and "v_onUnhandledError V h err = ok h"
  shows "\<exists>h' w. streaming_onError V h err = ok h' \<and> wire_of h = ok w \<and> wire_of h' = ok w \<and>
    (\<forall>data h''. io_length B data \<noteq> 0 \<longrightarrow> sendBody B h' data = ok h'' \<longrightarrow>
       wire_of h'' = Inl (Abort (Undefined_behaviour ''use of a deleted handler'')))"
  using assms
  by (auto simp: streaming_onError_def posting_defs run_appends sendBody_def)

definition silent :: "'s virtuals" where
  "silent = \<lparr>v_onRequestReceived = (\<lambda>h _. ok h), v_onRequestComplete = ok, v_onUnhandledError = (\<lambda>h _. ok h)\<rparr>"

definition ref_started :: stream_handler where
  "ref_started = ref_stream\<lparr>sh_sentHeaders := True, sh_posted := [Calls [B_status 200 [], B_send]]\<rparr>"

lemma streaming_delete_order_witness:
  "\<exists>h' w. streaming_onError silent ref_started ''timeout'' = ok h' \<and>
    wire_of ref_started = ok w \<and> wire_of h' = ok w \<and>
    (\<forall>data h''. io_length ref_iobuf data \<noteq> 0 \<longrightarrow> sendBody ref_iobuf h' data = ok h'' \<longrightarrow>
       wire_of h'' = Inl (Abort (Undefined_behaviour ''use of a deleted handler'')))"
  by (rule streaming_delete_order [OF ref_iobuf_law, where s = Streaming_body and c = 200 and p = "[]"])
     (simp_all add: ref_started_def ref_stream_def silent_def posting_defs)

end
