(* ===== verification/Paths.thy ===== *)
theory Paths
  imports Libraries
begin

text \<open>
  boost::filesystem, \<open>std::ifstream\<close> and the C time functions, as the sources use them. A
  \<open>path\<close> is its native string. The stream is modelled (it is of the standard library); what
  the file system holds is a parameter.
\<close>

section \<open>Input streams\<close>

text \<open>
  What is left to read, the state bits, and how many reads of the device succeed before one
  fails (\<open>None\<close>: all of them).
\<close>

record ifstream =
  in_rest :: string
  in_eof :: bool
  in_fail :: bool
  in_bad :: bool
  in_reads :: "nat option"

definition good :: "ifstream \<Rightarrow> bool" where
  "good fin \<longleftrightarrow> \<not> in_eof fin \<and> \<not> in_fail fin \<and> \<not> in_bad fin"

text \<open>
  \<open>read(buf, n)\<close> with \<open>gcount()\<close>: on a stream that is not good it only sets \<open>failbit\<close>; a read
  that comes up short sets \<open>eofbit\<close> and \<open>failbit\<close>; a device error sets \<open>badbit\<close>.
\<close>

definition stream_read :: "ifstream \<Rightarrow> nat \<Rightarrow> string \<times> ifstream" where
  "stream_read fin n =
     (if \<not> good fin then ([], fin\<lparr>in_fail := True\<rparr>)
      else if in_reads fin = Some 0 then ([], fin\<lparr>in_bad := True\<rparr>)
      else (take n (in_rest fin),
        fin\<lparr>in_rest := drop n (in_rest fin),
            in_eof := length (in_rest fin) < n, in_fail := length (in_rest fin) < n,
            in_reads := map_option (\<lambda>k. k - 1) (in_reads fin)\<rparr>))"

definition opened :: "string \<Rightarrow> ifstream" where
  "opened content =
     \<lparr>in_rest = content, in_eof = False, in_fail = False, in_bad = False, in_reads = None\<rparr>"

section \<open>The file system\<close>

type_synonym path = string

record fs_lib =
  fs_components :: "path \<Rightarrow> string list"
  fs_append :: "path \<Rightarrow> path \<Rightarrow> path"
  fs_remove_filename :: "path \<Rightarrow> path"
  fs_canonical :: "path \<Rightarrow> path outcome"
  fs_is_symlink :: "path \<Rightarrow> bool outcome"
  fs_read_symlink :: "path \<Rightarrow> path outcome"
  fs_is_directory :: "path \<Rightarrow> bool outcome"
  fs_is_regular_file :: "path \<Rightarrow> bool outcome"
  fs_last_write_time :: "path \<Rightarrow> int64 option"
  fs_open :: "path \<Rightarrow> ifstream"

text \<open>\<open>strptime\<close> and \<open>mktime\<close>.\<close>

typedecl tm

record time_lib =
  tm_strptime :: "string \<Rightarrow> string \<Rightarrow> tm option"
  tm_mktime :: "tm \<Rightarrow> int64"

text \<open>
  Iterating over a path yields its components (a leading \<open>/\<close> is one). On paths made of plain
  names behind an optional leading slash: appending a name adds a component,
  \<open>remove_filename\<close> removes the last one, and appending such a path to a non-empty one other than
  the root directory adds its components but for a leading \<open>/\<close> (boost's version 3 paths: an
  absolute right operand does not replace the left one), or a dot for the root directory alone.
\<close>

definition plain_name :: "string \<Rightarrow> bool" where
  "plain_name c \<longleftrightarrow> c \<noteq> [] \<and> c \<noteq> ''.'' \<and> c \<noteq> ''..'' \<and> CHR ''/'' \<notin> set c"

fun rooted :: "string list \<Rightarrow> bool" where
  "rooted [] = True"
| "rooted (c # cs) = ((c = ''/'' \<or> plain_name c) \<and> list_all plain_name cs)"

abbreviation unrooted :: "string list \<Rightarrow> string list" where
  "unrooted cs \<equiv> dropWhile (\<lambda>c. c = ''/'') cs"

definition path_law :: "fs_lib \<Rightarrow> bool" where
  "path_law P \<longleftrightarrow>
     fs_components P [] = [] \<and>
     fs_components P (fs_append P [] ''/'') = [''/''] \<and>
     (\<forall>p c. rooted (fs_components P p) \<longrightarrow> plain_name c \<longrightarrow>
        fs_components P (fs_append P p c) = fs_components P p @ [c]) \<and>
     (\<forall>p. rooted (fs_components P p) \<longrightarrow>
        fs_components P (fs_remove_filename P p) = butlast (fs_components P p)) \<and>
     (\<forall>p q. rooted (fs_components P p) \<longrightarrow> rooted (fs_components P q) \<longrightarrow> fs_components P p \<noteq> [] \<longrightarrow>
        fs_components P p \<noteq> [''/''] \<longrightarrow> fs_components P (fs_append P p q) =
          fs_components P p @ (if fs_components P q = [''/''] then [''.''] else unrooted (fs_components P q)))"

lemma path_laws:
  assumes "path_law P"
  shows components_empty: "fs_components P [] = []"
    and components_slash: "fs_components P (fs_append P [] ''/'') = [''/'']"
    and components_name: "rooted (fs_components P p) \<Longrightarrow> plain_name c \<Longrightarrow>
      fs_components P (fs_append P p c) = fs_components P p @ [c]"
    and components_remove: "rooted (fs_components P p) \<Longrightarrow>
      fs_components P (fs_remove_filename P p) = butlast (fs_components P p)"
    and components_append: "rooted (fs_components P p) \<Longrightarrow> rooted (fs_components P q) \<Longrightarrow>
      fs_components P p \<noteq> [] \<Longrightarrow> fs_components P p \<noteq> [''/''] \<Longrightarrow>
      fs_components P (fs_append P p q) =
        fs_components P p @ (if fs_components P q = [''/''] then [''.''] else unrooted (fs_components P q))"
  using assms by (auto simp: path_law_def)

lemma rooted_butlast: "rooted cs \<Longrightarrow> rooted (butlast cs)"
  by (cases cs) (auto simp: list_all_iff dest: in_set_butlastD)

lemma rooted_snoc: "rooted cs \<Longrightarrow> plain_name c \<Longrightarrow> rooted (cs @ [c])"
  by (cases cs) simp_all

lemma unrooted_plain: "rooted cs \<Longrightarrow> list_all plain_name (unrooted cs)"
  by (cases cs) (auto simp: plain_name_def list_all_iff dest: set_dropWhileD)

text \<open>
  What the components of a string are: a name between two slashes each, the root directory for
  leading slashes, and a dot for a slash at the end. A string that begins with exactly two slashes
  is different: boost takes them and the name behind them for the name of a network root
  (\<open>//net\<close>), which is one component. Appending puts a slash in between unless there is one.
\<close>

abbreviation names_in :: "string \<Rightarrow> string list" where
  "names_in s \<equiv> filter (\<lambda>p. p \<noteq> []) (pieces CHR ''/'' s)"

definition split_path :: "string \<Rightarrow> string list" where
  "split_path s = (if s = [] then [] else (if hd s = CHR ''/'' then [''/''] else []) @ names_in s)"

definition two_slashes :: "string \<Rightarrow> bool" where
  "two_slashes s \<longleftrightarrow> take 2 s = ''//'' \<and> take 1 (drop 2 s) \<noteq> ''/''"

definition trailing_dot :: "string \<Rightarrow> string list" where
  "trailing_dot s = (if s \<noteq> [] \<and> last s = CHR ''/'' \<and> list_ex (\<lambda>c. c \<noteq> CHR ''/'') s then [''.''] else [])"

definition element_law :: "fs_lib \<Rightarrow> bool" where
  "element_law P \<longleftrightarrow> (\<forall>s. \<not> two_slashes s \<longrightarrow> fs_components P s = split_path s @ trailing_dot s)"

definition root_name_law :: "fs_lib \<Rightarrow> bool" where
  "root_name_law P \<longleftrightarrow> (\<forall>net s. net \<noteq> [] \<longrightarrow> CHR ''/'' \<notin> set net \<longrightarrow> s \<noteq> [] \<longrightarrow> hd s \<noteq> CHR ''/'' \<longrightarrow>
     fs_components P (''//'' @ net @ ''/'' @ s) = (''//'' @ net) # ''/'' # fs_components P s)"

definition append_law :: "fs_lib \<Rightarrow> bool" where
  "append_law P \<longleftrightarrow> (\<forall>p q. fs_append P p q =
     p @ (if p \<noteq> [] \<and> q \<noteq> [] \<and> last p \<noteq> CHR ''/'' \<and> hd q \<noteq> CHR ''/'' then ''/'' else []) @ q)"

section \<open>An instance for the witnesses\<close>

text \<open>Paths as boost reads them; one file with the given content.\<close>

definition boost_components :: "path \<Rightarrow> string list" where
  "boost_components s =
     (if two_slashes s then
        let net = takeWhile (\<lambda>c. c \<noteq> CHR ''/'') (drop 2 s); rest = drop (2 + length net) s in
        (''//'' @ net) # (if rest = [] then [] else ''/'' # names_in rest @ trailing_dot rest)
      else split_path s @ trailing_dot s)"

definition boost_append :: "path \<Rightarrow> path \<Rightarrow> path" where
  "boost_append p q =
     p @ (if p \<noteq> [] \<and> q \<noteq> [] \<and> last p \<noteq> CHR ''/'' \<and> hd q \<noteq> CHR ''/'' then ''/'' else []) @ q"

fun join_names :: "string list \<Rightarrow> string" where
  "join_names [] = []"
| "join_names [c] = c"
| "join_names (c # d # cs) = c @ ''/'' @ join_names (d # cs)"

fun join_path :: "string list \<Rightarrow> string" where
  "join_path [] = []"
| "join_path (c # cs) = (if c = ''/'' then ''/'' @ join_names cs else join_names (c # cs))"

definition ref_fs :: fs_lib where
  "ref_fs = \<lparr>
     fs_components = boost_components,
     fs_append = boost_append,
     fs_remove_filename = (\<lambda>p. join_path (butlast (boost_components p))),
     fs_canonical = (\<lambda>p. ok p),
     fs_is_symlink = (\<lambda>_. ok False),
     fs_read_symlink = (\<lambda>p. throw (Other_std ''not a link'')),
     fs_is_directory = (\<lambda>_. ok True),
     fs_is_regular_file = (\<lambda>_. ok True),
     fs_last_write_time = (\<lambda>_. None),
     fs_open = (\<lambda>_. opened ''hello, world'')\<rparr>"

lemma pieces_append:
  "d \<notin> set a \<Longrightarrow> pieces d (a @ d # b) = a # pieces d b"
  "d \<notin> set a \<Longrightarrow> pieces d a = [a]"
  by (induction a) auto

lemma pieces_join_names:
  "list_all plain_name cs \<Longrightarrow> cs \<noteq> [] \<Longrightarrow> pieces CHR ''/'' (join_names cs) = cs"
  by (induction cs rule: join_names.induct) (simp_all add: plain_name_def pieces_append)

lemma hd_plain_name [simp]: "plain_name c \<Longrightarrow> c \<noteq> [] \<and> hd c \<noteq> CHR ''/''"
  unfolding plain_name_def by (metis hd_in_set)

lemma hd_join_names:
  "list_all plain_name cs \<Longrightarrow> cs \<noteq> [] \<Longrightarrow> join_names cs \<noteq> [] \<and> hd (join_names cs) \<noteq> CHR ''/''"
  by (cases cs rule: join_names.cases) auto

lemma filter_plain: "list_all plain_name cs \<Longrightarrow> filter (\<lambda>p. p \<noteq> []) cs = cs"
  by (induction cs) (simp_all add: plain_name_def)

lemma split_join_path:
  assumes "rooted cs"
  shows "split_path (join_path cs) = cs"
proof (cases cs)
  case (Cons c ds)
  show ?thesis
  proof (cases "c = ''/''")
    case True
    with Cons assms have ds: "list_all plain_name ds" by simp
    with True Cons show ?thesis
      by (cases "ds = []")
         (simp_all add: split_path_def pieces_join_names filter_plain)
  next
    case False
    with Cons assms have all: "list_all plain_name cs" by simp
    with Cons have "cs \<noteq> []" by simp
    from pieces_join_names [OF all this] hd_join_names [OF all this] filter_plain [OF all]
    show ?thesis
      using False Cons by (simp add: split_path_def)
  qed
qed (simp add: split_path_def)

lemma rooted_append: "rooted cs \<Longrightarrow> list_all plain_name ds \<Longrightarrow> rooted (cs @ ds)"
  by (cases cs; cases ds) simp_all

lemma split_plain: "plain_name c \<Longrightarrow> split_path c = [c]"
  by (frule hd_plain_name) (auto simp: split_path_def plain_name_def pieces_append)

lemma pieces_nonempty [simp]: "pieces d s \<noteq> []"
  by (cases s) (auto split: list.split)

lemma pieces_split: "pieces d (a @ d # b) = pieces d a @ pieces d b"
  by (induction a) (auto split: list.splits)

lemma pieces_apart: "p \<in> set (pieces d s) \<Longrightarrow> d \<notin> set p"
  by (induction s arbitrary: p) (auto split: list.splits if_splits)

lemma no_names: "names_in s = [] \<longleftrightarrow> list_all (\<lambda>c. c = CHR ''/'') s"
  by (induction s) (auto split: list.splits)

lemma names_in_append:
  "p = [] \<or> q = [] \<or> last p = CHR ''/'' \<or> hd q = CHR ''/'' \<Longrightarrow> names_in (p @ q) = names_in p @ names_in q"
proof (elim disjE)
  assume last: "last p = CHR ''/''"
  show ?thesis
  proof (cases p rule: rev_cases)
    case (snoc r c)
    with last show ?thesis
      using pieces_split [of "CHR ''/''" r q] pieces_split [of "CHR ''/''" r "[]"] by simp
  qed simp
next
  assume "hd q = CHR ''/''"
  then show ?thesis
    using pieces_split [of "CHR ''/''" p "tl q"] by (cases q) simp_all
qed simp_all

lemma names_in_boost_append: "names_in (boost_append p q) = names_in p @ names_in q"
proof (cases "p \<noteq> [] \<and> q \<noteq> [] \<and> last p \<noteq> CHR ''/'' \<and> hd q \<noteq> CHR ''/''")
  case True
  then show ?thesis using pieces_split [of "CHR ''/''" p q] by (simp add: boost_append_def)
next
  case False
  then show ?thesis using names_in_append [of p q] by (auto simp: boost_append_def)
qed

lemma boost_rooted:
  assumes "rooted (boost_components p)"
  shows "\<not> two_slashes p" and "trailing_dot p = []" and "boost_components p = split_path p"
proof -
  show no: "\<not> two_slashes p"
    using assms by (auto simp: boost_components_def Let_def plain_name_def)
  show dot: "trailing_dot p = []"
    using assms no
    by (cases "split_path p") (auto simp: boost_components_def trailing_dot_def plain_name_def split: if_splits)
  with no show "boost_components p = split_path p" by (simp add: boost_components_def)
qed

lemma no_slashes_before:
  assumes "\<not> two_slashes p" and "p \<noteq> []" and "p \<noteq> ''/''"
  shows "\<not> two_slashes (p @ q)"
proof -
  obtain a p' where "p = a # p'" using assms(2) by (cases p) auto
  with assms(1,3) show ?thesis
    by (cases p'; cases "tl p'") (auto simp: two_slashes_def numeral_2_eq_2)
qed

lemma unrooted_names [simp]: "unrooted (names_in s) = names_in s"
proof -
  have "c \<noteq> ''/''" if "c \<in> set (names_in s)" for c
    using that pieces_apart [of c "CHR ''/''" s] by auto
  then show ?thesis by (cases "names_in s") auto
qed

lemma unrooted_split: "unrooted (split_path s) = names_in s"
  by (simp add: split_path_def)

lemma split_slash: "names_in s = [] \<Longrightarrow> split_path s = (if s = [] then [] else [''/''])"
proof -
  assume none: "names_in s = []"
  then have "s \<noteq> [] \<Longrightarrow> hd s = CHR ''/''" by (cases s) (auto simp only: no_names list.pred_inject list.sel)
  with none show ?thesis by (simp add: split_path_def)
qed

lemma dotless_last: "trailing_dot s = [] \<Longrightarrow> names_in s \<noteq> [] \<Longrightarrow> last s \<noteq> CHR ''/''"
  by (auto simp: trailing_dot_def no_names list_ex_iff list_all_iff split: if_splits)

lemma boost_append_ends:
  "q \<noteq> [] \<Longrightarrow> last (boost_append p q) = last q" "p \<noteq> [] \<Longrightarrow> hd (boost_append p q) = hd p"
  "boost_append p q = [] \<longleftrightarrow> p = [] \<and> q = []" "set p \<subseteq> set (boost_append p q)"
  by (auto simp: boost_append_def)

lemma boost_append_components:
  assumes "rooted (boost_components p)" and "rooted (boost_components q)"
    and "boost_components p \<noteq> []" and "boost_components p \<noteq> [''/'']"
  shows "boost_components (boost_append p q) =
    boost_components p @ (if boost_components q = [''/''] then [''.''] else unrooted (boost_components q))"
proof -
  note rp = boost_rooted [OF assms(1)] and rq = boost_rooted [OF assms(2)]
  have "names_in p \<noteq> []"
    using split_slash [of p] assms(3,4) rp(3) by (auto split: if_splits)
  then have p: "p \<noteq> []" "p \<noteq> ''/''" "list_ex (\<lambda>c. c \<noteq> CHR ''/'') p"
    by (auto simp: no_names list_all_iff list_ex_iff)
  have "\<not> two_slashes (boost_append p q)"
    using no_slashes_before [OF rp(1) p(1,2)] by (simp add: boost_append_def)
  then have "boost_components (boost_append p q) = split_path p @ names_in q @ trailing_dot (boost_append p q)"
    using p(1) by (simp add: boost_components_def split_path_def boost_append_ends names_in_boost_append)
  moreover have "trailing_dot (boost_append p q) = (if q \<noteq> [] \<and> names_in q = [] then [''.''] else [])"
  proof (cases "names_in q = []")
    case True
    then have "q \<noteq> [] \<Longrightarrow> last q = CHR ''/''" by (simp add: no_names list_all_iff)
    moreover have "list_ex (\<lambda>c. c \<noteq> CHR ''/'') (boost_append p q)"
      using p(3) boost_append_ends(4) [of p q] by (auto simp: list_ex_iff)
    ultimately show ?thesis
      using True p(1) rp(2) by (cases "q = []") (auto simp: trailing_dot_def boost_append_ends boost_append_def split: if_splits)
  next
    case False
    then have "q \<noteq> []" by auto
    with dotless_last [OF rq(2) False] False show ?thesis
      by (simp add: trailing_dot_def boost_append_ends)
  qed
  moreover have "boost_components q = [''/''] \<longleftrightarrow> q \<noteq> [] \<and> names_in q = []"
  proof -
    have "unrooted (boost_components q) = names_in q"
      using rq(3) by (simp add: unrooted_split)
    then show ?thesis
      using split_slash [of q] rq(3) by (cases q) (auto simp: split_path_def)
  qed
  ultimately show ?thesis
    using rp(3) rq(3) by (simp add: unrooted_split)
qed

lemma last_join_names: "list_all plain_name ds \<Longrightarrow> ds \<noteq> [] \<Longrightarrow> last (join_names ds) \<noteq> CHR ''/''"
proof (induction ds rule: join_names.induct)
  case (2 c)
  then have "c \<noteq> []" "CHR ''/'' \<notin> set c" by (simp_all add: plain_name_def)
  then show ?case by (metis join_names.simps(2) last_in_set)
next
  case (3 c d cs)
  then show ?case using hd_join_names [of "d # cs"] by simp
qed simp

lemma join_path_boost:
  assumes "rooted cs"
  shows "boost_components (join_path cs) = cs"
proof -
  have "\<not> two_slashes (join_path cs) \<and> trailing_dot (join_path cs) = []"
  proof (cases cs)
    case (Cons c ds)
    have ends: "list_all plain_name es \<Longrightarrow> es \<noteq> [] \<Longrightarrow>
        \<not> two_slashes (join_names es) \<and> \<not> two_slashes (''/'' @ join_names es) \<and>
        last (''/'' @ join_names es) \<noteq> CHR ''/'' \<and> trailing_dot (join_names es) = []" for es
      using hd_join_names [of es] last_join_names [of es]
      by (cases "join_names es") (auto simp: two_slashes_def trailing_dot_def numeral_2_eq_2)
    show ?thesis
    proof (cases "c = ''/''")
      case True
      with Cons assms ends [of ds] show ?thesis
        by (cases "ds = []") (simp_all add: two_slashes_def trailing_dot_def)
    next
      case False
      with Cons assms ends [of cs] show ?thesis by simp
    qed
  qed (simp add: two_slashes_def trailing_dot_def)
  with split_join_path [OF assms] show ?thesis by (simp add: boost_components_def)
qed

lemma ref_fs_path_law: "path_law ref_fs"
proof -
  have name: "boost_components (boost_append p c) = boost_components p @ [c]"
    if "rooted (boost_components p)" "plain_name c" for p c
  proof -
    have c: "split_path c = [c]" "names_in c = [c]" "c \<noteq> []" "hd c \<noteq> CHR ''/''" "last c \<noteq> CHR ''/''"
      using that(2) split_plain [OF that(2)] hd_plain_name [OF that(2)]
      by (auto simp: plain_name_def pieces_append simp del: last_in_set dest: last_in_set)
    note rp = boost_rooted [OF that(1)]
    have "\<not> two_slashes (boost_append p c)"
    proof (cases "p = [] \<or> p = ''/''")
      case True
      with c(3,4) show ?thesis by (cases c) (auto simp: boost_append_def two_slashes_def numeral_2_eq_2)
    next
      case False
      with no_slashes_before [OF rp(1)] show ?thesis by (simp add: boost_append_def)
    qed
    moreover have "trailing_dot (boost_append p c) = []"
      using c(3,5) by (simp add: trailing_dot_def boost_append_ends)
    moreover have "split_path (boost_append p c) = split_path p @ [c]"
      using c by (cases "p = []") (simp_all add: split_path_def boost_append_ends names_in_boost_append, simp add: boost_append_def)
    ultimately show ?thesis using rp(3) by (simp add: boost_components_def)
  qed
  have "boost_components [] = []" "boost_components (boost_append [] ''/'') = [''/'']"
    by (simp_all add: boost_components_def boost_append_def split_path_def trailing_dot_def two_slashes_def)
  then show ?thesis
    using name boost_append_components
    by (simp add: path_law_def ref_fs_def join_path_boost rooted_butlast)
qed

lemma ref_fs_laws: "element_law ref_fs" "append_law ref_fs" "root_name_law ref_fs"
proof -
  show "element_law ref_fs" "append_law ref_fs"
    by (simp_all add: element_law_def append_law_def ref_fs_def boost_components_def boost_append_def)
  have "boost_components (''//'' @ net @ ''/'' @ s) = (''//'' @ net) # ''/'' # boost_components s"
    if "net \<noteq> []" "CHR ''/'' \<notin> set net" "s \<noteq> []" "hd s \<noteq> CHR ''/''" for net s
  proof -
    have slashes: "two_slashes (''//'' @ net @ ''/'' @ s)" "\<not> two_slashes s"
      using that by (cases net; cases s; auto simp: two_slashes_def numeral_2_eq_2)+
    have net: "takeWhile (\<lambda>c. c \<noteq> CHR ''/'') (net @ ''/'' @ s) = net"
      using that(2) by (subst takeWhile_append2) auto
    have "list_ex (\<lambda>c. c \<noteq> CHR ''/'') s" using that(3,4) by (cases s) auto
    then have "trailing_dot (''/'' @ s) = trailing_dot s"
      using that(3) by (simp add: trailing_dot_def)
    with slashes net that(3,4) show ?thesis
      by (simp add: boost_components_def split_path_def)
  qed
  then show "root_name_law ref_fs"
    by (simp add: root_name_law_def ref_fs_def)
qed

end
