(* ===== verification/Streaming_File.thy ===== *)
theory Streaming_File
  imports Streaming_Handler Paths
begin

text \<open>
  \<open>src/StreamingFileHandler.h\<close> and \<open>src/StreamingFileHandler.cpp\<close>: the streaming handler that
  serves files below a base directory. The derived class is an extension of the base record.
\<close>

section \<open>State\<close>

record file_handler = stream_handler +
  fh_path :: path
  fh_ifModifiedSince :: int64
  fh_readBufferSize :: size_t
  fh_rawPath :: string

definition StreamingFileHandler ::
  "path \<Rightarrow> size_t \<Rightarrow> bool \<Rightarrow> event_base option \<Rightarrow> file_handler outcome" where
  "StreamingFileHandler basePath readBufferSize ioExecutor socketEvb =
     bind (check ioExecutor ''ioExecutor != nullptr'') (\<lambda>_.
       ok (stream_handler.extend (StreamingHTTPHandler socketEvb)
         (file_handler.fields basePath 0 readBufferSize [])))"

section \<open>Path and headers\<close>

definition sanitize_component :: "fs_lib \<Rightarrow> path \<Rightarrow> string \<Rightarrow> path" where
  "sanitize_component P ret component =
     (if component = ''..'' then fs_remove_filename P ret
      else if component = ''.'' then ret
      else fs_append P ret component)"

definition sanitizePath :: "fs_lib \<Rightarrow> string \<Rightarrow> path" where
  "sanitizePath P path = foldl (sanitize_component P) [] (fs_components P path)"

definition setRequestArgs :: "file_handler \<Rightarrow> string \<Rightarrow> file_handler" where
  "setRequestArgs h path = h\<lparr>fh_rawPath := path\<rparr>"

definition onRequestReceived ::
  "fs_lib \<Rightarrow> time_lib \<Rightarrow> file_handler \<Rightarrow> http_request \<Rightarrow> file_handler outcome" where
  "onRequestReceived P T h request =
     (let h = h\<lparr>fh_path := fs_append P (fh_path h) (sanitizePath P (fh_rawPath h))\<rparr>;
          ifModifiedSinceStr = getHeader (req_message request) HTTP_HEADER_IF_MODIFIED_SINCE
      in ok (case ifModifiedSinceStr of
           None \<Rightarrow> h
         | Some s \<Rightarrow> (case tm_strptime T s ''%a, %d %b %Y %T'' of
             None \<Rightarrow> h
           | Some expireTime \<Rightarrow> h\<lparr>fh_ifModifiedSince := tm_mktime T expireTime\<rparr>)))"

definition file_onBody :: "file_handler \<Rightarrow> iobuf \<Rightarrow> file_handler" where
  "file_onBody h body = h"

section \<open>Sending the file\<close>

text \<open>
  One turn of the read loop up to \<open>sendBody\<close>: the buffer is stretched over its whole tailroom
  (unless the size asked for is 0), filled with what was read, and cut by the missing bytes.
\<close>

definition fill_buffer :: "iobuf_lib \<Rightarrow> nat \<Rightarrow> string \<Rightarrow> string" where
  "fill_buffer B n bytes =
     (let room = (if 0 < n then io_tailroom B n else []);
          buf = bytes @ drop (length bytes) room
      in if length bytes < n then take (length buf - (n - length bytes)) buf else buf)"

partial_function (option) read_loop ::
  "iobuf_lib \<Rightarrow> ('s \<Rightarrow> iobuf \<Rightarrow> 's outcome) \<Rightarrow> nat \<Rightarrow> 's \<Rightarrow> ifstream \<Rightarrow> 's outcome option" where
  "read_loop B send_body n h fin =
     (if in_eof fin then Some (ok h)
      else case stream_read fin n of (bytes, fin') \<Rightarrow>
        (case send_body h [fill_buffer B n bytes] of
           Inl f \<Rightarrow> Some (Inl f)
         | Inr h' \<Rightarrow> read_loop B send_body n h' fin'))"

text \<open>
  The function given to the I/O executor, and the continuations behind it. Nothing in it
  throws: what it calls is \<open>noexcept\<close>, and the stream reports errors by its state bits. So the
  \<open>onError\<close> in between never runs. \<open>None\<close> is a job that does not end.
\<close>

definition read_job :: "fs_lib \<Rightarrow> iobuf_lib \<Rightarrow> file_handler \<Rightarrow> file_handler outcome option" where
  "read_job P B h =
     (let fin = fs_open P (fh_path h) in
      if \<not> good fin then Some (sendResponseHeaders B h (HTTPResponse_status B 404))
      else (case sendResponseHeaders B h (HTTPResponse_status B 200) of
          Inl f \<Rightarrow> Some (Inl f)
        | Inr h \<Rightarrow> read_loop B (sendBody B) (unat (fh_readBufferSize h)) h fin))"

definition job_then_eof :: "fs_lib \<Rightarrow> iobuf_lib \<Rightarrow> file_handler \<Rightarrow> file_handler outcome option" where
  "job_then_eof P B h = map_option (\<lambda>r. bind r sendEOF) (read_job P B h)"

text \<open>The flag of the result: whether the job was handed to the executor.\<close>

definition file_onEOM ::
  "fs_lib \<Rightarrow> iobuf_lib \<Rightarrow> file_handler \<Rightarrow> (file_handler \<times> bool) outcome" where
  "file_onEOM P B h = noexcept
     (bind (fs_is_regular_file P (fh_path h)) (\<lambda>regular.
      if \<not> regular then
        bind (sendResponseHeaders B h (HTTPResponse_status B 404)) (\<lambda>h.
        bind (sendEOF h) (\<lambda>h. ok (h, False)))
      else
        (case fs_last_write_time P (fh_path h) of
           Some lastModifiedTime \<Rightarrow>
             if 0 < sint (fh_ifModifiedSince h) \<and> sint lastModifiedTime \<le> sint (fh_ifModifiedSince h)
             then bind (sendResponseHeaders B h (HTTPResponse_status B 304)) (\<lambda>h.
                  bind (sendEOF h) (\<lambda>h. ok (h, False)))
             else ok (h, True)
         | None \<Rightarrow> ok (h, True))))"

definition onRequestComplete :: "file_handler \<Rightarrow> file_handler" where
  "onRequestComplete h = h"

definition onUnhandledError :: "file_handler \<Rightarrow> string \<Rightarrow> file_handler" where
  "onUnhandledError h err = h"

definition file_virtuals :: "fs_lib \<Rightarrow> time_lib \<Rightarrow> file_handler virtuals" where
  "file_virtuals P T = \<lparr>v_onRequestReceived = onRequestReceived P T,
     v_onRequestComplete = (\<lambda>h. ok (onRequestComplete h)),
     v_onUnhandledError = (\<lambda>h err. ok (onUnhandledError h err))\<rparr>"

section \<open>The sanitised path\<close>

text \<open>The components left of a request path: \<open>..\<close> takes the last one back.\<close>

fun resolve_dots :: "string list \<Rightarrow> string list \<Rightarrow> string list" where
  "resolve_dots acc [] = acc"
| "resolve_dots acc (c # cs) =
     resolve_dots (if c = ''..'' then butlast acc else if c = ''.'' then acc else acc @ [c]) cs"

definition wanted :: "string \<Rightarrow> bool" where
  "wanted c \<longleftrightarrow> c = ''.'' \<or> c = ''..'' \<or> plain_name c"

lemma sanitize_fold:
  assumes "path_law P"
  shows "list_all wanted cs \<Longrightarrow> rooted (fs_components P p) \<Longrightarrow>
    fs_components P (foldl (sanitize_component P) p cs) = resolve_dots (fs_components P p) cs \<and>
    rooted (resolve_dots (fs_components P p) cs)"
proof (induction cs arbitrary: p)
  case (Cons c cs)
  consider "c = ''..''" | "c = ''.''" | "plain_name c" "c \<noteq> ''..''" "c \<noteq> ''.''"
    using Cons.prems(1) by (auto simp: wanted_def plain_name_def)
  then show ?case
  proof cases
    case 1
    with Cons.prems have "rooted (fs_components P (fs_remove_filename P p))"
      by (simp add: components_remove [OF assms] rooted_butlast)
    with Cons.IH [of "fs_remove_filename P p"] Cons.prems 1 show ?thesis
      by (simp add: sanitize_component_def components_remove [OF assms])
  next
    case 2
    with Cons show ?thesis by (simp add: sanitize_component_def)
  next
    case 3
    with Cons.prems have "rooted (fs_components P (fs_append P p c))"
      by (simp add: components_name [OF assms] rooted_snoc)
    with Cons.IH [of "fs_append P p c"] Cons.prems 3 show ?thesis
      by (simp add: sanitize_component_def components_name [OF assms])
  qed
qed simp

text \<open>A request path: names, dots and double dots behind an optional leading slash.\<close>

fun request_components :: "string list \<Rightarrow> bool" where
  "request_components [] = True"
| "request_components (c # cs) = ((c = ''/'' \<or> wanted c) \<and> list_all wanted cs)"

lemma sanitizePath_components:
  assumes "path_law P" and "request_components (fs_components P raw_path)"
  shows "fs_components P (sanitizePath P raw_path) = resolve_dots [] (fs_components P raw_path) \<and>
    rooted (resolve_dots [] (fs_components P raw_path))"
proof (cases "fs_components P raw_path")
  case Nil
  then show ?thesis by (simp add: sanitizePath_def components_empty [OF assms(1)])
next
  case (Cons c cs)
  show ?thesis
  proof (cases "c = ''/''")
    case True
    with Cons assms(2) have "list_all wanted cs" by simp
    from sanitize_fold [OF assms(1) this, of "fs_append P [] ''/''"] True Cons show ?thesis
      by (simp add: sanitizePath_def sanitize_component_def components_slash [OF assms(1)])
  next
    case False
    with Cons assms(2) have "list_all wanted (c # cs)" by simp
    from sanitize_fold [OF assms(1) this, of "[]"] Cons show ?thesis
      by (simp add: sanitizePath_def components_empty [OF assms(1)])
  qed
qed

text \<open>Any string is such a path, unless it begins with exactly two slashes.\<close>

lemma request_components_elements:
  assumes "element_law P" and "\<not> two_slashes s"
  shows "request_components (fs_components P s)"
proof -
  have "wanted c" if "c \<in> set (names_in s)" for c
    using that pieces_apart [of c "CHR ''/''" s] by (auto simp: wanted_def plain_name_def)
  then have "list_all wanted (names_in s @ trailing_dot s)"
    by (auto simp: list_all_iff trailing_dot_def wanted_def)
  moreover have "request_components cs" if "list_all wanted cs" for cs
    using that by (cases cs) simp_all
  ultimately show ?thesis
    using assms by (cases "s = []") (auto simp: element_law_def split_path_def trailing_dot_def)
qed

text \<open>What may come behind the base directory: names, or a dot for the directory itself.\<close>

definition below :: "string list \<Rightarrow> bool" where
  "below names \<longleftrightarrow> list_all plain_name names \<or> names = [''.'']"

lemma sanitized_below:
  assumes "path_law P" and "element_law P" and "\<not> two_slashes raw_path"
    and "rooted (fs_components P base)" and "fs_components P base \<noteq> []" and "fs_components P base \<noteq> [''/'']"
  obtains names where "fs_components P (fs_append P base (sanitizePath P raw_path)) = fs_components P base @ names"
    and "below names"
proof -
  note clean = sanitizePath_components [OF assms(1) request_components_elements [OF assms(2,3)]]
  have "rooted (fs_components P (sanitizePath P raw_path))" using clean by simp
  from components_append [OF assms(1,4) this assms(5,6)] unrooted_plain [OF this] that show thesis
    by (auto simp: below_def split: if_splits)
qed

subsection \<open>Two slashes in front\<close>

text \<open>
  The name of a network root is a component of its own, so that \<open>//..\<close> is not a double dot to the
  loop; behind the base directory it is one.
\<close>

lemma sanitize_names:
  assumes "append_law P" and "list_all plain_name cs" and "p \<noteq> []" and "last p = CHR ''/''"
  shows "foldl (sanitize_component P) p cs = p @ join_names cs"
  using assms(2-4)
proof (induction cs arbitrary: p rule: join_names.induct)
  case (2 c)
  with assms(1) show ?case by (simp add: sanitize_component_def append_law_def plain_name_def)
next
  case (3 c d cs)
  from "3.prems"(1) have c: "plain_name c" "plain_name d" by simp_all
  have ends: "c \<noteq> []" "last c \<noteq> CHR ''/''" "d \<noteq> []" "hd d \<noteq> CHR ''/''" "hd c \<noteq> CHR ''/''"
    using last_join_names [of "[c]"] hd_plain_name [OF c(1)] hd_plain_name [OF c(2)] c by simp_all
  have step: "sanitize_component P q d = fs_append P q d" "sanitize_component P q c = fs_append P q c" for q
    using c by (simp_all add: sanitize_component_def plain_name_def)
  have "sanitize_component P (p @ c) d = sanitize_component P (p @ c @ ''/'') d"
    using assms(1) ends by (simp add: step append_law_def)
  then have "foldl (sanitize_component P) (p @ c) (d # cs) = foldl (sanitize_component P) (p @ c @ ''/'') (d # cs)"
    by simp
  also have "\<dots> = (p @ c @ ''/'') @ join_names (d # cs)"
    using "3.prems" by (intro "3.IH") simp_all
  moreover have "sanitize_component P p c = p @ c"
    using assms(1) ends "3.prems" by (simp add: step append_law_def)
  ultimately show ?case by simp
qed simp

lemma names_joined: "list_all plain_name cs \<Longrightarrow> cs \<noteq> [] \<Longrightarrow> split_path (join_names cs) = cs"
  using hd_join_names [of cs] by (simp add: split_path_def pieces_join_names filter_plain)

lemma sanitize_escape:
  assumes "element_law P" and "append_law P" and "root_name_law P"
    and "list_all plain_name names" and "names \<noteq> []"
    and "base \<noteq> []" and "last base \<noteq> CHR ''/''" and "\<not> two_slashes base"
  shows "fs_components P (fs_append P base (sanitizePath P (''//../'' @ join_names names))) =
    fs_components P base @ ''..'' # names"
proof -
  let ?s = "join_names names"
  have s: "?s \<noteq> []" "hd ?s \<noteq> CHR ''/''" "last ?s \<noteq> CHR ''/''"
    using hd_join_names [OF assms(4,5)] last_join_names [OF assms(4,5)] by auto
  have plain: "\<not> two_slashes ?s" "trailing_dot ?s = []"
    using s by (cases ?s; auto simp: two_slashes_def trailing_dot_def numeral_2_eq_2)+
  have "fs_components P (''//'' @ ''..'' @ ''/'' @ ?s) = (''//'' @ ''..'') # ''/'' # fs_components P ?s"
    using assms(3) [unfolded root_name_law_def, rule_format, of "''..''" ?s] s(1,2) by simp
  then have "fs_components P (''//../'' @ ?s) = ''//..'' # ''/'' # names"
    using assms(1) plain names_joined [OF assms(4,5)] by (simp add: element_law_def)
  moreover have "foldl (sanitize_component P) ''//../'' names = ''//../'' @ ?s"
    using sanitize_names [OF assms(2,4), of "''//../''"] by simp
  ultimately have clean: "sanitizePath P (''//../'' @ ?s) = ''//../'' @ ?s"
    using assms(2) by (simp add: sanitizePath_def sanitize_component_def append_law_def)
  have "fs_append P base (''//../'' @ ?s) = base @ ''//../'' @ ?s"
    using assms(2,6) by (simp add: append_law_def)
  moreover have "\<not> two_slashes (base @ ''//../'' @ ?s)"
    using assms(6-8) by (intro no_slashes_before) auto
  moreover have "trailing_dot (base @ ''//../'' @ ?s) = []" "trailing_dot base = []"
    using s assms(7) by (simp_all add: trailing_dot_def)
  moreover have "split_path (base @ ''//../'' @ ?s) = split_path base @ ''..'' # names"
    using assms(6) pieces_split [of "CHR ''/''" base "''/../'' @ ?s"] pieces_join_names [OF assms(4,5)] filter_plain [OF assms(4)]
    by (simp add: split_path_def)
  ultimately show ?thesis
    using assms(1,8) clean by (simp add: element_law_def)
qed

section \<open>The read loop\<close>

text \<open>The bytes the loop sends for the rest of a file read in turns of \<open>n\<close>.\<close>

function sent_bytes :: "iobuf_lib \<Rightarrow> nat \<Rightarrow> string \<Rightarrow> string" where
  "sent_bytes B n content =
     (if n = 0 \<or> length content < n then fill_buffer B n content
      else fill_buffer B n (take n content) @ sent_bytes B n (drop n content))"
  by pat_completeness auto
termination
  by (relation "measure (\<lambda>(B, n, content). length content)") auto

declare sent_bytes.simps [simp del]

lemma fill_buffer_exact:
  "length (io_tailroom B n) = n \<Longrightarrow> length bytes \<le> n \<Longrightarrow> fill_buffer B n bytes = bytes"
  by (auto simp: fill_buffer_def Let_def)

lemma sent_bytes_exact:
  "length (io_tailroom B n) = n \<Longrightarrow> 0 < n \<Longrightarrow> sent_bytes B n content = content"
proof (induction B n content rule: sent_bytes.induct)
  case (1 B n content)
  show ?case
  proof (cases "length content < n")
    case True
    with 1 show ?thesis by (simp add: sent_bytes.simps [of B n] fill_buffer_exact)
  next
    case False
    with 1 show ?thesis by (simp add: sent_bytes.simps [of B n] fill_buffer_exact)
  qed
qed

lemma fill_buffer_full:
  "0 < n \<Longrightarrow> length bytes = n \<Longrightarrow> fill_buffer B n bytes = bytes @ drop n (io_tailroom B n)"
  by (simp add: fill_buffer_def Let_def)

text \<open>With more room than asked for, every turn sends that much memory besides the file.\<close>

lemma sent_bytes_length:
  "0 < n \<Longrightarrow> n \<le> length (io_tailroom B n) \<Longrightarrow>
   length (sent_bytes B n content) =
     length content + (length content div n + 1) * (length (io_tailroom B n) - n)"
proof (induction B n content rule: sent_bytes.induct)
  case (1 B n content)
  show ?case
  proof (cases "length content < n")
    case True
    with 1 show ?thesis
      by (simp add: sent_bytes.simps [of B n] fill_buffer_def Let_def)
  next
    case False
    obtain d where d: "length (io_tailroom B n) = n + d"
      using 1 le_Suc_ex by blast
    from False 1 d have "length (sent_bytes B n content) =
        n + d + ((length content - n) + ((length content - n) div n + 1) * d)"
      by (simp add: sent_bytes.simps [of B n content] fill_buffer_full)
    moreover have "length content div n = Suc ((length content - n) div n)"
      using False 1 by (simp add: le_div_geq)
    ultimately show ?thesis
      using False d by simp
  qed
qed

text \<open>
  What the client gets of a file: it is read in blocks, all of \<open>n\<close> bytes but for a shorter last one
  (which may be empty), and each block is followed by what its buffer holds behind it, as far as
  the buffer has more room than was asked for.
\<close>

function blocks :: "nat \<Rightarrow> string \<Rightarrow> string list" where
  "blocks n s = (if n = 0 \<or> length s < n then [s] else take n s # blocks n (drop n s))"
  by pat_completeness auto
termination
  by (relation "measure (\<lambda>(n, s). length s)") auto

declare blocks.simps [simp del]

definition surplus :: "iobuf_lib \<Rightarrow> nat \<Rightarrow> string \<Rightarrow> string" where
  "surplus B n block = take (length (io_tailroom B n) - n) (drop (length block) (io_tailroom B n))"

definition transmitted :: "iobuf_lib \<Rightarrow> nat \<Rightarrow> string \<Rightarrow> string" where
  "transmitted B n content = concat (map (\<lambda>block. block @ surplus B n block) (blocks n content))"

lemma concat_blocks: "concat (blocks n s) = s"
  by (induction n s rule: blocks.induct) (simp add: blocks.simps [of _ s for s])

lemma fill_buffer_surplus:
  assumes "0 < n" and "length bytes \<le> n" and "n \<le> length (io_tailroom B n)"
  shows "fill_buffer B n bytes = bytes @ surplus B n bytes"
proof -
  have "length (io_tailroom B n) - (n - length bytes) - length bytes = length (io_tailroom B n) - n"
    using assms(2,3) by simp
  with assms show ?thesis by (auto simp: fill_buffer_def surplus_def Let_def)
qed

lemma sent_bytes_transmitted:
  "0 < n \<Longrightarrow> n \<le> length (io_tailroom B n) \<Longrightarrow> sent_bytes B n content = transmitted B n content"
proof (induction B n content rule: sent_bytes.induct)
  case (1 B n content)
  then show ?case
    by (simp add: sent_bytes.simps [of B n content] blocks.simps [of n content] transmitted_def fill_buffer_surplus)
qed

text \<open>It is the file itself exactly if buffers have no more room than asked for.\<close>

lemma transmitted_exact:
  assumes "0 < n" and "n \<le> length (io_tailroom B n)"
  shows "transmitted B n content = content \<longleftrightarrow> length (io_tailroom B n) = n"
  using sent_bytes_length [OF assms, of content] sent_bytes_transmitted [OF assms, of content]
    sent_bytes_exact [OF _ assms(1), of B content] assms(2) by auto

lemma transmitted_facts:
  assumes "iobuf_law B" and "(n :: size_t) \<noteq> 0"
  shows "sent_bytes B (unat n) = transmitted B (unat n)"
    and "transmitted B (unat n) content = content \<longleftrightarrow> length (io_tailroom B (unat n)) = unat n"
  using transmitted_exact [of "unat n" B content] sent_bytes_transmitted [of "unat n" B] assms
  by (auto simp: iobuf_law_def unat_gt_0)

lemma opened_read:
  "stream_read (opened content) n =
     (take n content,
      if length content < n
      then (opened (drop n content))\<lparr>in_eof := True, in_fail := True\<rparr> else opened (drop n content))"
  by (simp add: opened_def stream_read_def good_def)

lemma opened_eof [simp]: "\<not> in_eof (opened content)" "in_eof ((opened c)\<lparr>in_eof := True, in_fail := f\<rparr>)"
  by (simp_all add: opened_def)

context response_stream
begin

lemma read_loop_stream:
  "0 < n \<Longrightarrow> streaming s c p \<Longrightarrow>
    \<exists>s'. read_loop B send_body n s (opened content) = Some (ok s') \<and>
      streaming s' c (p @ sent_bytes B n content)"
proof (induction B n content arbitrary: s p rule: sent_bytes.induct)
  case (1 B n content)
  let ?bytes = "take n content" and ?seg = "fill_buffer B n (take n content)"
  obtain s1 where s1: "send_body s [?seg] = ok s1" "streaming s1 c (p @ ?seg)"
    using body_stream [OF "1.prems"(2)] by blast
  show ?case
  proof (cases "length content < n")
    case True
    with s1 show ?thesis
      by (simp add: read_loop.simps [of B send_body n s] read_loop.simps [of B send_body n s1]
          opened_read sent_bytes.simps [of B n])
  next
    case False
    with "1.prems"(1) have "\<not> (n = 0 \<or> length content < n)" by simp
    from "1.IH" [OF this "1.prems"(1) s1(2)] this s1(1) show ?thesis
      by (simp add: read_loop.simps [of B send_body n s] opened_read sent_bytes.simps [of B n content])
  qed
qed

end

section \<open>Loops that do not end\<close>

text \<open>A stream that will never set \<open>eofbit\<close> under reads of \<open>n\<close> bytes.\<close>

definition stuck :: "nat \<Rightarrow> ifstream \<Rightarrow> bool" where
  "stuck n fin \<longleftrightarrow> \<not> in_eof fin \<and> (in_fail fin \<or> in_bad fin \<or> n = 0 \<or>
     (case in_reads fin of None \<Rightarrow> False | Some k \<Rightarrow> k * n \<le> length (in_rest fin)))"

lemma stuck_read: "stuck n fin \<Longrightarrow> stuck n (snd (stream_read fin n))"
proof -
  assume stuck: "stuck n fin"
  show ?thesis
  proof (cases "in_reads fin")
    case None
    with stuck show ?thesis by (auto simp: stuck_def stream_read_def good_def)
  next
    case (Some k)
    with stuck show ?thesis
      by (cases k) (auto simp: stuck_def stream_read_def good_def)
  qed
qed

context response_stream
begin

lemma read_loop_stuck:
  "read_loop B send n s fin = Some y \<Longrightarrow>
   send = send_body \<longrightarrow> (\<forall>p. streaming s c p \<longrightarrow> \<not> stuck n fin)"
proof (induction rule: read_loop.raw_induct [rotated 1, consumes 1, case_names step])
  case (step loop B send n s fin y)
  show ?case
  proof (intro allI impI notI)
    fix p
    assume send: "send = send_body" and s: "streaming s c p" and fin: "stuck n fin"
    obtain bytes fin' where r: "stream_read fin n = (bytes, fin')"
      by (cases "stream_read fin n")
    obtain s1 where s1: "send s [fill_buffer B n bytes] = ok s1"
        "streaming s1 c (p @ fill_buffer B n bytes)"
      using body_stream [OF s] send by blast
    have "stuck n fin'"
      using stuck_read [OF fin] r by simp
    moreover have "loop B send n s1 fin' = Some y"
      using step(2) fin r s1 by (simp add: stuck_def)
    ultimately show False
      using step(1) s1 send by blast
  qed
qed

lemma read_loop_diverges:
  "streaming s c p \<Longrightarrow> stuck n fin \<Longrightarrow> read_loop B send_body n s fin = None"
  using read_loop_stuck by (cases "read_loop B send_body n s fin") blast+

end

section \<open>A job whose handler is being deleted\<close>

text \<open>
  Once the deletion has been posted, whatever the job still posts ends in undefined
  behaviour; for the job itself it looks like any other stream.
\<close>

definition doomed :: "'z stream_handler_scheme \<Rightarrow> bool" where
  "doomed h \<longleftrightarrow> sh_evb h \<noteq> None \<and> sh_sentHeaders h \<and>
     wire_of h = Inl (Abort (Undefined_behaviour ''use of a deleted handler''))"

lemma run_tasks_Inl: "run_tasks b a w ts = Inl f \<Longrightarrow> run_tasks b a w (ts @ us) = Inl f"
  by (induction b a w ts rule: run_tasks.induct) (auto split: if_splits)

definition deleting :: "'z stream_handler_scheme \<Rightarrow> bool" where
  "deleting h \<longleftrightarrow> sh_evb h \<noteq> None \<and> \<not> sh_sentHeaders h \<and> sh_posted h = [Delete_this]"

lemma doomed_body: "doomed h \<Longrightarrow> \<exists>h'. sendBody B h data = ok h' \<and> doomed h'"
  by (auto simp: doomed_def sendBody_def runInEventBaseThread_def wire_of_def run_tasks_Inl)

lemma doomed_eof: "doomed h \<Longrightarrow> \<exists>h'. sendEOF h = ok h' \<and> doomed h'"
  by (auto simp: doomed_def sendEOF_def runInEventBaseThread_def wire_of_def run_tasks_Inl)

lemma deleting_headers: "deleting h \<Longrightarrow> \<exists>h'. sendResponseHeaders B h r = ok h' \<and> doomed h'"
  by (auto simp: doomed_def deleting_def sendResponseHeaders_def runInEventBaseThread_def wire_of_def)

interpretation doomed_stream: response_stream "sendResponseHeaders B" "sendBody B" sendEOF
  deleting "\<lambda>h c p. doomed h" "\<lambda>h c p. doomed h" "\<lambda>_. []"
  for B
  by unfold_locales (simp_all add: deleting_headers doomed_body doomed_eof)

section \<open>Facts about a request for a file\<close>

lemma head_bytes_status [simp]: "iobuf_law B \<Longrightarrow> head_bytes B (HTTPResponse_status B code) = []"
  by (simp add: head_bytes_def HTTPResponse_status_def iobuf_law_def)

lemma status_HTTPResponse_status [simp]: "resp_status (HTTPResponse_status B code) = code"
  by (simp add: HTTPResponse_status_def)

lemma answered:
  assumes "iobuf_law B" and "can_answer (h :: file_handler)"
  obtains h' w where "bind (sendResponseHeaders B h (HTTPResponse_status B code)) sendEOF = ok h'"
    and "wire_of h' = ok w" and "builder_run Fresh w = Some Finished"
    and "status_sent w = Some code" and "body_bytes w = []"
  using stream.answer_stream [of B h "HTTPResponse_status B code"] assms
  by (auto elim: finished_wire)

text \<open>The headers of the job have been sent.\<close>

lemma job_opened:
  assumes "iobuf_law B" and "can_answer h" and "good (fs_open P (fh_path h))"
  obtains h1 where "in_state Streaming_body h1 200 []"
    and "read_job P B h = read_loop B (sendBody B) (unat (fh_readBufferSize h)) h1 (fs_open P (fh_path h))"
proof -
  obtain h1 where h1: "sendResponseHeaders B h (HTTPResponse_status B 200) = ok h1"
      "in_state Streaming_body h1 200 []"
    using stream.headers_stream [of B h "HTTPResponse_status B 200"] assms by auto
  moreover have "fh_readBufferSize h1 = fh_readBufferSize h"
    using h1(1) assms(2)
    by (auto simp: sendResponseHeaders_def can_answer_def runInEventBaseThread_def)
  ultimately show ?thesis
    using assms(3) by (intro that [of h1]) (simp_all add: read_job_def Let_def)
qed

lemma good_opened [simp]: "good (opened content)"
  by (simp add: good_def opened_def)

lemma job_sends:
  assumes "iobuf_law B" and "can_answer h" and "fs_open P (fh_path h) = opened content"
    and "fh_readBufferSize h \<noteq> 0"
  shows "\<exists>h'. job_then_eof P B h = Some (ok h') \<and>
    in_state Finished h' 200 (sent_bytes B (unat (fh_readBufferSize h)) content)"
proof -
  let ?n = "unat (fh_readBufferSize h)"
  have "good (fs_open P (fh_path h))" and n: "0 < ?n"
    using assms(3,4) by (simp_all add: unat_gt_0)
  then obtain h1 where h1: "in_state Streaming_body h1 200 []"
      "read_job P B h = read_loop B (sendBody B) ?n h1 (opened content)"
    using job_opened [OF assms(1,2)] assms(3) by metis
  obtain h2 where "read_loop B (sendBody B) ?n h1 (opened content) = Some (ok h2)"
      "in_state Streaming_body h2 200 (sent_bytes B ?n content)"
    using stream.read_loop_stream [OF n, of B h1 200 "[]" B content] assms(1) h1(1) by auto
  with h1(2) stream.eof_stream [of B h2 200 "sent_bytes B ?n content"] assms(1) show ?thesis
    by (auto simp: job_then_eof_def)
qed

definition unmodified :: "fs_lib \<Rightarrow> file_handler \<Rightarrow> bool" where
  "unmodified P h \<longleftrightarrow> 0 < sint (fh_ifModifiedSince h) \<and>
     (case fs_last_write_time P (fh_path h) of None \<Rightarrow> False | Some t \<Rightarrow> sint t \<le> sint (fh_ifModifiedSince h))"

lemma file_onEOM_cases:
  assumes "fs_is_regular_file P (fh_path h) = ok regular"
  shows "file_onEOM P B h =
    (if regular \<and> \<not> unmodified P h then ok (h, True)
     else noexcept (bind (bind (sendResponseHeaders B h (HTTPResponse_status B (if regular then 304 else 404))) sendEOF)
            (\<lambda>h. ok (h, False))))"
  using assms by (auto simp: file_onEOM_def unmodified_def bind_assoc split: option.splits)

lemma request_to_file:
  assumes "unescape_law F"
  shows "bind (StreamingFileHandler base n True evb) (\<lambda>h.
      streaming_onRequest F B (file_virtuals P T) current
        ((setRequestArgs h raw_path)\<lparr>sh_downstream := True\<rparr>) (Some m)) = ok
     \<lparr>sh_downstream = True, sh_evb = Some (case evb of None \<Rightarrow> current | Some e \<Rightarrow> e),
      sh_responseBuilder = True, sh_sentHeaders = False, sh_posted = [],
      fh_path = fs_append P base (sanitizePath P raw_path),
      fh_ifModifiedSince = (case getHeader m HTTP_HEADER_IF_MODIFIED_SINCE of
           None \<Rightarrow> 0 | Some s \<Rightarrow> (case tm_strptime T s ''%a, %d %b %Y %T'' of
             None \<Rightarrow> 0 | Some t \<Rightarrow> tm_mktime T t)),
      fh_readBufferSize = n, fh_rawPath = raw_path\<rparr>"
  by (simp add: StreamingFileHandler_def streaming_onRequest_def HTTPRequest_total [OF assms]
      file_virtuals_def onRequestReceived_def Let_def setRequestArgs_def StreamingHTTPHandler_def
      stream_handler.defs file_handler.defs split: option.split)

lemma served_whole:
  assumes "iobuf_law B" and "can_answer h" and "fs_is_regular_file P (fh_path h) = ok True"
    and "\<not> unmodified P h" and "fs_open P (fh_path h) = opened content"
    and "fh_readBufferSize h \<noteq> 0"
  shows "\<exists>h' w. file_onEOM P B h = ok (h, True) \<and> job_then_eof P B h = Some (ok h') \<and>
    wire_of h' = ok w \<and> builder_run Fresh w = Some Finished \<and> status_sent w = Some 200 \<and>
    body_bytes w = transmitted B (unat (fh_readBufferSize h)) content"
proof -
  obtain h' where
    "job_then_eof P B h = Some (ok h')"
    "in_state Finished h' 200 (transmitted B (unat (fh_readBufferSize h)) content)"
    using job_sends [OF assms(1,2,5,6)] transmitted_facts(1) [OF assms(1,6)] by auto
  moreover have "file_onEOM P B h = ok (h, True)"
    using file_onEOM_cases [OF assms(3)] assms(4) by simp
  ultimately show ?thesis by (auto elim: finished_wire)
qed

section \<open>Properties\<close>

text \<open>
  C11. Containment: whatever string a request asks for, absolute or not, with dots and double dots
  anywhere, unless it begins with exactly two slashes, the file the handler looks at lies below
  its base directory (written as plain names, absolute or not, and not the root directory): its path is the base followed by plain names
  only, or by a dot. The handler is then ready to answer.
\<close>

theorem file_path_contained:
  assumes "path_law P" and "element_law P" and "unescape_law F"
    and "rooted (fs_components P base)" and "fs_components P base \<noteq> []" and "fs_components P base \<noteq> [''/'']"
    and "\<not> two_slashes raw_path"
  shows "\<exists>h names. bind (StreamingFileHandler base n True evb) (\<lambda>h.
        streaming_onRequest F B (file_virtuals P T) current
          ((setRequestArgs h raw_path)\<lparr>sh_downstream := True\<rparr>) (Some m)) = ok h \<and>
      can_answer h \<and> fh_readBufferSize h = n \<and>
      fs_components P (fh_path h) = fs_components P base @ names \<and>
      (list_all plain_name names \<or> names = [''.''])"
proof -
  obtain names where "fs_components P (fs_append P base (sanitizePath P raw_path)) = fs_components P base @ names"
      "below names"
    by (rule sanitized_below [OF assms(1,2,7,4-6)])
  then show ?thesis
    by (simp add: request_to_file [OF assms(3)] can_answer_def below_def)
qed

text \<open>
  C28. No containment behind two slashes: for a request for \<open>//../\<close> and any names, and a base directory
  written without a slash at its end or two in front, boost takes the first component for the
  name of a network root, so that it is not recognised as a double dot; behind the base directory
  it is one, and the file the handler looks at is the one with these names beside the base
  directory.
\<close>

theorem file_path_escapes:
  assumes "element_law P" and "append_law P" and "root_name_law P" and "unescape_law F"
    and "list_all plain_name names" and "names \<noteq> []"
    and "base \<noteq> []" and "last base \<noteq> CHR ''/''" and "\<not> two_slashes base"
  shows "\<exists>h. bind (StreamingFileHandler base n True evb) (\<lambda>h.
        streaming_onRequest F B (file_virtuals P T) current
          ((setRequestArgs h (''//../'' @ join_names names))\<lparr>sh_downstream := True\<rparr>) (Some m)) = ok h \<and>
      can_answer h \<and> fs_components P (fh_path h) = fs_components P base @ ''..'' # names"
  using sanitize_escape [OF assms(1-3,5-9)]
  by (simp add: request_to_file [OF assms(4)] can_answer_def)

text \<open>
  C10. Serving a file: a handler that has received its request, for a regular file that is not
  covered by the \<open>If-Modified-Since\<close> time and can be opened and read to its end, starts its job at
  the end of the request. The job ends, for any non-zero buffer size, and makes one well-formed
  response with status 200. Its body is the file cut into blocks of that size, in order, each
  followed by the bytes its buffer has room for beyond the size; so it is the content of the file,
  byte for byte, exactly if a new buffer has no more room than asked for.
\<close>

theorem file_served:
  assumes "iobuf_law B" and "can_answer h" and "fs_is_regular_file P (fh_path h) = ok True"
    and "\<not> unmodified P h" and "fs_open P (fh_path h) = opened content"
    and "fh_readBufferSize h \<noteq> 0" and "n = unat (fh_readBufferSize h)"
  shows "\<exists>h' w. file_onEOM P B h = ok (h, True) \<and> job_then_eof P B h = Some (ok h') \<and>
    wire_of h' = ok w \<and> builder_run Fresh w = Some Finished \<and> status_sent w = Some 200 \<and>
    body_bytes w = concat (map (\<lambda>block. block @ surplus B n block) (blocks n content)) \<and>
    (body_bytes w = content \<longleftrightarrow> length (io_tailroom B n) = n)"
  using served_whole [OF assms(1-6)] transmitted_facts(2) [OF assms(1,6)] assms(7)
  by (auto simp: transmitted_def)

text \<open>
  C34. A new buffer may have more room than asked for (an allocator that rounds up). Then each
  turn of the loop sends the uninitialised bytes behind the data as well: the body is longer
  than the file by the surplus once per turn, and there is one turn more than whole buffers in
  the file.
\<close>

theorem file_served_with_surplus:
  assumes "iobuf_law B" and "can_answer h" and "fs_open P (fh_path h) = opened content"
    and "fh_readBufferSize h \<noteq> 0" and "n = unat (fh_readBufferSize h)"
  shows "\<exists>h' w. job_then_eof P B h = Some (ok h') \<and> wire_of h' = ok w \<and>
    length (body_bytes w) =
      length content + (length content div n + 1) * (length (io_tailroom B n) - n)"
proof -
  obtain h' where "job_then_eof P B h = Some (ok h')" "in_state Finished h' 200 (sent_bytes B n content)"
    using job_sends [OF assms(1-4)] assms(5) by blast
  moreover have "0 < n" and "n \<le> length (io_tailroom B n)"
    using assms(1,4,5) by (simp_all add: unat_gt_0 iobuf_law_def)
  ultimately show ?thesis
    by (metis finished_wire sent_bytes_length)
qed

text \<open>
  C36. Not serving a file: without a regular file the answer is 404, for a file not modified
  since the time the client named it is 304, and for one that cannot be opened it is 404 from
  the job; each is a whole, well-formed response without a body.
\<close>

theorem file_not_served:
  assumes "iobuf_law B" and "can_answer h" and "fs_is_regular_file P (fh_path h) = ok regular"
  shows "if regular \<and> \<not> unmodified P h
    then good (fs_open P (fh_path h)) \<or>
      (\<exists>h' w. job_then_eof P B h = Some (ok h') \<and> wire_of h' = ok w \<and>
         builder_run Fresh w = Some Finished \<and> status_sent w = Some 404 \<and> body_bytes w = [])
    else (\<exists>h' w. file_onEOM P B h = ok (h', False) \<and> wire_of h' = ok w \<and>
         builder_run Fresh w = Some Finished \<and>
         status_sent w = Some (if regular then 304 else 404) \<and> body_bytes w = [])"
proof (cases "regular \<and> \<not> unmodified P h")
  case True
  obtain h' w where "bind (sendResponseHeaders B h (HTTPResponse_status B 404)) sendEOF = ok h'"
      "wire_of h' = ok w" "builder_run Fresh w = Some Finished" "status_sent w = Some 404" "body_bytes w = []"
    using answered [OF assms(1,2)] .
  with True show ?thesis by (auto simp: job_then_eof_def read_job_def Let_def)
next
  case False
  obtain h' w where "bind (sendResponseHeaders B h (HTTPResponse_status B (if regular then 304 else 404))) sendEOF = ok h'"
      "wire_of h' = ok w" "builder_run Fresh w = Some Finished"
      "status_sent w = Some (if regular then 304 else 404)" "body_bytes w = []"
    using answered [OF assms(1,2)] .
  with False show ?thesis
    using file_onEOM_cases [OF assms(3), of B] by auto
qed

text \<open>
  C33. A device error in the middle of a file, or a buffer size of zero, makes the job loop for
  ever: the loop only tests \<open>eof()\<close>, which neither sets. The client gets no end of message,
  and the executor's thread never comes back.
\<close>

theorem file_read_never_ends:
  assumes "iobuf_law B" and "can_answer h" and "good (fs_open P (fh_path h))"
    and "fh_readBufferSize h = 0 \<or>
      (\<exists>k. in_reads (fs_open P (fh_path h)) = Some k \<and>
         k * unat (fh_readBufferSize h) \<le> length (in_rest (fs_open P (fh_path h))))"
  shows "job_then_eof P B h = None"
proof -
  obtain h1 where h1: "in_state Streaming_body h1 200 []"
      "read_job P B h = read_loop B (sendBody B) (unat (fh_readBufferSize h)) h1 (fs_open P (fh_path h))"
    using job_opened [OF assms(1-3)] .
  have "stuck (unat (fh_readBufferSize h)) (fs_open P (fh_path h))"
    using assms(3,4) by (auto simp: stuck_def good_def)
  then have "read_job P B h = None"
    using stream.read_loop_diverges [of B h1 200 "[]"] h1 assms(1) by simp
  then show ?thesis by (simp add: job_then_eof_def)
qed

text \<open>
  A file status that cannot be read (a name too long for the file system, say) makes
  \<open>is_regular_file\<close> throw, and \<open>onEOM\<close> is \<open>noexcept\<close>: the request ends the server process.
\<close>

theorem file_status_fault_terminates:
  assumes "fs_is_regular_file P (fh_path h) = throw e"
  shows "file_onEOM P B h = Inl (Abort (Terminate e))"
  using assms by (simp add: file_onEOM_def)

text \<open>
  A client error before the job has run: \<open>onError\<close> posts the deletion of the handler, the
  job then runs to its end all the same (it holds a plain pointer and nothing stops it), and
  the event base works on the deleted handler.
\<close>

theorem file_error_use_after_free:
  assumes "can_answer h" and "fs_open P (fh_path h) = opened content" and "fh_readBufferSize h \<noteq> 0"
  shows "\<exists>h1 h2. streaming_onError (file_virtuals P T) h err = ok h1 \<and>
    job_then_eof P B h1 = Some (ok h2) \<and>
    wire_of h2 = Inl (Abort (Undefined_behaviour ''use of a deleted handler''))"
proof -
  let ?h1 = "h\<lparr>sh_posted := [Delete_this]\<rparr>"
  have h1: "streaming_onError (file_virtuals P T) h err = ok ?h1" and d: "deleting ?h1"
    using assms(1) by (auto simp: streaming_onError_def file_virtuals_def onUnhandledError_def
        runInEventBaseThread_def can_answer_def deleting_def)
  obtain g where g: "sendResponseHeaders B ?h1 (HTTPResponse_status B 200) = ok g" "doomed g"
    using doomed_stream.headers_stream [OF d] by blast
  have size: "fh_readBufferSize g = fh_readBufferSize h"
    using g(1) assms(1)
    by (auto simp: sendResponseHeaders_def can_answer_def runInEventBaseThread_def)
  obtain g' where g': "read_loop B (sendBody B) (unat (fh_readBufferSize h)) g (opened content) = Some (ok g')"
      "doomed g'"
    using doomed_stream.read_loop_stream [OF _ g(2), of _ B] assms(3) by (metis unat_gt_0)
  obtain h2 where "sendEOF g' = ok h2" "doomed h2"
    using doomed_eof [OF g'(2)] by blast
  with g g' size assms(2) have "job_then_eof P B ?h1 = Some (ok h2)"
    by (simp add: job_then_eof_def read_job_def Let_def)
  with h1 \<open>doomed h2\<close> show ?thesis by (auto simp: doomed_def)
qed

section \<open>Witnesses\<close>

definition ref_time :: time_lib where
  "ref_time = \<lparr>tm_strptime = (\<lambda>_ _. None), tm_mktime = (\<lambda>_. 0)\<rparr>"

definition ref_file_handler :: file_handler where
  "ref_file_handler = \<lparr>sh_downstream = True, sh_evb = Some 0, sh_responseBuilder = True,
     sh_sentHeaders = False, sh_posted = [], fh_path = ''/srv/a'', fh_ifModifiedSince = 0,
     fh_readBufferSize = 4, fh_rawPath = ''a''\<rparr>"

lemma ref_file_handler_simps [simp]:
  "can_answer ref_file_handler" "\<not> unmodified P ref_file_handler"
  "fh_readBufferSize ref_file_handler = 4" "fh_path ref_file_handler = ''/srv/a''"
  by (simp_all add: ref_file_handler_def can_answer_def unmodified_def)

lemma ref_fs_simps [simp]:
  "fs_open ref_fs p = opened ''hello, world''" "fs_is_regular_file ref_fs p = ok True"
  by (simp_all add: ref_fs_def)

lemma ref_names:
  "fs_components ref_fs ''/srv'' = [''/'', ''srv'']" "rooted [''/'', ''srv'']"
  "\<not> two_slashes ''/srv''" "\<not> two_slashes ''/../../etc/passwd''" "list_all plain_name [''etc'', ''passwd'']"
  by (simp_all add: ref_fs_def boost_components_def split_path_def two_slashes_def trailing_dot_def plain_name_def)

lemma ref_iobuf_exact: "length (io_tailroom ref_iobuf n) = n"
  by (simp add: ref_iobuf_def)

lemma ref_transmitted: "0 < n \<Longrightarrow> transmitted ref_iobuf n content = content"
  by (simp add: transmitted_exact ref_iobuf_exact)

lemma file_path_contained_witness:
  "\<exists>h names. bind (StreamingFileHandler ''/srv'' 4096 True None) (\<lambda>h.
        streaming_onRequest ref_folly ref_iobuf (file_virtuals ref_fs ref_time) 7
          ((setRequestArgs h ''/../../etc/passwd'')\<lparr>sh_downstream := True\<rparr>) (Some (plain_message ''/x''))) = ok h \<and>
      can_answer h \<and> fh_readBufferSize h = 4096 \<and>
      fs_components ref_fs (fh_path h) = fs_components ref_fs ''/srv'' @ names \<and>
      (list_all plain_name names \<or> names = [''.''])"
  by (rule file_path_contained [OF ref_fs_path_law ref_fs_laws(1) ref_folly_laws(1)])
     (simp_all only: ref_names, simp_all)

lemma file_path_escapes_witness:
  "\<exists>h. bind (StreamingFileHandler ''/srv'' 4096 True None) (\<lambda>h.
        streaming_onRequest ref_folly ref_iobuf (file_virtuals ref_fs ref_time) 7
          ((setRequestArgs h (''//../'' @ join_names [''etc'', ''passwd'']))\<lparr>sh_downstream := True\<rparr>)
          (Some (plain_message ''/x''))) = ok h \<and>
      can_answer h \<and> fs_components ref_fs (fh_path h) = fs_components ref_fs ''/srv'' @ ''..'' # [''etc'', ''passwd'']"
  by (rule file_path_escapes [OF ref_fs_laws ref_folly_laws(1)]) (simp_all only: ref_names, simp_all)

lemma file_served_witness:
  "\<exists>h' w. file_onEOM ref_fs ref_iobuf ref_file_handler = ok (ref_file_handler, True) \<and>
    job_then_eof ref_fs ref_iobuf ref_file_handler = Some (ok h') \<and>
    wire_of h' = ok w \<and> builder_run Fresh w = Some Finished \<and> status_sent w = Some 200 \<and>
    body_bytes w = ''hello, world''"
proof -
  have "fs_open ref_fs (fh_path ref_file_handler) = opened ''hello, world''" by simp
  from file_served [OF ref_iobuf_law ref_file_handler_simps(1) _ ref_file_handler_simps(2) this, of 4]
  have "\<exists>h' w. file_onEOM ref_fs ref_iobuf ref_file_handler = ok (ref_file_handler, True) \<and>
      job_then_eof ref_fs ref_iobuf ref_file_handler = Some (ok h') \<and>
      wire_of h' = ok w \<and> builder_run Fresh w = Some Finished \<and> status_sent w = Some 200 \<and>
      (body_bytes w = ''hello, world'' \<longleftrightarrow> length (io_tailroom ref_iobuf 4) = 4)"
    by fastforce
  then show ?thesis by (simp add: ref_iobuf_exact)
qed

definition roomy_iobuf :: iobuf_lib where
  "roomy_iobuf = ref_iobuf\<lparr>io_tailroom := (\<lambda>n. replicate (n + 3) CHR ''?'')\<rparr>"

lemma roomy_iobuf_law: "iobuf_law roomy_iobuf"
  using ref_iobuf_law by (simp add: iobuf_law_def roomy_iobuf_def)

lemma file_served_with_surplus_witness:
  "\<exists>h' w. job_then_eof ref_fs roomy_iobuf ref_file_handler = Some (ok h') \<and> wire_of h' = ok w \<and>
    length (body_bytes w) = 12 + (12 div 4 + 1) * 3"
proof -
  have "\<exists>h' w. job_then_eof ref_fs roomy_iobuf ref_file_handler = Some (ok h') \<and> wire_of h' = ok w \<and>
    length (body_bytes w) = length ''hello, world'' +
      (length ''hello, world'' div 4 + 1) * (length (io_tailroom roomy_iobuf 4) - 4)"
    by (rule file_served_with_surplus [OF roomy_iobuf_law]) simp_all
  then show ?thesis by (simp add: roomy_iobuf_def)
qed

definition empty_fs :: fs_lib where
  "empty_fs = ref_fs\<lparr>fs_is_regular_file := (\<lambda>_. ok False)\<rparr>"

lemma file_not_served_witness:
  "\<exists>h' w. file_onEOM empty_fs ref_iobuf ref_file_handler = ok (h', False) \<and> wire_of h' = ok w \<and>
     builder_run Fresh w = Some Finished \<and> status_sent w = Some 404 \<and> body_bytes w = []"
  using file_not_served [OF ref_iobuf_law, of ref_file_handler empty_fs False]
  by (simp add: empty_fs_def)

definition failing_fs :: fs_lib where
  "failing_fs = ref_fs\<lparr>fs_open := (\<lambda>_. (opened ''hello, world'')\<lparr>in_reads := Some 2\<rparr>)\<rparr>"

lemma file_read_never_ends_witness: "job_then_eof failing_fs ref_iobuf ref_file_handler = None"
  by (rule file_read_never_ends [OF ref_iobuf_law])
     (simp_all add: failing_fs_def good_def opened_def)

lemma file_status_fault_terminates_witness:
  "file_onEOM (ref_fs\<lparr>fs_is_regular_file := (\<lambda>_. throw (System_error ''File name too long''))\<rparr>)
     ref_iobuf ref_file_handler = Inl (Abort (Terminate (System_error ''File name too long'')))"
  by (rule file_status_fault_terminates) simp

lemma file_error_use_after_free_witness:
  "\<exists>h1 h2. streaming_onError (file_virtuals ref_fs ref_time) ref_file_handler ''timeout'' = ok h1 \<and>
    job_then_eof ref_fs ref_iobuf h1 = Some (ok h2) \<and>
    wire_of h2 = Inl (Abort (Undefined_behaviour ''use of a deleted handler''))"
  by (rule file_error_use_after_free) simp_all

end
