(* ===== verification/Server_Config.thy ===== *)
theory Server_Config
  imports Paths
begin

text \<open>
  \<open>src/Config.h\<close> and \<open>src/Config.cpp\<close>: the server's settings, checked by one setter each.
  \<open>blank\<close> stands for the members of the object before the constructor has set them.
\<close>

datatype Protocol = Protocol string

record ip_config =
  ip_address :: "string \<times> uint16"
  ip_protocol :: Protocol

record config =
  cf_httpAddresses :: "ip_config list"
  cf_workerThreads :: size_t
  cf_publicDir :: path
  cf_requestTimeout :: int64
  cf_fileReaderBufferSize :: size_t
  cf_addPublicDirectoryHandler :: bool

definition kDefaultFileReaderBufferSize :: size_t where
  "kDefaultFileReaderBufferSize = 4096"

definition kDefaultRequestTimeoutMs :: int64 where
  "kDefaultRequestTimeoutMs = 30000"

section \<open>The setters\<close>

definition setHTTPAddresses :: "config \<Rightarrow> ip_config list \<Rightarrow> config outcome" where
  "setHTTPAddresses c httpAddresses =
     (if httpAddresses = [] then throw (Invalid_argument ''At least one address must be provided'')
      else ok (c\<lparr>cf_httpAddresses := httpAddresses\<rparr>))"

definition setWorkerThreads :: "folly_lib \<Rightarrow> config \<Rightarrow> size_t \<Rightarrow> config outcome" where
  "setWorkerThreads F c workerThreads =
     (if workerThreads = 0
      then throw (Invalid_argument (fl_sformat F ''Number of threads ({}) must be greater than zero''
             [FNat (unat workerThreads)]))
      else ok (c\<lparr>cf_workerThreads := workerThreads\<rparr>))"

definition setRequestTimeout :: "folly_lib \<Rightarrow> config \<Rightarrow> int64 \<Rightarrow> config outcome" where
  "setRequestTimeout F c requestTimeout =
     (if sint requestTimeout \<le> 0
      then throw (Invalid_argument (fl_sformat F ''Timeout ({}) must be greater than zero milliseconds''
             [FInt (sint requestTimeout)]))
      else ok (c\<lparr>cf_requestTimeout := requestTimeout\<rparr>))"

definition setFileReaderBufferSize :: "folly_lib \<Rightarrow> config \<Rightarrow> size_t \<Rightarrow> config outcome" where
  "setFileReaderBufferSize F c sz =
     (if sz = 0 \<or> 1024 * 1024 * 1024 < sz
      then throw (Invalid_argument (fl_sformat F
             ''The file reader buffer size ({}) must be > 0 and less than 1GB'' [FNat (unat sz)]))
      else ok (c\<lparr>cf_fileReaderBufferSize := sz\<rparr>))"

text \<open>The condition of \<open>setPublicDir\<close>, with the short-circuit of its \<open>&&\<close> and \<open>||\<close>.\<close>

definition not_a_directory :: "fs_lib \<Rightarrow> path \<Rightarrow> bool outcome" where
  "not_a_directory P fullPath =
     bind (fs_is_symlink P fullPath) (\<lambda>link.
     bind (if link then bind (fs_read_symlink P fullPath) (\<lambda>target.
             bind (fs_is_directory P target) (\<lambda>d. ok (\<not> d))) else ok False) (\<lambda>bad.
     if bad then ok True else bind (fs_is_directory P fullPath) (\<lambda>d. ok (\<not> d))))"

definition setPublicDir :: "folly_lib \<Rightarrow> fs_lib \<Rightarrow> config \<Rightarrow> string option \<Rightarrow> config outcome" where
  "setPublicDir F P c path = (case path of
       None \<Rightarrow> ok (c\<lparr>cf_addPublicDirectoryHandler := False, cf_publicDir := []\<rparr>)
     | Some p \<Rightarrow>
         catch_std
           (bind (fs_canonical P p) (\<lambda>fullPath.
            bind (not_a_directory P fullPath) (\<lambda>bad.
              if bad then throw (Invalid_argument ''Path must be a directory'')
              else ok (c\<lparr>cf_addPublicDirectoryHandler := True, cf_publicDir := fullPath\<rparr>))))
           (\<lambda>e. throw (Invalid_argument (fl_sformat F ''Could not use public directory {}: {}''
              [FStr p, FStr (what e)]))))"

section \<open>The constructors\<close>

definition Config_ip ::
  "folly_lib \<Rightarrow> fs_lib \<Rightarrow> config \<Rightarrow> ip_config list \<Rightarrow> size_t \<Rightarrow> string option \<Rightarrow> int64 \<Rightarrow> size_t
     \<Rightarrow> config outcome" where
  "Config_ip F P blank httpAddresses workerThreads publicDir requestTimeout fileReaderBufferSize =
     bind (setHTTPAddresses blank httpAddresses) (\<lambda>c.
     bind (setWorkerThreads F c workerThreads) (\<lambda>c.
     bind (setPublicDir F P c publicDir) (\<lambda>c.
     bind (setRequestTimeout F c requestTimeout) (\<lambda>c.
     setFileReaderBufferSize F c fileReaderBufferSize))))"

text \<open>
  \<open>resolve\<close> is the constructor of \<open>folly::SocketAddress\<close>, which throws a
  \<open>std::system_error\<close> for a host it cannot resolve.
\<close>

type_synonym resolver = "string \<Rightarrow> uint16 \<Rightarrow> (string \<times> uint16) outcome"

definition resolve_one :: "resolver \<Rightarrow> string \<times> uint16 \<times> Protocol \<Rightarrow> ip_config outcome" where
  "resolve_one resolve tup = (case tup of (host, port, protocol) \<Rightarrow>
     catch_if is_system_error
       (bind (resolve host port) (\<lambda>a. ok \<lparr>ip_address = a, ip_protocol = protocol\<rparr>))
       (\<lambda>e. throw (Invalid_argument (what e))))"

definition Config_tuples ::
  "folly_lib \<Rightarrow> fs_lib \<Rightarrow> resolver \<Rightarrow> config \<Rightarrow> (string \<times> uint16 \<times> Protocol) list \<Rightarrow> size_t
     \<Rightarrow> string option \<Rightarrow> int64 \<Rightarrow> size_t \<Rightarrow> config outcome" where
  "Config_tuples F P resolve blank httpAddresses workerThreads publicDir requestTimeout fileReaderBufferSize =
     bind (map_outcome (resolve_one resolve) httpAddresses) (\<lambda>newHTTPAddresses.
     bind (setHTTPAddresses blank newHTTPAddresses) (\<lambda>c.
     bind (setWorkerThreads F c workerThreads) (\<lambda>c.
     bind (setPublicDir F P c publicDir) (\<lambda>c.
     bind (setRequestTimeout F c requestTimeout) (\<lambda>c.
     setFileReaderBufferSize F c fileReaderBufferSize)))))"

definition getWorkerThreads :: "config \<Rightarrow> size_t" where
  [simp]: "getWorkerThreads c = cf_workerThreads c"

definition getHTTPAddresses :: "config \<Rightarrow> ip_config list" where
  [simp]: "getHTTPAddresses c = cf_httpAddresses c"

definition getRequestTimeout :: "config \<Rightarrow> int64" where
  [simp]: "getRequestTimeout c = cf_requestTimeout c"

definition getFileReaderBufferSize :: "config \<Rightarrow> size_t" where
  [simp]: "getFileReaderBufferSize c = cf_fileReaderBufferSize c"

definition getPublicDirectory :: "config \<Rightarrow> path option" where
  "getPublicDirectory c = (if cf_addPublicDirectoryHandler c then Some (cf_publicDir c) else None)"

section \<open>The invariant of a configuration\<close>

definition valid_config :: "config \<Rightarrow> bool" where
  "valid_config c \<longleftrightarrow> cf_httpAddresses c \<noteq> [] \<and> cf_workerThreads c \<noteq> 0 \<and>
     0 < sint (cf_requestTimeout c) \<and>
     0 < cf_fileReaderBufferSize c \<and> cf_fileReaderBufferSize c \<le> 2 ^ 30"

text \<open>What makes the arguments of a constructor acceptable.\<close>

definition usable_dir :: "fs_lib \<Rightarrow> string option \<Rightarrow> bool" where
  "usable_dir P publicDir = (case publicDir of None \<Rightarrow> True | Some p \<Rightarrow>
     (case bind (fs_canonical P p) (not_a_directory P) of Inr bad \<Rightarrow> \<not> bad | Inl _ \<Rightarrow> False))"

definition canonical_dir :: "fs_lib \<Rightarrow> string option \<Rightarrow> path option" where
  "canonical_dir P publicDir = (case publicDir of None \<Rightarrow> None | Some p \<Rightarrow>
     (case fs_canonical P p of Inr q \<Rightarrow> Some q | Inl _ \<Rightarrow> None))"

lemma setPublicDir_ok:
  "usable_dir P publicDir \<Longrightarrow> setPublicDir F P c publicDir =
     ok (c\<lparr>cf_addPublicDirectoryHandler := publicDir \<noteq> None,
           cf_publicDir := (case canonical_dir P publicDir of None \<Rightarrow> [] | Some q \<Rightarrow> q)\<rparr>)"
  by (auto simp: usable_dir_def setPublicDir_def canonical_dir_def bind_def
      split: option.splits sum.splits)

text \<open>The file system operations and the resolver only throw what their documentation says.\<close>

definition fs_throws_std :: "fs_lib \<Rightarrow> bool" where
  "fs_throws_std P \<longleftrightarrow> (\<forall>p. std_faults (fs_canonical P p) \<and> std_faults (fs_is_symlink P p) \<and>
     std_faults (fs_read_symlink P p) \<and> std_faults (fs_is_directory P p))"

definition resolver_law :: "resolver \<Rightarrow> bool" where
  "resolver_law resolve \<longleftrightarrow>
     (\<forall>h p f. resolve h p = Inl f \<longrightarrow> (\<exists>m. f = Throw (System_error m)))"

definition invalid :: "'a outcome \<Rightarrow> bool" where
  "invalid m \<longleftrightarrow> (\<exists>msg. m = throw (Invalid_argument msg))"

lemma invalid_intro [simp]: "invalid (throw (Invalid_argument msg))"
  by (simp add: invalid_def)

lemma not_a_directory_std:
  assumes "fs_throws_std P"
  shows "std_faults (not_a_directory P p)"
  unfolding not_a_directory_def using assms [unfolded fs_throws_std_def]
  by (intro throws_only_bind) (simp_all add: throws_only_bind)

lemma bind_invalid: "invalid m \<Longrightarrow> invalid (bind m f)"
  by (auto simp: invalid_def)

lemma setPublicDir_refused:
  assumes "fs_throws_std P" and "\<not> usable_dir P publicDir"
  shows "invalid (setPublicDir F P c publicDir)"
proof (cases publicDir)
  case (Some p)
  let ?found = "bind (fs_canonical P p) (not_a_directory P)"
  have "std_faults ?found"
    using assms(1) by (intro throws_only_bind not_a_directory_std) (simp_all add: fs_throws_std_def)
  moreover have "setPublicDir F P c publicDir = catch_std
      (bind (fs_canonical P p) (\<lambda>q. bind (not_a_directory P q) (\<lambda>bad.
         if bad then throw (Invalid_argument ''Path must be a directory'')
         else ok (c\<lparr>cf_addPublicDirectoryHandler := True, cf_publicDir := q\<rparr>))))
      (\<lambda>e. throw (Invalid_argument (fl_sformat F ''Could not use public directory {}: {}''
              [FStr p, FStr (what e)])))"
    using Some by (simp add: setPublicDir_def)
  ultimately show ?thesis
    using assms(2) Some
    by (auto simp: usable_dir_def throws_only_def catch_if_def invalid_def bind_def
        split: sum.splits fault.splits)
qed (use assms in \<open>simp add: usable_dir_def\<close>)

lemma setPublicDir_Inr:
  "setPublicDir F P c publicDir = ok c' \<longleftrightarrow> usable_dir P publicDir \<and>
     c' = c\<lparr>cf_addPublicDirectoryHandler := publicDir \<noteq> None,
            cf_publicDir := (case canonical_dir P publicDir of None \<Rightarrow> [] | Some q \<Rightarrow> q)\<rparr>"
proof (cases "usable_dir P publicDir")
  case False
  then show ?thesis
    by (auto simp: usable_dir_def setPublicDir_def catch_if_def bind_def
        split: option.splits sum.splits fault.splits if_splits)
qed (auto simp: setPublicDir_ok)

definition the_config ::
  "fs_lib \<Rightarrow> ip_config list \<Rightarrow> size_t \<Rightarrow> string option \<Rightarrow> int64 \<Rightarrow> size_t \<Rightarrow> config" where
  "the_config P httpAddresses workerThreads publicDir requestTimeout fileReaderBufferSize =
     \<lparr>cf_httpAddresses = httpAddresses, cf_workerThreads = workerThreads,
      cf_publicDir = (case canonical_dir P publicDir of None \<Rightarrow> [] | Some q \<Rightarrow> q),
      cf_requestTimeout = requestTimeout, cf_fileReaderBufferSize = fileReaderBufferSize,
      cf_addPublicDirectoryHandler = (publicDir \<noteq> None)\<rparr>"

definition acceptable ::
  "fs_lib \<Rightarrow> ip_config list \<Rightarrow> size_t \<Rightarrow> string option \<Rightarrow> int64 \<Rightarrow> size_t \<Rightarrow> bool" where
  "acceptable P httpAddresses workerThreads publicDir requestTimeout fileReaderBufferSize \<longleftrightarrow>
     httpAddresses \<noteq> [] \<and> workerThreads \<noteq> 0 \<and> usable_dir P publicDir \<and>
     0 < sint requestTimeout \<and> fileReaderBufferSize \<noteq> 0 \<and> fileReaderBufferSize \<le> 2 ^ 30"

lemma Config_ip_Inr:
  "Config_ip F P blank addrs n dir t sz = ok c \<longleftrightarrow>
     acceptable P addrs n dir t sz \<and> c = the_config P addrs n dir t sz"
  by (auto simp: Config_ip_def bind_eq_Inr setPublicDir_Inr setHTTPAddresses_def setWorkerThreads_def
      setRequestTimeout_def setFileReaderBufferSize_def acceptable_def the_config_def not_less not_le
      split: if_splits)

lemma the_config_valid:
  "acceptable P addrs n dir t sz \<Longrightarrow> valid_config (the_config P addrs n dir t sz)"
  by (auto simp: acceptable_def valid_config_def the_config_def word_gt_0)

lemma Config_ip_refused:
  assumes "fs_throws_std P" and "\<not> acceptable P addrs n dir t sz"
  shows "invalid (Config_ip F P blank addrs n dir t sz)"
proof (cases "usable_dir P dir")
  case False
  then show ?thesis
    using setPublicDir_refused [OF assms(1)]
    by (auto simp: Config_ip_def setHTTPAddresses_def setWorkerThreads_def intro: bind_invalid)
next
  case True
  with assms(2) show ?thesis
    by (auto simp: Config_ip_def setHTTPAddresses_def setWorkerThreads_def setRequestTimeout_def
        setFileReaderBufferSize_def acceptable_def setPublicDir_ok not_less not_le)
qed

lemma Config_tuples_eq:
  "Config_tuples F P resolve blank tuples n dir t sz =
     bind (map_outcome (resolve_one resolve) tuples) (\<lambda>ips. Config_ip F P blank ips n dir t sz)"
  by (simp add: Config_tuples_def Config_ip_def)

lemma map_outcome_invalid:
  "(\<And>x f'. x \<in> set xs \<Longrightarrow> f x = Inl f' \<Longrightarrow> invalid (f x)) \<Longrightarrow> map_outcome f xs = Inl e \<Longrightarrow>
     invalid (map_outcome f xs)"
proof (induction xs)
  case (Cons x xs)
  show ?case
  proof (cases "f x")
    case (Inl a)
    with Cons.prems(1) [of x a] show ?thesis by (simp add: invalid_def)
  next
    case (Inr b)
    with Cons show ?thesis
      by (cases "map_outcome f xs") (auto simp: invalid_def)
  qed
qed simp

lemma resolve_one_Inr:
  "resolve_one resolve (h, p, pr) = ok ip \<longleftrightarrow>
     (\<exists>a. resolve h p = ok a \<and> ip = \<lparr>ip_address = a, ip_protocol = pr\<rparr>)"
  by (auto simp: resolve_one_def catch_if_def bind_def split: sum.splits fault.splits)

lemma resolve_one_refused:
  "resolver_law resolve \<Longrightarrow> resolve_one resolve tup = Inl f \<Longrightarrow> invalid (resolve_one resolve tup)"
proof -
  assume "resolver_law resolve" and "resolve_one resolve tup = Inl f"
  moreover obtain h p pr where "tup = (h, p, pr)"
    by (cases tup)
  moreover have "(\<exists>m. resolve h p = throw (System_error m)) \<or> (\<exists>a. resolve h p = ok a)"
    using \<open>resolver_law resolve\<close> by (cases "resolve h p") (auto simp: resolver_law_def)
  ultimately show ?thesis
    by (auto simp: resolve_one_def)
qed

lemma map_outcome_Inr_iff:
  "map_outcome f xs = ok ys \<longleftrightarrow> list_all2 (\<lambda>x y. f x = ok y) xs ys"
  by (induction xs arbitrary: ys) (auto simp: bind_eq_Inr list_all2_Cons1)

lemma Config_tuples_Inr:
  "Config_tuples F P resolve blank tuples n dir t sz = ok c \<longleftrightarrow>
     (\<exists>ips. list_all2 (\<lambda>tup ip. resolve_one resolve tup = ok ip) tuples ips \<and>
        acceptable P ips n dir t sz \<and> c = the_config P ips n dir t sz)"
  by (auto simp: Config_tuples_eq bind_eq_Inr Config_ip_Inr map_outcome_Inr_iff)

lemma Config_tuples_refused:
  assumes "fs_throws_std P" and "resolver_law resolve"
    and "Config_tuples F P resolve blank tuples n dir t sz = Inl f"
  shows "invalid (Config_tuples F P resolve blank tuples n dir t sz)"
proof (cases "map_outcome (resolve_one resolve) tuples")
  case (Inl e)
  have "invalid (map_outcome (resolve_one resolve) tuples)"
    by (rule map_outcome_invalid [OF resolve_one_refused [OF assms(2)] Inl])
  then show ?thesis
    by (simp add: Config_tuples_eq bind_invalid)
next
  case (Inr ips)
  with assms(3) have "Config_ip F P blank ips n dir t sz = Inl f"
    by (simp add: Config_tuples_eq)
  then have "\<not> acceptable P ips n dir t sz"
    using Config_ip_Inr [of F P blank ips n dir t sz] by auto
  with assms(1) Inr show ?thesis
    by (simp add: Config_tuples_eq Config_ip_refused)
qed

section \<open>Properties\<close>

text \<open>
  C26. The constructor from socket addresses returns a configuration exactly when every argument
  is acceptable (at least one address, at least one thread, no public directory or one that
  exists and is a directory, a positive timeout, a read buffer of 1 byte to 1 GiB inclusive), and
  then every member holds its argument, whatever the members held before.
\<close>

theorem Config_ip_exact:
  "Config_ip F P blank addrs n dir t sz = ok c \<longleftrightarrow>
     addrs \<noteq> [] \<and> n \<noteq> 0 \<and> usable_dir P dir \<and> 0 < sint t \<and> sz \<noteq> 0 \<and> sz \<le> 2 ^ 30 \<and>
     c = the_config P addrs n dir t sz"
  by (simp add: Config_ip_Inr acceptable_def)

text \<open>
  C25. The constructor from host names: a configuration it returns satisfies the invariant of a
  configuration, lists one resolved address per host in order, and tells the public directory
  exactly when one was given; and when it does not return one, the error is always a
  \<open>std::invalid_argument\<close>, as the header promises, provided the resolver throws only
  \<open>std::system_error\<close> and the file system only standard exceptions.
\<close>

theorem Config_tuples_correct:
  assumes "fs_throws_std P" and "resolver_law resolve"
  shows "case Config_tuples F P resolve blank tuples n dir t sz of
      Inr c \<Rightarrow> valid_config c \<and>
        list_all2 (\<lambda>(h, p, pr) ip. resolve h p = ok (ip_address ip) \<and> ip_protocol ip = pr)
          tuples (cf_httpAddresses c) \<and>
        (getPublicDirectory c = None \<longleftrightarrow> dir = None)
    | Inl f \<Rightarrow> \<exists>msg. f = Throw (Invalid_argument msg)"
proof (cases "Config_tuples F P resolve blank tuples n dir t sz")
  case (Inl f)
  with Config_tuples_refused [OF assms Inl] show ?thesis by (simp add: invalid_def)
next
  case (Inr c)
  then obtain ips where ips: "list_all2 (\<lambda>tup ip. resolve_one resolve tup = ok ip) tuples ips"
    and c: "acceptable P ips n dir t sz" "c = the_config P ips n dir t sz"
    by (auto simp: Config_tuples_Inr)
  have "list_all2 (\<lambda>(h, p, pr) ip. resolve h p = ok (ip_address ip) \<and> ip_protocol ip = pr) tuples ips"
    using ips by (rule list_all2_mono) (auto simp: resolve_one_Inr)
  with Inr c the_config_valid [OF c(1)] show ?thesis
    by (simp add: the_config_def getPublicDirectory_def)
qed

definition ref_resolver :: resolver where
  "ref_resolver h p = (if h = ''nowhere'' then throw (System_error ''no such host'') else ok (h, p))"

lemma Config_tuples_correct_witness:
  "(case Config_tuples ref_folly ref_fs ref_resolver
       (the_config ref_fs [] 0 None 0 0) [(''0.0.0.0'', 8080, Protocol ''HTTP'')] 4 None 30000 4096 of
      Inr c \<Rightarrow> valid_config c \<and>
        list_all2 (\<lambda>(h, p, pr) ip. ref_resolver h p = ok (ip_address ip) \<and> ip_protocol ip = pr)
          [(''0.0.0.0'', 8080, Protocol ''HTTP'')] (cf_httpAddresses c) \<and>
        (getPublicDirectory c = None \<longleftrightarrow> (None :: string option) = None)
    | Inl f \<Rightarrow> \<exists>msg. f = Throw (Invalid_argument msg)) \<and>
   valid_config (the_config ref_fs [\<lparr>ip_address = (''0.0.0.0'', 8080), ip_protocol = Protocol ''HTTP''\<rparr>]
      4 None 30000 4096)"
proof (rule conjI)
  show "case Config_tuples ref_folly ref_fs ref_resolver
       (the_config ref_fs [] 0 None 0 0) [(''0.0.0.0'', 8080, Protocol ''HTTP'')] 4 None 30000 4096 of
      Inr c \<Rightarrow> valid_config c \<and>
        list_all2 (\<lambda>(h, p, pr) ip. ref_resolver h p = ok (ip_address ip) \<and> ip_protocol ip = pr)
          [(''0.0.0.0'', 8080, Protocol ''HTTP'')] (cf_httpAddresses c) \<and>
        (getPublicDirectory c = None \<longleftrightarrow> (None :: string option) = None)
    | Inl f \<Rightarrow> \<exists>msg. f = Throw (Invalid_argument msg)"
    by (rule Config_tuples_correct)
       (simp_all add: fs_throws_std_def ref_fs_def resolver_law_def ref_resolver_def)
qed (simp add: valid_config_def the_config_def word_gt_0)

end
