(* ===== verification/Handler_Factory.thy ===== *)
theory Handler_Factory
  imports Server_Config Streaming_Handler
begin

text \<open>
  \<open>src/HTTPHandlerFactory.h\<close>: the factory proxygen asks for a handler per request. It routes
  the request and makes an \<open>HTTPHandler\<close> with the configured timeout, or lets the matched
  streaming route make its own handler.
\<close>

section \<open>State and operations\<close>

record 'h handler_factory =
  hf_config :: config
  hf_router :: "'h router"
  hf_evb :: "event_base option"

definition HTTPHandlerFactory :: "config \<Rightarrow> 'h router \<Rightarrow> 'h handler_factory" where
  "HTTPHandlerFactory config router = \<lparr>hf_config = config, hf_router = router, hf_evb = None\<rparr>"

definition onServerStart :: "'h handler_factory \<Rightarrow> event_base option \<Rightarrow> 'h handler_factory outcome" where
  "onServerStart fac evb = noexcept
     (bind (check (evb \<noteq> None) ''evb != nullptr'') (\<lambda>_. ok (fac\<lparr>hf_evb := evb\<rparr>)))"

definition onServerStop :: "'h handler_factory \<Rightarrow> 'h handler_factory" where
  "onServerStop fac = fac"

datatype 'h request_handler = Plain_handler "'h http_handler" | Streaming_handler_object 'h

text \<open>The result \<open>None\<close> is a null pointer.\<close>

definition factory_onRequest ::
  "folly_lib \<Rightarrow> regex_lib \<Rightarrow> iobuf_lib \<Rightarrow> futures_lib \<Rightarrow> 'h handler_factory \<Rightarrow> http_message option
     \<Rightarrow> 'h request_handler option outcome" where
  "factory_onRequest F R B X fac message = noexcept
     (bind (check (message \<noteq> None) ''message != nullptr'') (\<lambda>_.
      bind (getHandler F R B X (hf_router fac) message) (\<lambda>routeMatch.
      bind (check (rm_handler routeMatch \<noteq> None \<or> rm_streamingHandler routeMatch \<noteq> None)
              ''Neither handler nor streamingHandler were set in HTTPHandlerFactory'') (\<lambda>_.
      case rm_handler routeMatch of
        Some handler \<Rightarrow>
          bind (new_HTTPHandler B (getRequestTimeout (hf_config fac)) (Some (hf_router fac)) (Some handler))
            (\<lambda>h. ok (Some (Plain_handler h)))
      | None \<Rightarrow> (case rm_streamingHandler routeMatch of
          Some streamingHandler \<Rightarrow>
            bind (fst (streamingHandler ())) (\<lambda>h. ok (map_option Streaming_handler_object h))
        | None \<Rightarrow> ok None)))))"

section \<open>Facts\<close>

lemma factory_onRequest_plain:
  assumes "getHandler F R B X (hf_router fac) (Some m) = ok x" and "rm_handler x = Some handler"
  shows "factory_onRequest F R B X fac (Some m) =
    ok (Some (Plain_handler \<lparr>hh_timeout = cf_requestTimeout (hf_config fac), hh_router = hf_router fac,
      hh_handler = Some handler, hh_body = Some (io_create B 0), hh_message = None, hh_request = None,
      hh_response = None\<rparr>))"
  using assms by (simp add: factory_onRequest_def new_HTTPHandler_def)

lemma factory_onRequest_streaming:
  assumes "getHandler F R B X (hf_router fac) (Some m) = ok x"
    and "rm_streamingHandler x = Some s" and "rm_handler x = None"
  shows "factory_onRequest F R B X fac (Some m) = noexcept
    (bind (fst (s ())) (\<lambda>h. ok (map_option Streaming_handler_object h)))"
  using assms by (simp add: factory_onRequest_def)

lemma factory_onRequest_fault:
  assumes "getHandler F R B X (hf_router fac) (Some m) = throw e"
  shows "factory_onRequest F R B X fac (Some m) = Inl (Abort (Terminate e))"
  using assms by (simp add: factory_onRequest_def)

lemma scan_fault:
  assumes "\<forall>q \<in> set pre. route_ready F R q m" and "\<forall>q \<in> set pre. \<not> accepts F R q m"
    and "route_handler F R r (Some m) = Inl f"
  shows "scan_routes (route_handler F R) (pre @ r # post) (Some m) nf = Inl f"
proof -
  have "scan_routes (route_handler F R) pre (Some m) nf = ok (Inl (nf \<or> (\<exists>r \<in> set pre. route_path F R r m)))"
    using assms(1,2) by (intro dispatch.scan_miss) (auto simp: accepts_def)
  with assms(3) show ?thesis by (simp add: scan_append)
qed

section \<open>Properties\<close>

text \<open>
  The factory asks the router and follows it: a match with a plain handler becomes an
  \<open>HTTPHandler\<close> with the configured timeout, the factory's router and that handler, waiting for
  the request with an empty body; a match with a streaming route becomes the object that
  route makes. The factory itself never fails on a request its routes can match.
\<close>

theorem factory_follows_router:
  assumes "routable F R (hf_router fac) m" and "iobuf_law B"
  shows "\<exists>x. getHandler F R B X (hf_router fac) (Some m) = ok x \<and>
    (case rm_handler x of
       Some handler \<Rightarrow> factory_onRequest F R B X fac (Some m) = ok (Some (Plain_handler
         \<lparr>hh_timeout = cf_requestTimeout (hf_config fac), hh_router = hf_router fac,
          hh_handler = Some handler, hh_body = Some [[]], hh_message = None, hh_request = None,
          hh_response = None\<rparr>))
     | None \<Rightarrow> (\<exists>s. rm_streamingHandler x = Some s \<and> factory_onRequest F R B X fac (Some m) =
         noexcept (bind (fst (s ())) (\<lambda>h. ok (map_option Streaming_handler_object h)))))"
proof -
  obtain x where x: "getHandler F R B X (hf_router fac) (Some m) = ok x"
    using getHandler_total [OF assms(1)] by blast
  show ?thesis
  proof (cases "rm_handler x")
    case None
    with getHandler_callable [OF x] obtain s where "rm_streamingHandler x = Some s"
      by (auto simp: one_callable_def)
    with None factory_onRequest_streaming [OF x] x show ?thesis by fastforce
  next
    case (Some handler)
    with factory_onRequest_plain [OF x Some] x assms(2) show ?thesis
      by (simp add: iobuf_law_def)
  qed
qed

text \<open>
  A streaming static route: whatever standard exception the user's factory or
  \<open>setRequestArgs\<close> throws, the server survives; proxygen gets the handler object when both
  succeed, and a null handler otherwise, which the code leaves as an open task.
\<close>

theorem factory_streaming_route:
  assumes "routable F R (hf_router fac) m"
    and "ask_order (hf_router fac) =
      pre @ Static (make_streaming_static_route pattern methods made setRequestArgs) # post"
    and "\<forall>q \<in> set pre. \<not> accepts F R q m"
    and "effective_path F m = pattern" and "effective_method m \<in> methods"
    and "std_faults made" and "\<And>h. std_faults (setRequestArgs h)"
  shows "factory_onRequest F R B X fac (Some m) = ok
    (case made of
       Inr (Some h) \<Rightarrow> (case setRequestArgs h of Inr h' \<Rightarrow> Some (Streaming_handler_object h') | Inl _ \<Rightarrow> None)
     | _ \<Rightarrow> None)"
proof -
  let ?r = "make_streaming_static_route pattern methods made setRequestArgs"
  have "accepts F R (Static ?r) m"
    using assms(4,5) by (simp add: accepts_def make_streaming_static_route_def)
  from getHandler_first [OF assms(1-3) this] obtain x where
    x: "route_handler F R (Static ?r) (Some m) = ok x" "getHandler F R B X (hf_router fac) (Some m) = ok x"
    by blast
  have "addressable F m"
    using assms(1,2) by (auto simp: routable_def)
  then have "x = \<lparr>rm_result = RouteMatched, rm_handler = None,
      rm_streamingHandler = Some (\<lambda>_. guarded_call made setRequestArgs)\<rparr>"
    using x(1) assms(4,5)
    by (cases rule: addressable_cases [of F m])
       (auto simp: static_handler_eq make_streaming_static_route_def)
  then show ?thesis
    using factory_onRequest_streaming [OF x(2)] guarded_call_owned [OF assms(6,7)]
    by (auto split: sum.split option.split)
qed

text \<open>
  When no earlier route accepts the request and matching a regular expression throws (the
  library gives up on an expression that backtracks too much), the exception leaves
  \<open>onRequest\<close>, which is \<open>noexcept\<close>: one request ends the whole server process.
\<close>

theorem regex_fault_terminates:
  assumes "ask_order (hf_router fac) = pre @ Regex r # post"
    and "\<forall>q \<in> set pre. route_ready F R q m" and "\<forall>q \<in> set pre. \<not> accepts F R q m"
    and "addressable F m" and "re_match R (rr_regex r) (effective_path F m) = throw e"
  shows "factory_onRequest F R B X fac (Some m) = Inl (Abort (Terminate e))"
proof -
  have "route_handler F R (Regex r) (Some m) = throw e"
    using assms(4,5) by (cases rule: addressable_cases [of F m]) (simp_all add: regex_handler_eq)
  from scan_fault [OF assms(2,3) this]
  have "getHandler F R B X (hf_router fac) (Some m) = throw e"
    using assms(1) by (simp add: getHandler_scan)
  then show ?thesis by (rule factory_onRequest_fault)
qed

section \<open>Witnesses\<close>

definition ref_config :: config where
  "ref_config = the_config ref_fs [\<lparr>ip_address = (''0.0.0.0'', 8080), ip_protocol = Protocol ''HTTP''\<rparr>]
     4 None 30000 4096"

definition ref_factory :: "unit handler_factory" where
  "ref_factory = HTTPHandlerFactory ref_config (make_router (\<lambda>_. None) ref_routes)"

lemma ref_factory_router: "hf_router ref_factory = make_router (\<lambda>_. None) ref_routes"
  by (simp add: ref_factory_def HTTPHandlerFactory_def)

lemma factory_follows_router_witness:
  "\<exists>x. getHandler ref_folly ref_regex ref_iobuf ref_futures (hf_router ref_factory)
         (Some (plain_message ''/hello'')) = ok x \<and>
    (case rm_handler x of
       Some handler \<Rightarrow> factory_onRequest ref_folly ref_regex ref_iobuf ref_futures ref_factory
           (Some (plain_message ''/hello'')) = ok (Some (Plain_handler
         \<lparr>hh_timeout = cf_requestTimeout (hf_config ref_factory), hh_router = hf_router ref_factory,
          hh_handler = Some handler, hh_body = Some [[]], hh_message = None, hh_request = None,
          hh_response = None\<rparr>))
     | None \<Rightarrow> (\<exists>s. rm_streamingHandler x = Some s \<and>
         factory_onRequest ref_folly ref_regex ref_iobuf ref_futures ref_factory
           (Some (plain_message ''/hello'')) =
         noexcept (bind (fst (s ())) (\<lambda>h. ok (map_option Streaming_handler_object h)))))"
  by (rule factory_follows_router [OF _ ref_iobuf_law])
     (simp add: ref_factory_router ref_routable)

definition ref_streaming_factory :: "nat handler_factory" where
  "ref_streaming_factory = HTTPHandlerFactory ref_config (make_router (\<lambda>_. None)
     [Static (make_streaming_static_route ''/hello'' {GET} (ok (Some 1)) (\<lambda>h. ok (h + 1)))])"

lemma factory_streaming_route_witness:
  "factory_onRequest ref_folly ref_regex ref_iobuf ref_futures ref_streaming_factory
     (Some (plain_message ''/hello'')) = ok (Some (Streaming_handler_object 2))"
proof -
  have "factory_onRequest ref_folly ref_regex ref_iobuf ref_futures ref_streaming_factory
      (Some (plain_message ''/hello'')) = ok
    (case ok (Some (1 :: nat)) of
       Inr (Some h) \<Rightarrow> (case ok (h + 1) of Inr h' \<Rightarrow> Some (Streaming_handler_object h') | Inl _ \<Rightarrow> None)
     | _ \<Rightarrow> None)"
    by (rule factory_streaming_route [where pre = "[]" and post = "[]" and methods = "{GET}"
          and pattern = "''/hello''"])
       (simp_all add: ref_streaming_factory_def HTTPHandlerFactory_def make_router_eq ask_order_def
         routable_def addressable_total [OF ref_folly_laws(1)] ref_hello_path ref_hello_method
         make_streaming_static_route_def throws_only_def)
  then show ?thesis by simp
qed

definition exhausted_regex :: regex_lib where
  "exhausted_regex = ref_regex\<lparr>re_match := (\<lambda>_ _. throw (Runtime_error ''complexity''))\<rparr>"

lemma regex_fault_terminates_witness:
  "factory_onRequest ref_folly exhausted_regex ref_iobuf ref_futures ref_factory
     (Some (plain_message ''/other'')) = Inl (Abort (Terminate (Runtime_error ''complexity'')))"
proof -
  obtain r where r: "ref_regex_route = Regex r" by (simp add: ref_regex_route_def)
  have other: "effective_path ref_folly (plain_message ''/other'') = ''/other''"
    by (simp add: effective_path_def unescaped_def plain_message_def ref_folly_def value_or_def)
  show ?thesis
    by (rule regex_fault_terminates [where pre = "[ref_static]" and post = "[]" and r = r])
       (simp_all add: ref_factory_router make_router_eq ask_order_def ref_routes_def r
         ref_static_def make_static_route_def accepts_def other
         addressable_total [OF ref_folly_laws(1)] exhausted_regex_def)
qed

end
