(* ===== verification/Server_Life.thy ===== *)
theory Server_Life
  imports Handler_Factory
begin

text \<open>
  \<open>src/Server.h\<close> and \<open>src/Server.cpp\<close>: starting and stopping the server. \<open>start\<close> spawns the
  main thread and \<open>stop\<close> spawns a thread of its own each time it is called; their turns
  interleave. proxygen's server is a parameter but for what its documentation says of
  \<open>start\<close> and \<open>stop\<close>.
\<close>

section \<open>Options\<close>

record 'h server_options =
  so_threads :: size_t
  so_handlerFactories :: "'h handler_factory list"
  so_enableContentCompression :: bool

definition getHTTPServerOptions :: "config \<Rightarrow> 'h router \<Rightarrow> 'h server_options" where
  "getHTTPServerOptions config router =
     \<lparr>so_threads = getWorkerThreads config,
      so_handlerFactories = [HTTPHandlerFactory config router],
      so_enableContentCompression = True\<rparr>"

section \<open>State\<close>

text \<open>
  The main thread's life inside \<open>server_.start\<close>, which calls one of its two callbacks, and
  the position of a thread made by \<open>stop\<close> in its lambda.
\<close>

datatype main_state = Not_running | Starting | Serving | Exited

datatype promise = Pending | Fulfilled | Failed

datatype stop_position = At_check | At_stop | At_join | At_clear | At_set | Done

text \<open>\<open>sv_mainThread\<close> is the \<open>Optional<thread>\<close>, with whether the thread is still joinable.\<close>

record 'h server =
  sv_config :: config
  sv_options :: "'h server_options"
  sv_mainThread :: "bool option"
  sv_main :: main_state
  sv_stopRequested :: bool
  sv_startPromise :: promise
  sv_stops :: "stop_position list"

definition Server :: "config \<Rightarrow> 'h router \<Rightarrow> 'h server" where
  "Server config router =
     \<lparr>sv_config = config, sv_options = getHTTPServerOptions config router, sv_mainThread = None,
      sv_main = Not_running, sv_stopRequested = False, sv_startPromise = Pending, sv_stops = []\<rparr>"

section \<open>Operations\<close>

definition start :: "(ip_config list \<Rightarrow> unit outcome) \<Rightarrow> 'h server \<Rightarrow> 'h server outcome" where
  "start bind_server sv =
     bind (check (sv_mainThread sv = None) ''A server can only be started once'') (\<lambda>_.
     bind (bind_server (getHTTPAddresses (sv_config sv))) (\<lambda>_.
     ok (sv\<lparr>sv_mainThread := Some True, sv_main := Starting, sv_stopRequested := False,
            sv_startPromise := Pending\<rparr>)))"

definition stop :: "'h server \<Rightarrow> 'h server" where
  "stop sv = sv\<lparr>sv_stops := sv_stops sv @ [At_check]\<rparr>"

text \<open>The main thread: \<open>server_.start\<close> reports success or failure; a running server stops on request.\<close>

definition main_turn :: "bool \<Rightarrow> 'h server \<Rightarrow> 'h server option" where
  "main_turn success sv = (case sv_main sv of
       Starting \<Rightarrow> Some (if success then sv\<lparr>sv_main := Serving, sv_startPromise := Fulfilled\<rparr>
                        else sv\<lparr>sv_main := Exited, sv_startPromise := Failed\<rparr>)
     | Serving \<Rightarrow> if sv_stopRequested sv then Some (sv\<lparr>sv_main := Exited\<rparr>) else None
     | _ \<Rightarrow> None)"

text \<open>
  One turn of a stopping thread; \<open>None\<close> while it is blocked. \<open>server_.stop\<close> may only be called
  after the start callback. An exception that leaves the lambda terminates the process:
  \<open>join\<close> on an empty \<open>Optional\<close> or on a thread that was joined before throws.
\<close>

definition stop_turn :: "nat \<Rightarrow> 'h server \<Rightarrow> 'h server outcome option" where
  "stop_turn i sv =
     (if length (sv_stops sv) \<le> i then None else
      let goto = (\<lambda>sv p. Some (ok (sv\<lparr>sv_stops := (sv_stops sv)[i := p]\<rparr>)))
      in case sv_stops sv ! i of
           At_check \<Rightarrow> goto sv (if sv_mainThread sv = None then Done else At_stop)
         | At_stop \<Rightarrow>
             if sv_startPromise sv = Fulfilled then goto (sv\<lparr>sv_stopRequested := True\<rparr>) At_join
             else Some (Inl (Abort (Undefined_behaviour ''HTTPServer::stop() before it has started'')))
         | At_join \<Rightarrow> (case sv_mainThread sv of
               None \<Rightarrow> Some (Inl (Abort (Terminate (Other_std ''Empty Optional''))))
             | Some False \<Rightarrow> Some (Inl (Abort (Terminate (System_error ''thread::join failed''))))
             | Some True \<Rightarrow>
                 if sv_main sv = Exited then goto (sv\<lparr>sv_mainThread := Some False\<rparr>) At_clear else None)
         | At_clear \<Rightarrow> goto (sv\<lparr>sv_mainThread := None\<rparr>) At_set
         | At_set \<Rightarrow> goto sv Done
         | Done \<Rightarrow> None)"

section \<open>Schedules\<close>

datatype turn = Call_start | Call_stop | Main_turn bool | Stop_turn nat

fun server_turn ::
  "(ip_config list \<Rightarrow> unit outcome) \<Rightarrow> turn \<Rightarrow> 'h server \<Rightarrow> 'h server outcome option" where
  "server_turn bind_server Call_start sv = Some (start bind_server sv)"
| "server_turn bind_server Call_stop sv = Some (ok (stop sv))"
| "server_turn bind_server (Main_turn success) sv = map_option ok (main_turn success sv)"
| "server_turn bind_server (Stop_turn i) sv = stop_turn i sv"

fun run_turns ::
  "(ip_config list \<Rightarrow> unit outcome) \<Rightarrow> turn list \<Rightarrow> 'h server \<Rightarrow> 'h server outcome option" where
  "run_turns bind_server [] sv = Some (ok sv)"
| "run_turns bind_server (t # ts) sv = (case server_turn bind_server t sv of
       None \<Rightarrow> None
     | Some (Inl f) \<Rightarrow> Some (Inl f)
     | Some (Inr sv') \<Rightarrow> run_turns bind_server ts sv')"

text \<open>
  A careful owner: \<open>start\<close> when no thread is left from before, \<open>stop\<close> when the start has
  succeeded, and neither while a stop is under way.
\<close>

definition all_done :: "'h server \<Rightarrow> bool" where
  "all_done sv \<longleftrightarrow> (\<forall>p \<in> set (sv_stops sv). p = Done)"

fun allowed :: "turn \<Rightarrow> 'h server \<Rightarrow> bool" where
  "allowed Call_start sv = (sv_mainThread sv = None \<and> all_done sv)"
| "allowed Call_stop sv = (sv_mainThread sv = Some True \<and> sv_main sv = Serving \<and> all_done sv)"
| "allowed _ sv = True"

inductive server_reachable ::
  "(ip_config list \<Rightarrow> unit outcome) \<Rightarrow> 'h server \<Rightarrow> 'h server \<Rightarrow> bool" for bind_server sv0 where
  initial: "server_reachable bind_server sv0 sv0"
| turn: "server_reachable bind_server sv0 sv \<Longrightarrow> allowed t sv \<Longrightarrow>
    server_turn bind_server t sv = Some (ok sv') \<Longrightarrow> server_reachable bind_server sv0 sv'"

section \<open>The invariant\<close>

text \<open>What holds while the one stop under way is at a position.\<close>

definition running :: "'h server \<Rightarrow> bool" where
  "running sv \<longleftrightarrow> sv_mainThread sv = Some True \<and> sv_main sv = Serving \<and>
     sv_startPromise sv = Fulfilled \<and> \<not> sv_stopRequested sv"

definition resting :: "'h server \<Rightarrow> bool" where
  "resting sv \<longleftrightarrow> sv_mainThread sv = None \<and> sv_main sv \<in> {Not_running, Exited}"

definition starting :: "'h server \<Rightarrow> bool" where
  "starting sv \<longleftrightarrow> sv_mainThread sv = Some True \<and> sv_main sv \<in> {Starting, Exited} \<and> \<not> sv_stopRequested sv"

fun position_ok :: "stop_position \<Rightarrow> 'h server \<Rightarrow> bool" where
  "position_ok At_check sv = running sv"
| "position_ok At_stop sv = running sv"
| "position_ok At_join sv = (sv_mainThread sv = Some True \<and>
     (sv_main sv = Exited \<or> sv_main sv = Serving \<and> sv_stopRequested sv))"
| "position_ok At_clear sv = (sv_mainThread sv = Some False \<and> sv_main sv = Exited)"
| "position_ok At_set sv = (sv_mainThread sv = None \<and> sv_main sv = Exited)"
| "position_ok Done sv = (resting sv \<or> starting sv \<or> running sv)"

text \<open>\<open>active sv i p\<close>: all threads but perhaps the \<open>i\<close>-th are done, and that one is at \<open>p\<close>.\<close>

definition active :: "'h server \<Rightarrow> nat \<Rightarrow> stop_position \<Rightarrow> bool" where
  "active sv i p \<longleftrightarrow> i < length (sv_stops sv) \<and> sv_stops sv ! i = p \<and> p \<noteq> Done \<and>
     (\<forall>j < length (sv_stops sv). j \<noteq> i \<longrightarrow> sv_stops sv ! j = Done)"

definition server_inv :: "'h server \<Rightarrow> bool" where
  "server_inv sv \<longleftrightarrow> all_done sv \<and> position_ok Done sv \<or> (\<exists>i p. active sv i p \<and> position_ok p sv)"

lemma all_done_nth: "all_done sv \<longleftrightarrow> (\<forall>j < length (sv_stops sv). sv_stops sv ! j = Done)"
  by (simp add: all_done_def all_set_conv_all_nth)

lemma active_not_done: "active sv i p \<Longrightarrow> \<not> all_done sv"
  by (auto simp: active_def all_done_nth)

text \<open>Moving the active thread on.\<close>

lemma active_update:
  "active sv i p \<Longrightarrow> sv_stops sv' = (sv_stops sv)[i := q] \<Longrightarrow>
   if q = Done then all_done sv' else active sv' i q"
  by (auto simp: active_def all_done_nth nth_list_update)

lemma active_unique: "active sv i p \<Longrightarrow> j < length (sv_stops sv) \<Longrightarrow> sv_stops sv ! j \<noteq> Done \<Longrightarrow> j = i"
  by (auto simp: active_def)

lemma server_inv_cases:
  assumes "server_inv sv"
  obtains (idle) "all_done sv" "position_ok Done sv"
  | (stopping) i p where "active sv i p" "position_ok p sv"
  using assms by (auto simp: server_inv_def)

lemmas phase_defs = running_def resting_def starting_def

lemma main_turn_inv:
  assumes "server_inv sv" and "main_turn success sv = Some sv'"
  shows "server_inv sv'"
proof -
  have stops: "sv_stops sv' = sv_stops sv"
    using assms(2) by (auto simp: main_turn_def split: main_state.splits if_splits)
  from assms(1) show ?thesis
  proof (cases rule: server_inv_cases)
    case idle
    with assms(2) have "position_ok Done sv'"
      by (auto simp: main_turn_def phase_defs split: main_state.splits if_splits)
    with idle(1) stops show ?thesis by (simp add: server_inv_def all_done_def)
  next
    case (stopping i p)
    with assms(2) have "position_ok p sv'"
      by (cases p) (auto simp: main_turn_def phase_defs active_def split: main_state.splits if_splits)
    moreover have "active sv' i p"
      using stopping(1) stops by (simp add: active_def)
    ultimately show ?thesis by (auto simp: server_inv_def)
  qed
qed

lemma stop_turn_inv:
  assumes "server_inv sv" and "stop_turn i sv = Some res"
  shows "\<exists>sv'. res = ok sv' \<and> server_inv sv'"
proof -
  have i: "i < length (sv_stops sv)" "sv_stops sv ! i \<noteq> Done"
    using assms(2) by (auto simp: stop_turn_def split: if_splits)
  from assms(1) show ?thesis
  proof (cases rule: server_inv_cases)
    case idle
    with i show ?thesis by (simp add: all_done_nth)
  next
    case (stopping j p)
    with active_unique [OF stopping(1) i] have act: "active sv i p" and at: "sv_stops sv ! i = p"
      by (auto simp: active_def)
    have next_ok: "server_inv sv'" if "sv_stops sv' = (sv_stops sv)[i := q]" "position_ok q sv'" for sv' q
      using active_update [OF act that(1)] that(2) by (auto simp: server_inv_def split: if_splits)
    show ?thesis
      using assms(2) i(1) at stopping(2)
      by (cases p) (auto simp: stop_turn_def Let_def phase_defs split: if_splits intro!: next_ok)
  qed
qed

lemma server_turn_inv:
  assumes "server_inv sv" and "allowed t sv" and "server_turn bs t sv = Some (ok sv')"
  shows "server_inv sv'"
proof (cases t)
  case Call_start
  with assms show ?thesis
    by (auto simp: start_def bind_eq_Inr server_inv_def all_done_def phase_defs)
next
  case Call_stop
  with assms(2) have quiet: "all_done sv" and run: "running sv"
    using assms(1) active_not_done by (auto simp: server_inv_def phase_defs)
  have "active (stop sv) (length (sv_stops sv)) At_check"
    using quiet by (auto simp: active_def stop_def all_done_nth nth_append)
  moreover have "position_ok At_check (stop sv)"
    using run by (simp add: stop_def running_def)
  ultimately have "server_inv (stop sv)"
    unfolding server_inv_def by blast
  then show ?thesis
    using Call_stop assms(3) by simp
next
  case (Main_turn success)
  with assms main_turn_inv show ?thesis by auto
next
  case (Stop_turn i)
  with assms stop_turn_inv [of sv i] show ?thesis by auto
qed

lemma server_inv_reachable:
  "server_reachable bs (Server config router) sv \<Longrightarrow> server_inv sv"
proof (induction rule: server_reachable.induct)
  case initial
  show ?case by (simp add: Server_def server_inv_def all_done_def resting_def)
next
  case (turn sv t sv')
  then show ?case by (auto intro: server_turn_inv)
qed

text \<open>From every position the stop can be run to its end.\<close>

fun finish :: "'h server \<Rightarrow> nat \<Rightarrow> stop_position \<Rightarrow> turn list" where
  "finish sv i At_check = [Stop_turn i, Stop_turn i, Main_turn True, Stop_turn i, Stop_turn i, Stop_turn i]"
| "finish sv i At_stop = [Stop_turn i, Main_turn True, Stop_turn i, Stop_turn i, Stop_turn i]"
| "finish sv i At_join =
     (if sv_main sv = Serving then [Main_turn True] else []) @ [Stop_turn i, Stop_turn i, Stop_turn i]"
| "finish sv i At_clear = [Stop_turn i, Stop_turn i]"
| "finish sv i At_set = [Stop_turn i]"
| "finish sv i Done = []"

lemma finish_length: "length (finish sv i p) \<le> 6"
  by (cases p) simp_all

lemma all_done_update: "active sv i p \<Longrightarrow> sv_stops sv' = (sv_stops sv)[i := Done] \<Longrightarrow> all_done sv'"
  using active_update [of sv i p sv' Done] by simp

lemma finish_runs:
  assumes "active sv i p" and "position_ok p sv"
  shows "\<exists>sv'. run_turns bs (finish sv i p) sv = Some (ok sv') \<and> all_done sv' \<and> sv_mainThread sv' = None"
proof -
  have i: "i < length (sv_stops sv)" "sv_stops sv ! i = p" "p \<noteq> Done"
    using assms(1) by (auto simp: active_def)
  show ?thesis
    using assms(2) i
    by (cases p) (auto simp: stop_turn_def main_turn_def Let_def phase_defs
        intro!: all_done_update [OF assms(1)])
qed

section \<open>Every order of the threads\<close>

text \<open>Turns of the threads alone.\<close>

fun thread_turn :: "turn \<Rightarrow> bool" where
  "thread_turn (Main_turn success) = True"
| "thread_turn (Stop_turn i) = True"
| "thread_turn _ = False"

fun turns_left :: "stop_position \<Rightarrow> nat" where
  "turns_left At_check = 5"
| "turns_left At_stop = 4"
| "turns_left At_join = 3"
| "turns_left At_clear = 2"
| "turns_left At_set = 1"
| "turns_left Done = 0"

lemma turns_left_bound: "turns_left p \<le> 5"
  by (cases p) simp_all

fun next_position :: "stop_position \<Rightarrow> stop_position" where
  "next_position At_check = At_stop"
| "next_position At_stop = At_join"
| "next_position At_join = At_clear"
| "next_position At_clear = At_set"
| "next_position _ = Done"

definition stopped :: "'h server \<Rightarrow> bool" where
  "stopped sv \<longleftrightarrow> all_done sv \<and> sv_mainThread sv = None \<and> sv_main sv = Exited"

text \<open>A stop under way that at most \<open>n\<close> turns of the threads bring to its end.\<close>

definition stops_within :: "nat \<Rightarrow> 'h server \<Rightarrow> bool" where
  "stops_within n sv \<longleftrightarrow> (\<exists>i p. active sv i p \<and> position_ok p sv \<and>
     turns_left p + (if sv_main sv = Serving then 1 else 0) = n) \<or> n = 0 \<and> stopped sv"

lemma stops_within_bound: "stops_within n sv \<Longrightarrow> n \<le> 6"
  using turns_left_bound le_SucI by (fastforce simp: stops_within_def)

lemma stops_within_start:
  assumes "server_inv sv" and "\<not> all_done sv"
  shows "\<exists>n. stops_within n sv"
proof -
  obtain i p where "active sv i p" "position_ok p sv"
    using assms by (auto elim: server_inv_cases)
  then show ?thesis unfolding stops_within_def by blast
qed

lemma stopped_rests: "stopped sv \<Longrightarrow> thread_turn t \<Longrightarrow> server_turn bs t sv = None"
  by (cases t) (auto simp: stopped_def main_turn_def stop_turn_def all_done_nth)

lemma main_turn_stopping:
  assumes "active sv i p" and "position_ok p sv" and "main_turn success sv = Some sv'"
  shows "p = At_join \<and> sv_main sv = Serving \<and> sv' = sv\<lparr>sv_main := Exited\<rparr>"
  using assms
  by (cases p) (auto simp: main_turn_def phase_defs active_def split: main_state.splits if_splits)

lemma stop_turn_stopping:
  assumes "active sv i p" and "position_ok p sv" and "stop_turn j sv = Some res"
  shows "\<exists>sv'. res = ok sv' \<and> sv_stops sv' = (sv_stops sv)[i := next_position p] \<and>
    position_ok (next_position p) sv' \<and> turns_left p = Suc (turns_left (next_position p)) \<and>
    sv_main sv' = sv_main sv \<and> (next_position p = Done \<longrightarrow> stopped sv')"
proof -
  have j: "j < length (sv_stops sv)" "sv_stops sv ! j \<noteq> Done"
    using assms(3) by (auto simp: stop_turn_def split: if_splits)
  with active_unique [OF assms(1)] have "j = i" "sv_stops sv ! i = p"
    using assms(1) by (auto simp: active_def)
  moreover have "all_done (sv\<lparr>sv_stops := (sv_stops sv)[i := Done]\<rparr>)"
    by (rule all_done_update [OF assms(1)]) simp
  ultimately show ?thesis
    using assms(2,3) j(1)
    by (cases p) (auto simp: stop_turn_def Let_def phase_defs stopped_def split: if_splits)
qed

lemma stops_within_step:
  assumes "stops_within n sv" and "thread_turn t" and "server_turn bs t sv = Some res"
  shows "\<exists>sv' n'. res = ok sv' \<and> n = Suc n' \<and> stops_within n' sv'"
proof -
  have "\<not> stopped sv"
    using stopped_rests [OF _ assms(2)] assms(3) by fastforce
  then obtain i p where at: "active sv i p" "position_ok p sv" "n = turns_left p + (if sv_main sv = Serving then 1 else 0)"
    using assms(1) by (auto simp: stops_within_def)
  show ?thesis
  proof (cases t)
    case (Main_turn success)
    then obtain sv' where sv': "main_turn success sv = Some sv'" "res = ok sv'"
      using assms(3) by auto
    from main_turn_stopping [OF at(1,2) sv'(1)] at sv'(2) show ?thesis
      by (intro exI [of _ sv'] exI [of _ 3]) (auto simp: stops_within_def active_def)
  next
    case (Stop_turn j)
    with assms(3) have "stop_turn j sv = Some res" by simp
    from stop_turn_stopping [OF at(1,2) this] obtain sv' q where q: "res = ok sv'"
        "sv_stops sv' = (sv_stops sv)[i := q]" "position_ok q sv'" "turns_left p = Suc (turns_left q)"
        "sv_main sv' = sv_main sv" "q = Done \<longrightarrow> stopped sv'"
      by blast
    with at(3) active_update [OF at(1) q(2)] show ?thesis
      by (intro exI [of _ sv'] exI [of _ "turns_left q + (if sv_main sv = Serving then 1 else 0)"])
         (auto simp: stops_within_def stopped_def split: if_splits)
  qed (use assms(2) in simp_all)
qed

lemma run_turns_append:
  "run_turns bs (ts @ us) sv = (case run_turns bs ts sv of
     Some (Inr sv') \<Rightarrow> run_turns bs us sv' | r \<Rightarrow> r)"
  by (induction ts arbitrary: sv) (auto split: option.splits sum.splits)

lemma stops_within_runs:
  "stops_within n sv \<Longrightarrow> list_all thread_turn ts \<Longrightarrow> run_turns bs ts sv = Some res \<Longrightarrow>
   \<exists>sv'. res = ok sv' \<and> length ts \<le> n \<and> stops_within (n - length ts) sv'"
proof (induction ts arbitrary: n sv)
  case (Cons t ts)
  then obtain r where r: "server_turn bs t sv = Some r" by (auto split: option.splits)
  with stops_within_step [OF Cons.prems(1) _ r] Cons.prems(2) obtain sv1 n1 where
    "r = ok sv1" "n = Suc n1" "stops_within n1 sv1" by auto
  with Cons.IH [of n1 sv1] Cons.prems(2,3) r show ?case by auto
qed auto

lemma stops_within_next:
  assumes "stops_within n sv"
  shows "stopped sv \<or> (\<exists>t. thread_turn t \<and> server_turn bs t sv \<noteq> None)"
proof (cases "stopped sv")
  case False
  then obtain i p where at: "active sv i p" "position_ok p sv"
    using assms by (auto simp: stops_within_def)
  then have "finish sv i p \<noteq> []" "list_all thread_turn (finish sv i p)"
    by (cases p; simp add: active_def)+
  moreover obtain sv' where "run_turns bs (finish sv i p) sv = Some (ok sv')"
    using finish_runs [OF at] by blast
  ultimately show ?thesis
    by (cases "finish sv i p") (auto split: option.splits)
qed simp

section \<open>Properties\<close>

text \<open>
  C23. A careful owner is safe: whatever the interleaving of the main thread and the stopping
  threads, no turn aborts the process; the one exception is what binding the addresses throws
  to the caller of \<open>start\<close>.
\<close>

theorem server_safe:
  assumes "server_reachable bs (Server config router) sv" and "allowed t sv"
    and "server_turn bs t sv = Some (Inl f)"
  shows "t = Call_start \<and> bs (cf_httpAddresses (sv_config sv)) = Inl f"
proof -
  have inv: "server_inv sv"
    using assms(1) by (rule server_inv_reachable)
  show ?thesis
  proof (cases t)
    case Call_start
    with assms(2,3) show ?thesis
      by (cases "bs (cf_httpAddresses (sv_config sv))") (auto simp: start_def)
  next
    case (Stop_turn i)
    with assms(3) stop_turn_inv [OF inv] show ?thesis by fastforce
  qed (use assms(3) in auto)
qed

text \<open>
  A careful owner's \<open>stop\<close> completes: whenever one is under way, at most six more turns of
  the threads end it with its promise fulfilled and the main thread joined and cleared, so that
  the server may be started again; and such a restart does not trip the check that says "a
  server can only be started once".
\<close>

theorem server_stop_completes:
  assumes "server_reachable bs (Server config router) sv" and "\<not> all_done sv"
    and "\<And>a. bs a = ok ()"
  shows "\<exists>ts sv' sv''. length ts \<le> 6 \<and> run_turns bs ts sv = Some (ok sv') \<and> all_done sv' \<and>
    sv_mainThread sv' = None \<and> start bs sv' = ok sv''"
proof -
  obtain i p where "active sv i p" "position_ok p sv"
    using server_inv_reachable [OF assms(1)] assms(2) by (auto elim: server_inv_cases)
  then obtain sv' where "run_turns bs (finish sv i p) sv = Some (ok sv')" "all_done sv'"
      "sv_mainThread sv' = None"
    using finish_runs by blast
  moreover from this have "\<exists>sv''. start bs sv' = ok sv''"
    using assms(3) by (simp add: start_def)
  ultimately show ?thesis
    using finish_length by blast
qed

text \<open>
  C24. A careful owner's \<open>stop\<close> ends in every order: while one is under way, whatever turns the main
  thread and the stopping threads take, none of them aborts, there are no more than six, and they
  can only come to rest with the promise fulfilled and the main thread joined and cleared; and a
  server at rest can be started again, which the check that says "a server can only be started
  once" does not prevent.
\<close>

theorem server_stop_every_order:
  assumes "server_reachable bs (Server config router) sv" and "\<not> all_done sv"
    and "list_all thread_turn ts" and "run_turns bs ts sv = Some res"
  shows "\<exists>sv'. res = ok sv' \<and> length ts \<le> 6 \<and>
    ((\<exists>t. thread_turn t \<and> server_turn bs t sv' \<noteq> None) \<or>
      all_done sv' \<and> sv_mainThread sv' = None \<and> sv_main sv' = Exited \<and> (\<exists>sv''. start (\<lambda>_. ok ()) sv' = ok sv''))"
proof -
  obtain n where n: "stops_within n sv"
    using stops_within_start [OF server_inv_reachable [OF assms(1)] assms(2)] by blast
  from stops_within_runs [OF this assms(3,4)] obtain sv' where
    sv': "res = ok sv'" "length ts \<le> n" "stops_within (n - length ts) sv'" by blast
  moreover have "stopped sv' \<Longrightarrow> \<exists>sv''. start (\<lambda>_. ok ()) sv' = ok sv''"
    by (simp add: stopped_def start_def)
  ultimately show ?thesis
    using stops_within_next [OF sv'(3), of bs] stops_within_bound [OF n] by (auto simp: stopped_def)
qed

text \<open>
  Two overlapping calls of \<open>stop\<close> on a running server: both see the main thread, one joins
  and clears it, and the other then dereferences the empty \<open>Optional\<close>, which throws out of its
  thread and terminates the process.
\<close>

theorem concurrent_stops_terminate:
  assumes "sv_mainThread sv = Some True" and "sv_main sv = Serving"
    and "sv_startPromise sv = Fulfilled" and "sv_stops sv = []"
  shows "run_turns bs ([Call_stop, Call_stop] @ [Stop_turn 0, Stop_turn 1, Stop_turn 0, Stop_turn 1] @
      [Main_turn True, Stop_turn 0, Stop_turn 0, Stop_turn 1]) sv =
    Some (Inl (Abort (Terminate (Other_std ''Empty Optional''))))"
  using assms by (simp add: stop_def stop_turn_def main_turn_def Let_def)

text \<open>
  A server that could not start is stuck: its main thread stays in the \<open>Optional\<close>, so
  starting it again fails the check, and stopping it calls \<open>HTTPServer::stop\<close> on a server that
  never started.
\<close>

theorem failed_start_stuck:
  assumes "bs (cf_httpAddresses config) = ok ()"
  shows "\<exists>sv. run_turns bs [Call_start, Main_turn False] (Server config router) = Some (ok sv) \<and>
    sv_startPromise sv = Failed \<and>
    start bs sv = Inl (Abort (Check_failed ''A server can only be started once'')) \<and>
    run_turns bs [Call_stop, Stop_turn 0, Stop_turn 0] sv =
      Some (Inl (Abort (Undefined_behaviour ''HTTPServer::stop() before it has started'')))"
  using assms by (simp add: start_def Server_def main_turn_def stop_def stop_turn_def Let_def)

section \<open>Witnesses\<close>

definition ref_server :: "unit server" where
  "ref_server = Server ref_config (make_router (\<lambda>_. None) ref_routes)"

definition binds :: "ip_config list \<Rightarrow> unit outcome" where
  "binds a = ok ()"

definition ref_running :: "unit server" where
  "ref_running = ref_server\<lparr>sv_mainThread := Some True, sv_main := Serving,
     sv_startPromise := Fulfilled\<rparr>"

lemma ref_running_reachable: "server_reachable binds ref_server ref_running"
proof -
  let ?sv = "ref_server\<lparr>sv_mainThread := Some True, sv_main := Starting\<rparr>"
  have "server_reachable binds ref_server ?sv"
    by (rule server_reachable.turn [OF server_reachable.initial, where t = Call_start])
       (simp_all add: ref_server_def Server_def all_done_def start_def binds_def)
  then show ?thesis
    by (rule server_reachable.turn [where t = "Main_turn True"])
       (simp_all add: ref_running_def ref_server_def Server_def main_turn_def)
qed

lemma ref_stopping_reachable: "server_reachable binds ref_server (stop ref_running)"
  by (rule server_reachable.turn [OF ref_running_reachable, where t = Call_stop])
     (simp_all add: ref_running_def ref_server_def Server_def all_done_def)

lemma server_safe_witness:
  "Call_start = Call_start \<and>
   (\<lambda>_ :: ip_config list. throw (System_error ''address in use'') :: unit outcome)
     (cf_httpAddresses (sv_config ref_server)) = throw (System_error ''address in use'')"
  by (rule server_safe [OF server_reachable.initial [of _ ref_server, unfolded ref_server_def],
        folded ref_server_def, where t = Call_start])
     (simp_all add: ref_server_def Server_def all_done_def start_def)

lemma server_stop_completes_witness:
  "\<exists>ts sv' sv''. length ts \<le> 6 \<and> run_turns binds ts (stop ref_running) = Some (ok sv') \<and> all_done sv' \<and>
    sv_mainThread sv' = None \<and> start binds sv' = ok sv''"
  by (rule server_stop_completes [OF ref_stopping_reachable [unfolded ref_server_def]])
     (simp_all add: all_done_def stop_def binds_def)

lemma server_stop_every_order_witness:
  "\<exists>sv'. run_turns binds [Stop_turn 0, Stop_turn 0, Main_turn True, Stop_turn 0, Stop_turn 0, Stop_turn 0]
      (stop ref_running) = Some (ok sv') \<and> all_done sv' \<and> sv_mainThread sv' = None \<and> sv_main sv' = Exited"
proof -
  let ?ts = "[Stop_turn 0, Stop_turn 0, Main_turn True, Stop_turn 0, Stop_turn 0, Stop_turn 0]"
  obtain sv' where sv': "run_turns binds ?ts (stop ref_running) = Some (ok sv')"
    by (simp add: ref_running_def ref_server_def Server_def stop_def stop_turn_def main_turn_def Let_def)
  have "\<not> all_done (stop ref_running)" by (simp add: all_done_def stop_def)
  note every = server_stop_every_order [OF ref_stopping_reachable [unfolded ref_server_def] this]
  have "server_turn binds t sv' = None" if "thread_turn t" for t
  proof (rule ccontr)
    assume "server_turn binds t sv' \<noteq> None"
    then obtain r where "server_turn binds t sv' = Some r" by blast
    then have "run_turns binds (?ts @ [t]) (stop ref_running) = Some r"
      by (subst run_turns_append) (simp only: sv', simp split: sum.split)
    from every [OF _ this] that show False by auto
  qed
  with every [OF _ sv'] sv' show ?thesis by auto
qed

lemma concurrent_stops_terminate_witness:
  "run_turns binds ([Call_stop, Call_stop] @ [Stop_turn 0, Stop_turn 1, Stop_turn 0, Stop_turn 1] @
      [Main_turn True, Stop_turn 0, Stop_turn 0, Stop_turn 1]) ref_running =
    Some (Inl (Abort (Terminate (Other_std ''Empty Optional''))))"
  by (rule concurrent_stops_terminate) (simp_all add: ref_running_def ref_server_def Server_def)

lemma failed_start_stuck_witness:
  "\<exists>sv. run_turns binds [Call_start, Main_turn False] ref_server = Some (ok sv) \<and>
    sv_startPromise sv = Failed \<and>
    start binds sv = Inl (Abort (Check_failed ''A server can only be started once'')) \<and>
    run_turns binds [Call_stop, Stop_turn 0, Stop_turn 0] sv =
      Some (Inl (Abort (Undefined_behaviour ''HTTPServer::stop() before it has started'')))"
  unfolding ref_server_def by (rule failed_start_stuck) (simp add: binds_def)

end
