(* ===== verification/Example_Server.thy ===== *)
theory Example_Server
  imports Route_Language Streaming_File Server_Life
begin

text \<open>
  \<open>src/examples/simple_server.cpp\<close>: a server with three plain routes and one that serves files,
  put together from the components as its \<open>main\<close> does; and what it answers to every request.
\<close>

section \<open>The program\<close>

definition example_config :: "folly_lib \<Rightarrow> fs_lib \<Rightarrow> resolver \<Rightarrow> config \<Rightarrow> config outcome" where
  "example_config F P resolve blank =
     Config_tuples F P resolve blank [(''0.0.0.0'', 8080, Protocol ''HTTP'')] 2
       None kDefaultRequestTimeoutMs kDefaultFileReaderBufferSize"

abbreviation POST :: HTTPMethod where
  "POST \<equiv> Method ''POST''"

text \<open>The lambdas; \<open>HTTPResponse::future\<close> makes a completed future.\<close>

definition ready_response :: "futures_lib \<Rightarrow> http_response \<Rightarrow> response_future" where
  "ready_response X r = (case response_future X (ok r) of Inr c \<Rightarrow> c | Inl f \<Rightarrow> Completed 0 (Inl f))"

definition example_index :: "iobuf_lib \<Rightarrow> futures_lib \<Rightarrow> http_request \<Rightarrow> handler_arg list \<Rightarrow> response_future" where
  "example_index B X request args = ready_response X (HTTPResponse_status B 200)"

definition example_create :: "iobuf_lib \<Rightarrow> futures_lib \<Rightarrow> http_request \<Rightarrow> handler_arg list \<Rightarrow> response_future" where
  "example_create B X request args = ready_response X (HTTPResponse_text B 200 ''Created user!'')"

definition example_user :: "iobuf_lib \<Rightarrow> futures_lib \<Rightarrow> http_request \<Rightarrow> handler_arg list \<Rightarrow> response_future" where
  "example_user B X request args = ready_response X (HTTPResponse_text B 200 [])"

definition example_files :: "file_handler option outcome" where
  "example_files = bind (StreamingFileHandler ''public'' kDefaultFileReaderBufferSize True None) (\<lambda>h. ok (Some h))"

text \<open>The virtual \<open>setRequestArgs\<close> as a route calls it; its one argument is a string.\<close>

definition file_setRequestArgs :: "file_handler \<Rightarrow> handler_arg list \<Rightarrow> file_handler outcome" where
  "file_setRequestArgs h args = (case args of
       [A_string path] \<Rightarrow> ok (setRequestArgs h path)
     | _ \<Rightarrow> Inl (Abort (Undefined_behaviour ''arguments of other types'')))"

text \<open>A route whose handler does not fit does not compile.\<close>

definition compiled :: "'a outcome option \<Rightarrow> 'a outcome" where
  "compiled r = (case r of Some m \<Rightarrow> m | None \<Rightarrow> Inl (Abort (Undefined_behaviour ''does not compile'')))"

definition example_router ::
  "folly_lib \<Rightarrow> regex_lib \<Rightarrow> iobuf_lib \<Rightarrow> futures_lib \<Rightarrow> file_handler router outcome" where
  "example_router F R B X =
     bind (compiled (make_route F R ''/'' {GET} [P_this, P_request] (Some (example_index B X)))) (\<lambda>r1.
     bind (compiled (make_route F R ''/user'' {POST} [P_this, P_request] (Some (example_create B X)))) (\<lambda>r2.
     bind (compiled (make_route F R ''/user/{{i}}'' {POST} [P_this, P_request, P_arg T_int64]
            (Some (example_user B X)))) (\<lambda>r3.
     bind (compiled (make_streaming_route F R ''/{{s:.*}}'' {GET} [P_this, P_arg T_string]
            example_files file_setRequestArgs)) (\<lambda>r4.
     ok (make_router Map.empty [Regex r1, Regex r2, Regex r3, Regex r4])))))"

definition example_server ::
  "folly_lib \<Rightarrow> fs_lib \<Rightarrow> regex_lib \<Rightarrow> iobuf_lib \<Rightarrow> futures_lib \<Rightarrow> resolver \<Rightarrow> config
     \<Rightarrow> file_handler server outcome" where
  "example_server F P R B X resolve blank =
     bind (example_config F P resolve blank) (\<lambda>config.
     bind (example_router F R B X) (\<lambda>router.
     ok (Server config router)))"

section \<open>Its routes\<close>

definition example_patterns :: "(pattern \<times> expr) list" where
  "example_patterns = [([], literal ''/''), ([], literal ''/user''),
     ([(literal ''/user/'', Int_slot)], Empty), ([(literal ''/'', String_slot (Star Any))], Empty)]"

lemma example_texts:
  "pattern_text [] (literal ''/'') = ''/''" "pattern_text [] (literal ''/user'') = ''/user''"
  "pattern_text [(literal ''/user/'', Int_slot)] Empty = ''/user/{{i}}''"
  "pattern_text [(literal ''/'', String_slot (Star Any))] Empty = ''/{{s:.*}}''"
  by (simp_all add: pattern_text_def pattern_shape_def shape_text_def show_part_def parens_def
      show_literal special_chars_eq)

lemma example_proper: "(ps, z) \<in> set example_patterns \<Longrightarrow> proper ps z"
  by (auto intro!: readableI simp: example_patterns_def proper_def pattern_shape_def shape_clear_def
      closed_text_def show_part_def parens_def
      show_literal special_chars_eq int_expr_def sign_expr_def)

text \<open>The routes as the constructors leave them.\<close>

definition example_route ::
  "pattern \<Rightarrow> expr \<Rightarrow> HTTPMethod set \<Rightarrow> file_handler route_callable \<Rightarrow> handler_type list
     \<Rightarrow> file_handler regex_route" where
  "example_route ps z ms h Ts = \<lparr>rr_originalPattern = pattern_text ps z, rr_methods = ms,
     rr_handler = h, rr_args = Ts, rr_regex = show_expr (pattern_expr 0 ps z)\<rparr>"

definition index_route :: "iobuf_lib \<Rightarrow> futures_lib \<Rightarrow> file_handler regex_route" where
  "index_route B X = example_route [] (literal ''/'') {GET} (Route_plain (Some (example_index B X))) []"

definition create_route :: "iobuf_lib \<Rightarrow> futures_lib \<Rightarrow> file_handler regex_route" where
  "create_route B X = example_route [] (literal ''/user'') {POST} (Route_plain (Some (example_create B X))) []"

definition user_route :: "iobuf_lib \<Rightarrow> futures_lib \<Rightarrow> file_handler regex_route" where
  "user_route B X = example_route [(literal ''/user/'', Int_slot)] Empty {POST}
     (Route_plain (Some (example_user B X))) [T_int64]"

definition files_route :: "file_handler regex_route" where
  "files_route = example_route [(literal ''/'', String_slot (Star Any))] Empty {GET}
     (Route_streaming example_files file_setRequestArgs) [T_string]"

definition example_routes :: "iobuf_lib \<Rightarrow> futures_lib \<Rightarrow> file_handler regex_route list" where
  "example_routes B X = [index_route B X, create_route B X, user_route B X, files_route]"

lemmas example_route_defs = index_route_def create_route_def user_route_def files_route_def

lemma example_router_eq:
  assumes "sformat_law F" and "\<forall>(ps, z) \<in> set example_patterns. supports R ps z"
  shows "example_router F R B X = ok (make_router Map.empty (map Regex (example_routes B X)))"
proof -
  have made: "new_Route F R (pattern_text ps z) ms Ts h = ok (example_route ps z ms h Ts)"
    if "(ps, z) \<in> set example_patterns" "slot_types ps = map to_RouteParamType Ts"
    for ps z ms Ts and h :: "file_handler route_callable"
  proof -
    have "supports R ps z" using assms(2) that(1) by blast
    from new_Route_pattern [OF assms(1) example_proper [OF that(1)] this] show ?thesis
      by (rule iffD2) (simp add: that(2) example_route_def)
  qed
  note found = made [of "[]" "literal ''/''"] made [of "[]" "literal ''/user''"]
    made [of "[(literal ''/user/'', Int_slot)]" Empty]
    made [of "[(literal ''/'', String_slot (Star Any))]" Empty]
  show ?thesis
    using found
    by (simp add: example_router_def compiled_def make_route_def make_streaming_route_def
        handler_args_of_def streaming_args_of_def make_type_sequence_def example_patterns_def
        slot_types_def example_routes_def example_route_defs example_texts)
qed

lemma example_reads:
  "reads [] (literal w) p caps \<longleftrightarrow> p = w \<and> caps = []"
  "reads [(literal ''/user/'', Int_slot)] Empty p caps \<longleftrightarrow>
     (\<exists>v. p = ''/user/'' @ v \<and> decimal_value v \<noteq> None \<and> caps = [Some v])"
  "reads [(literal ''/'', String_slot (Star Any))] Empty p caps \<longleftrightarrow> (\<exists>v. p = ''/'' @ v \<and> caps = [Some v])"
  by (simp_all add: reads_one_value int_expr_decimal) (auto simp: reads_simps)

section \<open>The site\<close>

text \<open>What the program is meant to answer: a plain response, or a file below \<open>public\<close>.\<close>

datatype answer = Answer int16 string | File string

definition user_path :: "string \<Rightarrow> bool" where
  "user_path p \<longleftrightarrow> take 6 p = ''/user/'' \<and> decimal_value (drop 6 p) \<noteq> None"

definition site :: "HTTPMethod \<Rightarrow> string \<Rightarrow> answer" where
  "site method p =
     (if p = ''/'' \<and> method = GET then Answer 200 []
      else if p = ''/user'' \<and> method = POST then Answer 200 ''Created user!''
      else if user_path p \<and> method = POST then Answer 200 []
      else (case p of
          [] \<Rightarrow> Answer 404 []
        | c # rest \<Rightarrow> if c \<noteq> CHR ''/'' then Answer 404 []
                    else if method = GET then File rest else Answer 405 []))"

fun answered :: "file_handler route_match \<Rightarrow> answer \<Rightarrow> bool" where
  "answered x (Answer code body) = (rm_streamingHandler x = None \<and> (\<exists>h. rm_handler x = Some h \<and>
     (\<forall>req. \<exists>r. h req = Completed 0 (ok r) \<and> resp_status r = code \<and> resp_headers r = [] \<and>
        concat (resp_body r) = body)))"
| "answered x (File rest) = (rm_handler x = None \<and> (\<exists>h s. example_files = ok (Some h) \<and>
     rm_streamingHandler x = Some s \<and> s () = (ok (Some (setRequestArgs h rest)), [])))"

lemma not_user_path [simp]: "\<not> user_path ''/''" "\<not> user_path ''/user''"
  by (simp_all add: user_path_def)

lemma user_path_iff: "user_path p \<longleftrightarrow> (\<exists>v. p = ''/user/'' @ v \<and> decimal_value v \<noteq> None)"
proof
  assume "user_path p"
  then have "take 6 p = ''/user/''" and v: "decimal_value (drop 6 p) \<noteq> None"
    unfolding user_path_def by blast+
  then have "p = ''/user/'' @ drop 6 p"
    by (metis append_take_drop_id)
  with v show "\<exists>v. p = ''/user/'' @ v \<and> decimal_value v \<noteq> None" by blast
next
  assume "\<exists>v. p = ''/user/'' @ v \<and> decimal_value v \<noteq> None"
  then show "user_path p" by (auto simp: user_path_def simp del: decimal_value.simps)
qed

lemma example_responses:
  assumes "futures_law X" and "iobuf_law B"
  shows "example_index B X req args = Completed 0 (ok (empty_response 200))"
    and "\<exists>r. example_create B X req args = Completed 0 (ok r) \<and> resp_status r = 200 \<and>
      resp_headers r = [] \<and> concat (resp_body r) = ''Created user!''"
    and "\<exists>r. example_user B X req args = Completed 0 (ok r) \<and> resp_status r = 200 \<and>
      resp_headers r = [] \<and> concat (resp_body r) = []"
proof -
  have "fu_makeFuture X r = Completed 0 (ok r)" for r
    using assms(1) unfolding futures_law_def by blast
  moreover have "io_create B 0 = [[]]" "concat (io_copyBuffer B s) = s" for s
    using assms(2) unfolding iobuf_law_def by blast+
  ultimately show "example_index B X req args = Completed 0 (ok (empty_response 200))"
    and "\<exists>r. example_create B X req args = Completed 0 (ok r) \<and> resp_status r = 200 \<and>
      resp_headers r = [] \<and> concat (resp_body r) = ''Created user!''"
    and "\<exists>r. example_user B X req args = Completed 0 (ok r) \<and> resp_status r = 200 \<and>
      resp_headers r = [] \<and> concat (resp_body r) = []"
    by (simp_all add: example_index_def example_create_def example_user_def ready_response_def
      response_future_def HTTPResponse_status_def HTTPResponse_text_def empty_response_def
        del: concat_eq_Nil_conv)
qed

lemma example_user_args:
  assumes "sformat_law F" and "to_int64_law F" and "decimal_value v \<noteq> None"
  shows "\<exists>i. eval_args F 0 [T_int64] (captured 0 [Some v]) = ok [A_int64 i]"
proof -
  obtain n where n: "decimal_value v = Some n" using assms(3) by blast
  have "group_str (captured 0 [Some v]) (group_name F 0) = v"
    using assms(1) by (simp add: group_name_eq group_str_def)
  with get_int64_decimal [OF assms(2), of "captured 0 [Some v]" 0 n] n show ?thesis
    by (auto simp del: captured.simps)
qed

lemma example_file_args:
  assumes "sformat_law F"
  shows "eval_args F 0 [T_string] (captured 0 [Some v]) = ok [A_string v]"
  using assms by (simp add: get_string_def group_name_eq group_str_def)

lemma example_files_ok: "\<exists>h. example_files = ok (Some h)"
  by (simp add: example_files_def StreamingFileHandler_def)

lemma example_route_path:
  assumes "(ps, z) \<in> set example_patterns" and "supports R ps z"
    and "route_ready F R (Regex (example_route ps z ms h Ts)) m"
  shows "route_path F R (Regex (example_route ps z ms h Ts)) m \<longleftrightarrow>
    (\<exists>caps. reads ps z (effective_path F m) caps)"
  using pattern_matched(1) [OF example_proper [OF assms(1)] assms(2), of "example_route ps z ms h Ts" F m] assms(3)
  by (simp add: example_route_def)

lemma example_route_accepts:
  assumes "(ps, z) \<in> set example_patterns" and "supports R ps z"
    and "route_ready F R (Regex (example_route ps z ms h Ts)) m"
  shows "accepts F R (Regex (example_route ps z ms h Ts)) m \<longleftrightarrow>
    (\<exists>caps. reads ps z (effective_path F m) caps) \<and> effective_method m \<in> ms"
  using example_route_path [OF assms] by (simp add: accepts_def) (simp add: example_route_def)

lemma example_route_handler:
  assumes "(ps, z) \<in> set example_patterns" and "supports R ps z"
    and "route_ready F R (Regex (example_route ps z ms h Ts)) m" and "effective_method m \<in> ms"
    and "reads ps z (effective_path F m) caps"
    and "\<And>caps'. reads ps z (effective_path F m) caps' \<Longrightarrow> caps' = caps"
  shows "route_handler F R (Regex (example_route ps z ms h Ts)) (Some m) =
    regex_match_maker F Ts (captured 0 caps) h"
proof -
  let ?r = "example_route ps z ms h Ts"
  have "regex_handler F R ?r (Some m) = regex_match_maker F (rr_args ?r) (captured 0 caps) (rr_handler ?r)"
    by (rule pattern_route_handler [OF example_proper [OF assms(1)] assms(2) _ _ _ _ assms(5,6)])
       (use assms(3,4) in \<open>simp_all add: example_route_def\<close>)
  then show ?thesis by (simp add: example_route_def)
qed

text \<open>Conditions on the libraries for a request to the example.\<close>

definition served :: "folly_lib \<Rightarrow> regex_lib \<Rightarrow> iobuf_lib \<Rightarrow> futures_lib \<Rightarrow> http_message \<Rightarrow> bool" where
  "served F R B X m \<longleftrightarrow> (\<forall>(ps, z) \<in> set example_patterns. supports R ps z) \<and>
     (\<forall>r \<in> set (example_routes B X). route_ready F R (Regex r) m)"

lemma served_supports:
  assumes "served F R B X m"
  shows "supports R [] (literal ''/'')" "supports R [] (literal ''/user'')"
    "supports R [(literal ''/user/'', Int_slot)] Empty" "supports R [(literal ''/'', String_slot (Star Any))] Empty"
  using assms by (simp_all only: served_def example_patterns_def list.set ball_simps split_conv insert_iff)

lemma served_ready:
  assumes "served F R B X m"
  shows "route_ready F R (Regex (index_route B X)) m" "route_ready F R (Regex (create_route B X)) m"
    "route_ready F R (Regex (user_route B X)) m" "route_ready F R (Regex files_route) m"
  using assms by (simp_all only: served_def example_routes_def list.set ball_simps)

lemma in_example_patterns:
  "([], literal ''/'') \<in> set example_patterns" "([], literal ''/user'') \<in> set example_patterns"
  "([(literal ''/user/'', Int_slot)], Empty) \<in> set example_patterns"
  "([(literal ''/'', String_slot (Star Any))], Empty) \<in> set example_patterns"
  by (simp_all add: example_patterns_def)

lemma example_path:
  assumes "served F R B X m"
  shows "route_path F R (Regex (index_route B X)) m \<longleftrightarrow> effective_path F m = ''/''"
    and "route_path F R (Regex (create_route B X)) m \<longleftrightarrow> effective_path F m = ''/user''"
    and "route_path F R (Regex (user_route B X)) m \<longleftrightarrow> user_path (effective_path F m)"
    and "route_path F R (Regex files_route) m \<longleftrightarrow> (\<exists>v. effective_path F m = ''/'' @ v)"
proof -
  note supported = served_supports [OF assms] and ready = served_ready [OF assms, unfolded example_route_defs]
  note path = example_route_path [OF in_example_patterns(1) supported(1) ready(1)]
    example_route_path [OF in_example_patterns(2) supported(2) ready(2)]
    example_route_path [OF in_example_patterns(3) supported(3) ready(3)]
    example_route_path [OF in_example_patterns(4) supported(4) ready(4)]
  show "route_path F R (Regex (index_route B X)) m \<longleftrightarrow> effective_path F m = ''/''"
    unfolding index_route_def path(1) example_reads by simp
  show "route_path F R (Regex (create_route B X)) m \<longleftrightarrow> effective_path F m = ''/user''"
    unfolding create_route_def path(2) example_reads by simp
  show "route_path F R (Regex (user_route B X)) m \<longleftrightarrow> user_path (effective_path F m)"
    unfolding user_route_def path(3) example_reads user_path_iff by simp
  show "route_path F R (Regex files_route) m \<longleftrightarrow> (\<exists>v. effective_path F m = ''/'' @ v)"
    unfolding files_route_def path(4) example_reads by simp
qed

lemma example_methods:
  "route_methods (Regex (index_route B X)) = {GET}" "route_methods (Regex (create_route B X)) = {POST}"
  "route_methods (Regex (user_route B X)) = {POST}" "route_methods (Regex files_route) = {GET}"
  by (simp_all add: example_route_defs example_route_def)

text \<open>What each route answers when it accepts.\<close>

lemma plain_answered:
  assumes "regex_match_maker F Ts g (Route_plain (Some f)) = ok x" and "eval_args F 0 Ts g = ok as"
    and "\<And>req. \<exists>r. f req as = Completed 0 (ok r) \<and> resp_status r = code \<and> resp_headers r = [] \<and>
      concat (resp_body r) = body"
  shows "answered x (Answer code body)"
  using assms by (auto simp: call_handler_def RouteMatch_handler_def)

lemma example_answers:
  assumes "served F R B X m" and "sformat_law F" and "to_int64_law F" and "iobuf_law B" and "futures_law X"
  shows "effective_path F m = ''/'' \<Longrightarrow> effective_method m = GET \<Longrightarrow>
      route_handler F R (Regex (index_route B X)) (Some m) = ok x \<Longrightarrow> answered x (Answer 200 [])"
    and "effective_path F m = ''/user'' \<Longrightarrow> effective_method m = POST \<Longrightarrow>
      route_handler F R (Regex (create_route B X)) (Some m) = ok x \<Longrightarrow> answered x (Answer 200 ''Created user!'')"
    and "user_path (effective_path F m) \<Longrightarrow> effective_method m = POST \<Longrightarrow>
      route_handler F R (Regex (user_route B X)) (Some m) = ok x \<Longrightarrow> answered x (Answer 200 [])"
    and "effective_path F m = ''/'' @ rest \<Longrightarrow> effective_method m = GET \<Longrightarrow>
      route_handler F R (Regex files_route) (Some m) = ok x \<Longrightarrow> answered x (File rest)"
proof -
  note supported = served_supports [OF assms(1)] and ready = served_ready [OF assms(1), unfolded example_route_defs]
  note handler = example_route_handler [OF in_example_patterns(1) supported(1) ready(1)]
    example_route_handler [OF in_example_patterns(2) supported(2) ready(2)]
    example_route_handler [OF in_example_patterns(3) supported(3) ready(3)]
    example_route_handler [OF in_example_patterns(4) supported(4) ready(4)]
  note reads = example_reads
  show "answered x (Answer 200 [])" if "effective_path F m = ''/''" "effective_method m = GET"
    "route_handler F R (Regex (index_route B X)) (Some m) = ok x"
  proof (rule plain_answered)
    show "regex_match_maker F [] (captured 0 []) (Route_plain (Some (example_index B X))) = ok x"
      unfolding that(3) [symmetric] index_route_def
      by (rule handler(1) [symmetric]) (simp_all add: reads that(1,2))
  qed (simp_all add: example_responses(1) [OF assms(5,4)] empty_response_def)
  show "answered x (Answer 200 ''Created user!'')" if "effective_path F m = ''/user''" "effective_method m = POST"
    "route_handler F R (Regex (create_route B X)) (Some m) = ok x"
  proof (rule plain_answered)
    show "regex_match_maker F [] (captured 0 []) (Route_plain (Some (example_create B X))) = ok x"
      unfolding that(3) [symmetric] create_route_def
      by (rule handler(2) [symmetric]) (simp_all add: reads that(1,2))
  qed (use example_responses(2) [OF assms(5,4)] in simp_all)
  show "answered x (Answer 200 [])" if "user_path (effective_path F m)" "effective_method m = POST"
    "route_handler F R (Regex (user_route B X)) (Some m) = ok x"
  proof -
    note up = that(1)
    obtain v where v: "effective_path F m = ''/user/'' @ v" "decimal_value v \<noteq> None"
      using up unfolding user_path_iff by blast
    obtain k where k: "eval_args F 0 [T_int64] (captured 0 [Some v]) = ok [A_int64 k]"
      using example_user_args [OF assms(2,3) v(2)] by blast
    have "regex_match_maker F [T_int64] (captured 0 [Some v]) (Route_plain (Some (example_user B X))) = ok x"
      unfolding that(3) [symmetric] user_route_def
      by (rule handler(3) [symmetric]) (use v(2) in \<open>auto simp: reads that(2) v(1)\<close>)
    from this k example_responses(3) [OF assms(5,4)] show ?thesis by (rule plain_answered)
  qed
  show "answered x (File rest)" if "effective_path F m = ''/'' @ rest" "effective_method m = GET"
    "route_handler F R (Regex files_route) (Some m) = ok x"
  proof -
    obtain h where h: "example_files = ok (Some h)" using example_files_ok by blast
    have "regex_match_maker F [T_string] (captured 0 [Some rest]) (Route_streaming example_files file_setRequestArgs) = ok x"
      unfolding that(3) [symmetric] files_route_def
      by (rule handler(4) [symmetric]) (auto simp: reads that(1,2))
    then show ?thesis
      using example_file_args [OF assms(2), of rest]
      by (auto simp: h RouteMatch_streaming_def call_streaming_handler_def guarded_call_def
          file_setRequestArgs_def simp del: eval_args.simps captured.simps)
  qed
qed

lemma site_cases:
  obtains (index) "p = ''/''" "method = GET" "site method p = Answer 200 []"
  | (create) "p = ''/user''" "method = POST" "site method p = Answer 200 ''Created user!''"
  | (user) "user_path p" "method = POST" "site method p = Answer 200 []"
  | (below) rest where "p = ''/'' @ rest" "p \<noteq> ''/''" "method = GET" "site method p = File rest"
  | (refused) rest where "p = ''/'' @ rest" "method \<noteq> GET" "site method p = Answer 405 []"
      "\<not> (p = ''/user'' \<and> method = POST)" "\<not> (user_path p \<and> method = POST)"
  | (missing) "\<nexists>rest. p = ''/'' @ rest" "site method p = Answer 404 []"
proof -
  show thesis
  proof (cases p)
    case Nil
    with missing show thesis by (simp add: site_def user_path_def)
  next
    case (Cons c rest)
    show thesis
    proof (cases "c = CHR ''/''")
      case True
      show thesis
      proof (cases "method = GET")
        case True
        with Cons \<open>c = CHR ''/''\<close> index below [of rest] show thesis
          by (cases "rest = []") (simp_all add: site_def)
      next
        case False
        with Cons True create user refused [of rest] show thesis
          by (cases "p = ''/user'' \<and> method = POST"; cases "user_path p \<and> method = POST")
             (simp_all add: site_def)
      qed
    next
      case False
      have "\<not> user_path p" using Cons False by (auto simp: user_path_def)
      with False Cons missing show thesis by (simp add: site_def)
    qed
  qed
qed

section \<open>Properties\<close>

lemma fallback_answered:
  assumes "futures_law X" and "iobuf_law B"
  shows "answered (fallback B X (make_router Map.empty rs) found) (Answer (if found then 405 else 404) [])"
proof -
  have "getErrorHandler B X (make_router Map.empty rs) code req = Completed 0 (ok (empty_response (ucast code)))" for code req
    by (simp add: getErrorHandler_eq [OF assms] make_router_eq)
  then show ?thesis
    by (auto simp: fallback_def empty_response_def ucast_codes)
qed

lemma example_getHandler:
  assumes "served F R B X m" and "rt = make_router Map.empty (map Regex (example_routes B X))"
    and "map Regex (example_routes B X) = pre @ r # post"
    and "\<forall>q \<in> set pre. \<not> accepts F R q m" and "accepts F R r m"
  obtains x where "route_handler F R r (Some m) = ok x" and "getHandler F R B X rt (Some m) = ok x"
proof -
  have "ask_order rt = map Regex (example_routes B X)"
    by (simp add: assms(2) make_router_eq ask_order_def example_routes_def)
  moreover from this have "routable F R rt m"
    using assms(1) by (auto simp: routable_def served_def)
  ultimately show thesis
    using getHandler_first [of F R rt m pre r post B X] assms(3-5) that by auto
qed

lemma example_unmatched:
  assumes "served F R B X m" and "rt = make_router Map.empty (map Regex (example_routes B X))"
    and "\<forall>r \<in> set (map Regex (example_routes B X)). \<not> accepts F R r m"
    and "found \<longleftrightarrow> (\<exists>r \<in> set (map Regex (example_routes B X)). route_path F R r m)"
  shows "getHandler F R B X rt (Some m) = ok (fallback B X rt found)"
proof -
  have order: "ask_order rt = map Regex (example_routes B X)"
    by (simp add: assms(2) make_router_eq ask_order_def example_routes_def)
  moreover from this have "routable F R rt m"
    using assms(1) by (auto simp: routable_def served_def)
  ultimately show ?thesis
    using getHandler_unmatched [of F R rt m B X] assms(3,4) by simp
qed

lemma example_routing_lemma:
  assumes "sformat_law F" and "to_int64_law F" and "iobuf_law B" and "futures_law X"
    and "served F R B X m"
  shows "\<exists>rt x. example_router F R B X = ok rt \<and> getHandler F R B X rt (Some m) = ok x \<and>
    answered x (site (effective_method m) (effective_path F m))"
proof -
  let ?p = "effective_path F m" and ?M = "effective_method m"
  define rt where "rt = make_router Map.empty (map Regex (example_routes B X))"
  have made: "example_router F R B X = ok rt"
    using example_router_eq [OF assms(1)] assms(5) by (simp add: served_def rt_def)
  note opaque = route_path.simps route_methods.simps route_handler.simps answered.simps
  note acc = accepts_def example_path [OF assms(5)] example_methods
  note get = example_getHandler [OF assms(5) rt_def]
  note miss = example_unmatched [OF assms(5) rt_def]
  note says = example_answers [OF assms(5,1-4)]
  have "\<exists>x. getHandler F R B X rt (Some m) = ok x \<and> answered x (site ?M ?p)"
  proof (cases rule: site_cases [of ?p ?M])
    case index
    show ?thesis
      by (rule get [of "[]" "Regex (index_route B X)"])
         (use index in \<open>auto simp: acc example_routes_def intro: says(1)
           simp del: opaque\<close>)
  next
    case create
    show ?thesis
      by (rule get [of "[Regex (index_route B X)]" "Regex (create_route B X)"])
         (use create in \<open>auto simp: acc example_routes_def intro: says(2)
           simp del: opaque\<close>)
  next
    case user
    show ?thesis
      by (rule get [of "[Regex (index_route B X), Regex (create_route B X)]" "Regex (user_route B X)"])
         (use user in \<open>auto simp: acc example_routes_def intro: says(3)
           simp del: opaque\<close>)
  next
    case (below rest)
    show ?thesis
      by (rule get [of "[Regex (index_route B X), Regex (create_route B X), Regex (user_route B X)]"
            "Regex files_route"])
         (use below in \<open>auto simp: acc example_routes_def intro: says(4)
           simp del: opaque\<close>)
  next
    case (refused rest)
    then have "getHandler F R B X rt (Some m) = ok (fallback B X rt True)"
      by (intro miss) (auto simp: acc example_routes_def simp del: opaque)
    with fallback_answered [OF assms(4,3), of _ True] refused(3) show ?thesis
      by (auto simp: rt_def simp del: answered.simps)
  next
    case missing
    moreover have "\<not> user_path ?p" "?p \<noteq> ''/''" "?p \<noteq> ''/user''"
      using missing(1) by (auto simp: user_path_iff)
    ultimately have "getHandler F R B X rt (Some m) = ok (fallback B X rt False)"
      by (intro miss) (auto simp: acc example_routes_def simp del: opaque)
    with fallback_answered [OF assms(4,3), of _ False] missing(2) show ?thesis
      by (auto simp: rt_def simp del: answered.simps)
  qed
  with made show ?thesis by blast
qed

text \<open>
  C7. The example program serves its site: its router is constructed, and whatever the method
  and the decoded path of a request, it answers as the site says: \<open>GET /\<close>, \<open>POST /user\<close> and
  \<open>POST /user/<number>\<close> with a response of 200 and the right text, every other \<open>GET\<close> below
  \<open>/\<close> with a file handler for the rest of the path, any other method there with 405, and paths
  that do not start with a slash with 404.
\<close>

theorem example_routing:
  assumes "sformat_law F" and "to_int64_law F" and "iobuf_law B" and "futures_law X"
    and "served F R B X m"
  shows "\<exists>rt x. example_router F R B X = ok rt \<and> getHandler F R B X rt (Some m) = ok x \<and>
    answered x (site (effective_method m) (effective_path F m))"
  using assms by (rule example_routing_lemma)

section \<open>Witnesses\<close>

definition example_lib :: regex_lib where
  "example_lib = perl_lib (parser_expr # map (\<lambda>(ps, z). pattern_expr 0 ps z) example_patterns)"

lemma example_expr_texts:
  "show_expr (pattern_expr 0 [] (literal ''/'')) = ''/''"
  "show_expr (pattern_expr 0 [] (literal ''/user'')) = ''/user''"
  "show_expr (pattern_expr 0 [(literal ''/user/'', Int_slot)] Empty) = raw ''/user/(?<__'' @ dec 0 @ raw ''>[+-]?~d+)''"
  "show_expr (pattern_expr 0 [(literal ''/'', String_slot (Star Any))] Empty) = raw ''/(?<__'' @ dec 0 @ ''>.*)''"
  by (simp_all add: slot_expr_def parens_def show_literal special_chars_eq int_expr_def sign_expr_def raw_def)

lemma example_lib_supports: "\<forall>(ps, z) \<in> set example_patterns. supports example_lib ps z"
proof -
  have "supports example_lib [] (literal ''/'')" "supports example_lib [] (literal ''/user'')"
    "supports example_lib [(literal ''/user/'', Int_slot)] Empty"
    "supports example_lib [(literal ''/'', String_slot (Star Any))] Empty"
    unfolding example_lib_def example_patterns_def
    by (auto intro!: perl_lib_supports simp: example_texts example_expr_texts raw_def simp del: pattern_expr.simps)
  then show ?thesis by (simp add: example_patterns_def)
qed

lemma example_served: "served ref_folly example_lib ref_iobuf ref_futures m"
  unfolding served_def
proof
  show "\<forall>r \<in> set (example_routes ref_iobuf ref_futures).
      route_ready ref_folly example_lib (Regex r) m"
    by (simp add: addressable_total [OF ref_folly_laws(1)] example_lib_def perl_lib_bounded)
qed (rule example_lib_supports)

lemma example_routing_witness:
  "\<exists>rt x. example_router ref_folly example_lib ref_iobuf ref_futures = ok rt \<and>
    getHandler ref_folly example_lib ref_iobuf ref_futures rt (Some (plain_message ''/css/site.css'')) = ok x \<and>
    answered x (site (effective_method (plain_message ''/css/site.css''))
      (effective_path ref_folly (plain_message ''/css/site.css'')))"
  by (rule example_routing [OF ref_folly_laws(2,3) ref_iobuf_law ref_futures_law example_served])

end
