(* ===== verification/Example_Main.thy ===== *)
theory Example_Main
  imports Example_Server
begin

text \<open>
  The example program as a whole: a request for a file from the factory to the bytes on the
  wire, and the course of \<open>main\<close>, which starts the server, waits for a key and stops it.
\<close>

section \<open>A request for a file\<close>

text \<open>
  What proxygen does with a request for a streaming handler: it asks the factory for the object,
  gives it the connection and the message, and calls \<open>onEOM\<close>, which may hand a job to the
  executor.
\<close>

definition serve_stream ::
  "folly_lib \<Rightarrow> regex_lib \<Rightarrow> iobuf_lib \<Rightarrow> futures_lib \<Rightarrow> fs_lib \<Rightarrow> time_lib
     \<Rightarrow> file_handler handler_factory \<Rightarrow> event_base \<Rightarrow> http_message
     \<Rightarrow> (file_handler \<times> bool) option outcome" where
  "serve_stream F R B X P T fac current m =
     bind (factory_onRequest F R B X fac (Some m)) (\<lambda>made. case made of
         Some (Streaming_handler_object h) \<Rightarrow>
           bind (streaming_onRequest F B (file_virtuals P T) current (h\<lparr>sh_downstream := True\<rparr>) (Some m)) (\<lambda>h.
           bind (file_onEOM P B h) (\<lambda>r. ok (Some r)))
       | _ \<Rightarrow> ok None)"

lemma example_factory_file:
  assumes "getHandler F R B X (hf_router fac) (Some m) = ok x" and "answered x (File rest)"
  obtains h where "StreamingFileHandler ''public'' kDefaultFileReaderBufferSize True None = ok h"
    and "factory_onRequest F R B X fac (Some m) = ok (Some (Streaming_handler_object (setRequestArgs h rest)))"
proof -
  obtain h s where h: "example_files = ok (Some h)" "rm_handler x = None" "rm_streamingHandler x = Some s"
      "s () = (ok (Some (setRequestArgs h rest)), [])"
    using assms(2) by auto
  from h(1) have "StreamingFileHandler ''public'' kDefaultFileReaderBufferSize True None = ok h"
    by (auto simp: example_files_def bind_eq_Inr)
  with factory_onRequest_streaming [OF assms(1) h(3,2)] h(4) that show thesis by simp
qed

lemma example_file_handler:
  assumes "sformat_law F" and "to_int64_law F" and "iobuf_law B" and "futures_law X"
    and "served F R B X m" and "example_server F P R B X resolve blank = ok sv"
    and "effective_method m = GET" and "effective_path F m = ''/'' @ rest" and "rest \<noteq> []"
  obtains h where "StreamingFileHandler ''public'' kDefaultFileReaderBufferSize True None = ok h"
    and "factory_onRequest F R B X (hd (so_handlerFactories (sv_options sv))) (Some m) =
      ok (Some (Streaming_handler_object (setRequestArgs h rest)))"
proof -
  let ?fac = "hd (so_handlerFactories (sv_options sv))"
  obtain rt x where rt: "example_router F R B X = ok rt" "getHandler F R B X rt (Some m) = ok x"
      "answered x (site GET (''/'' @ rest))"
    using example_routing_lemma [OF assms(1-5)] assms(7,8) by metis
  have "hf_router ?fac = rt"
    using assms(6) rt(1)
    by (auto simp: example_server_def bind_eq_Inr Server_def getHTTPServerOptions_def HTTPHandlerFactory_def)
  moreover have "site GET (''/'' @ rest) = File rest"
    using assms(9) by (simp add: site_def)
  ultimately show thesis
    using example_factory_file [of F R B X ?fac m x rest] rt(2,3) that by auto
qed

lemma public_path:
  assumes "path_law P" and "element_law P" and "\<not> two_slashes rest"
  obtains names where "fs_components P (fs_append P ''public'' (sanitizePath P rest)) = ''public'' # names"
    and "below names"
proof -
  have "fs_components P ''public'' = [''public'']"
    using assms(2) by (simp add: element_law_def two_slashes_def trailing_dot_def split_path_def)
  moreover from this have "rooted (fs_components P ''public'')" by (simp add: plain_name_def)
  ultimately show thesis
    using sanitized_below [OF assms, of "''public''"] that by auto
qed

section \<open>The course of main\<close>

text \<open>
  Where \<open>main\<close> is: before \<open>start()\<close>, in the \<open>get()\<close> of its future, in \<open>getchar()\<close>, in the
  \<open>get()\<close> of \<open>stop()\<close>'s future, or past it. The turns of the server's threads come in between.
  An exception that leaves \<open>main\<close> ends the process.
\<close>

datatype main_point = At_start | Await_start | Await_key | Await_stop | Returned

inductive main_step ::
  "(ip_config list \<Rightarrow> unit outcome) \<Rightarrow> main_point \<times> 'h server \<Rightarrow> (main_point \<times> 'h server) outcome \<Rightarrow> bool"
  for bs where
  start: "main_step bs (At_start, sv) (noexcept (bind (start bs sv) (\<lambda>sv'. ok (Await_start, sv'))))"
| started: "sv_startPromise sv = Fulfilled \<Longrightarrow> main_step bs (Await_start, sv) (ok (Await_key, sv))"
| not_started: "sv_startPromise sv = Failed \<Longrightarrow>
    main_step bs (Await_start, sv) (noexcept (throw e))"
| key: "main_step bs (Await_key, sv) (ok (Await_stop, stop sv))"
| stopped: "all_done sv \<Longrightarrow> main_step bs (Await_stop, sv) (ok (Returned, sv))"
| main_thread: "main_turn success sv = Some sv' \<Longrightarrow> main_step bs (pt, sv) (ok (pt, sv'))"
| stop_thread: "stop_turn i sv = Some res \<Longrightarrow> main_step bs (pt, sv) (bind res (\<lambda>sv'. ok (pt, sv')))"

inductive_simps main_step_simps: "main_step bs (pt, sv) res"

inductive main_reaches ::
  "(ip_config list \<Rightarrow> unit outcome) \<Rightarrow> main_point \<times> 'h server \<Rightarrow> main_point \<times> 'h server \<Rightarrow> bool" for bs s0 where
  initial: "main_reaches bs s0 s0"
| step: "main_reaches bs s0 s \<Longrightarrow> main_step bs s (ok s') \<Longrightarrow> main_reaches bs s0 s'"

fun main_inv :: "main_point \<times> 'h server \<Rightarrow> bool" where
  "main_inv (At_start, sv) = (sv_mainThread sv = None \<and> sv_main sv = Not_running \<and> sv_stops sv = [])"
| "main_inv (Await_start, sv) = (sv_mainThread sv = Some True \<and> \<not> sv_stopRequested sv \<and> sv_stops sv = [] \<and>
     (sv_main sv, sv_startPromise sv) \<in> {(Starting, Pending), (Serving, Fulfilled), (Exited, Failed)})"
| "main_inv (Await_key, sv) = (running sv \<and> sv_stops sv = [])"
| "main_inv (Await_stop, sv) = (case sv_stops sv of
     [p] \<Rightarrow> if p = Done then sv_mainThread sv = None \<and> sv_main sv = Exited else position_ok p sv
   | _ \<Rightarrow> False)"
| "main_inv (Returned, sv) = (sv_stops sv = [Done] \<and> sv_mainThread sv = None \<and> sv_main sv = Exited)"

lemma main_thread_inv: "main_inv (pt, sv) \<Longrightarrow> main_turn success sv = Some sv' \<Longrightarrow> main_inv (pt, sv')"
proof (cases pt)
  case Await_stop
  assume "main_inv (pt, sv)" and turn: "main_turn success sv = Some sv'"
  then obtain p where "sv_stops sv = [p]" "if p = Done then sv_mainThread sv = None \<and> sv_main sv = Exited else position_ok p sv"
    using Await_stop by (auto split: list.splits)
  with turn Await_stop show ?thesis
    by (cases p) (auto simp: main_turn_def running_def split: main_state.splits if_splits)
qed (auto simp: main_turn_def running_def split: main_state.splits if_splits)

lemma stop_turn_idle: "all_done sv \<Longrightarrow> stop_turn i sv = None"
  by (simp add: stop_turn_def all_done_nth)

lemma stop_thread_inv:
  assumes "main_inv (pt, sv)" and "stop_turn i sv = Some res"
  shows "\<exists>sv'. res = ok sv' \<and> main_inv (pt, sv')"
proof (cases pt)
  case Await_stop
  then obtain p where p: "sv_stops sv = [p]"
      "if p = Done then sv_mainThread sv = None \<and> sv_main sv = Exited else position_ok p sv"
    using assms(1) by (auto split: list.splits)
  moreover have "i = 0"
    using assms(2) p(1) by (cases i) (simp_all add: stop_turn_def)
  ultimately show ?thesis
    using assms(2) Await_stop by (cases p) (auto simp: stop_turn_def Let_def running_def split: if_splits)
qed (use assms stop_turn_idle [of sv i] in \<open>auto simp: all_done_def\<close>)

lemma main_step_inv:
  assumes "main_inv s" and "main_step bs s (ok s')"
  shows "main_inv s'"
  using assms(2,1)
proof (cases rule: main_step.cases)
  case (start sv)
  then have "\<exists>sv'. Server_Life.start bs sv = ok sv' \<and> s' = (Await_start, sv')"
    by (cases "Server_Life.start bs sv") (auto simp: noexcept_def split: fault.splits)
  then show ?thesis
    using assms(1) start(1) by (auto simp: Server_Life.start_def bind_eq_Inr)
next
  case (stop_thread i sv res pt)
  then show ?thesis
    using stop_thread_inv [of pt sv i res] assms(1) by (auto simp: bind_eq_Inr)
qed (auto simp: stop_def running_def all_done_def intro: main_thread_inv split: list.splits if_splits)

lemma main_reaches_inv: "main_reaches bs (At_start, Server c rt) s \<Longrightarrow> main_inv s"
  by (induction rule: main_reaches.induct) (auto simp: Server_def intro: main_step_inv)

lemma example_main_inv:
  assumes "example_server F P R B X resolve blank = ok sv0" and "main_reaches bs (At_start, sv0) s"
  shows "main_inv s"
proof -
  obtain c rt where "sv0 = Server c rt"
    using assms(1) by (auto simp: example_server_def bind_eq_Inr)
  with assms(2) main_reaches_inv [of bs c rt s] show ?thesis by simp
qed

lemma main_step_fault:
  assumes "main_inv s" and "main_step bs s (Inl f)"
  shows "fst s = At_start \<and> (\<exists>e. bs (cf_httpAddresses (sv_config (snd s))) = Inl e) \<or>
    fst s = Await_start \<and> sv_startPromise (snd s) = Failed"
  using assms(2)
proof (cases rule: main_step.cases)
  case (start sv)
  then show ?thesis
    using assms(1) by (cases "bs (cf_httpAddresses (sv_config sv))")
      (auto simp: Server_Life.start_def)
next
  case (stop_thread i sv res pt)
  then show ?thesis
    using stop_thread_inv [of pt sv i res] assms(1) by (auto simp: bind_def split: sum.splits)
qed auto

lemma main_reaches_first: "main_reaches bs s' t \<Longrightarrow> main_step bs s (ok s') \<Longrightarrow> main_reaches bs s t"
proof (induction rule: main_reaches.induct)
  case initial
  then show ?case by (rule main_reaches.step [OF main_reaches.initial])
qed (auto intro: main_reaches.step)

lemma main_reaches_turns:
  "run_turns bs ts sv = Some (ok sv') \<Longrightarrow> list_all thread_turn ts \<Longrightarrow>
   main_reaches bs (pt, sv') t \<Longrightarrow> main_reaches bs (pt, sv) t"
proof (induction ts arbitrary: sv)
  case (Cons u ts)
  then obtain sv1 where sv1: "server_turn bs u sv = Some (ok sv1)" "run_turns bs ts sv1 = Some (ok sv')"
    by (auto split: option.splits sum.splits)
  with Cons have "main_reaches bs (pt, sv1) t" by simp
  moreover have "main_step bs (pt, sv) (ok (pt, sv1))"
    using sv1(1) Cons.prems(2) main_step.stop_thread [of _ sv "ok sv1" bs pt]
    by (cases u) (auto intro: main_step.main_thread)
  ultimately show ?case by (rule main_reaches_first)
qed simp

lemma finish_turns: "list_all thread_turn (finish sv i p)"
  by (cases p) simp_all

lemma main_returns_stop:
  assumes "main_inv (Await_stop, sv)"
  shows "\<exists>sv'. main_reaches bs (Await_stop, sv) (Returned, sv')"
proof -
  obtain p where p: "sv_stops sv = [p]" "p = Done \<or> position_ok p sv"
    using assms by (auto split: list.splits if_splits)
  have "\<exists>ts sv'. run_turns bs ts sv = Some (ok sv') \<and> list_all thread_turn ts \<and> all_done sv'"
  proof (cases "p = Done")
    case True
    with p show ?thesis
      by (intro exI [of _ "[]"] exI [of _ sv]) (simp add: all_done_def)
  next
    case False
    then have "active sv 0 p" using p by (simp add: active_def)
    with False p finish_runs [of sv 0 p bs] finish_turns show ?thesis by blast
  qed
  then obtain ts sv' where "run_turns bs ts sv = Some (ok sv')" "list_all thread_turn ts" "all_done sv'"
    by blast
  then show ?thesis
    using main_reaches_turns main_reaches_first [OF main_reaches.initial main_step.stopped] by blast
qed

lemma main_returns_key:
  assumes "main_inv (Await_key, sv)"
  shows "\<exists>sv'. main_reaches bs (Await_key, sv) (Returned, sv')"
proof -
  have "main_inv (Await_stop, stop sv)"
    using assms by (auto simp: stop_def running_def)
  from main_returns_stop [OF this] show ?thesis
    using main_reaches_first [OF _ main_step.key] by blast
qed

lemma main_returns_started:
  assumes "main_inv (Await_start, sv)" and "sv_startPromise sv \<noteq> Failed"
  shows "\<exists>sv'. main_reaches bs (Await_start, sv) (Returned, sv')"
proof -
  have served: "\<exists>sv'. main_reaches bs (Await_start, sv) (Returned, sv')"
    if "main_inv (Await_start, sv)" "sv_startPromise sv = Fulfilled" for sv
  proof -
    have "main_inv (Await_key, sv)" using that by (auto simp: running_def)
    from main_returns_key [OF this] show ?thesis
      using main_reaches_first [OF _ main_step.started [OF that(2)]] by blast
  qed
  show ?thesis
  proof (cases "sv_startPromise sv = Fulfilled")
    case False
    let ?sv = "sv\<lparr>sv_main := Serving, sv_startPromise := Fulfilled\<rparr>"
    have "main_turn True sv = Some ?sv" and "main_inv (Await_start, ?sv)"
      using assms False by (auto simp: main_turn_def)
    with served [of ?sv] show ?thesis
      using main_reaches_first [OF _ main_step.main_thread] by fastforce
  qed (use served assms in blast)
qed

lemma main_can_return:
  assumes "example_server F P R B X resolve blank = ok sv0" and "main_reaches bs (At_start, sv0) s"
    and "\<And>a. bs a = ok ()" and "fst s = Await_start \<Longrightarrow> sv_startPromise (snd s) \<noteq> Failed"
  shows "\<exists>sv. main_reaches bs s (Returned, sv)"
proof -
  have inv: "main_inv s"
    using assms(1,2) by (rule example_main_inv)
  show ?thesis
  proof (cases s rule: main_inv.cases)
    case (1 sv)
    then have "main_step bs s (ok (Await_start, sv\<lparr>sv_mainThread := Some True, sv_main := Starting,
        sv_stopRequested := False, sv_startPromise := Pending\<rparr>))"
      using inv assms(3) main_step.start [of bs sv] by (simp add: Server_Life.start_def)
    moreover from this have "main_inv (Await_start, sv\<lparr>sv_mainThread := Some True, sv_main := Starting,
        sv_stopRequested := False, sv_startPromise := Pending\<rparr>)"
      using main_step_inv [OF inv] by blast
    ultimately show ?thesis
      using main_returns_started main_reaches_first by fastforce
  qed (use inv assms(4) in \<open>metis main_returns_started main_returns_key main_returns_stop
      main_reaches.initial fst_conv snd_conv\<close>)+
qed

section \<open>Properties\<close>

text \<open>
  A file of the example site, from the request to the wire: for a \<open>GET\<close> of any path below
  \<open>/\<close> that does not go on with exactly two slashes, without \<open>If-Modified-Since\<close>, the factory of
  the example server makes a file handler, which answers with one well-formed response of status
  200 whose body is what is transmitted for the file at the path below \<open>public\<close> that the request
  names; no such request reaches a file outside.
\<close>

theorem example_file_on_wire:
  assumes "unescape_law F" and "sformat_law F" and "to_int64_law F" and "iobuf_law B" and "futures_law X"
    and "path_law P" and "element_law P" and "served F R B X m" and "example_server F P R B X resolve blank = ok sv"
    and "effective_method m = GET" and "effective_path F m = ''/'' @ rest" and "rest \<noteq> []"
    and "getHeader m HTTP_HEADER_IF_MODIFIED_SINCE = None"
    and "\<not> two_slashes rest"
    and "q = fs_append P ''public'' (sanitizePath P rest)"
    and "fs_is_regular_file P q = ok True" and "fs_open P q = opened content"
  shows "\<exists>h names h' w.
    serve_stream F R B X P T (hd (so_handlerFactories (sv_options sv))) current m = ok (Some (h, True)) \<and>
    fh_path h = q \<and> fs_components P q = ''public'' # names \<and> below names \<and>
    job_then_eof P B h = Some (ok h') \<and> wire_of h' = ok w \<and> builder_run Fresh w = Some Finished \<and>
    status_sent w = Some 200 \<and> body_bytes w = transmitted B 4096 content"
proof -
  obtain h0 where h0: "StreamingFileHandler ''public'' kDefaultFileReaderBufferSize True None = ok h0"
      "factory_onRequest F R B X (hd (so_handlerFactories (sv_options sv))) (Some m) =
        ok (Some (Streaming_handler_object (setRequestArgs h0 rest)))"
    by (rule example_file_handler [OF assms(2-5,8-12)])
  obtain h where h: "streaming_onRequest F B (file_virtuals P T) current
        ((setRequestArgs h0 rest)\<lparr>sh_downstream := True\<rparr>) (Some m) = ok h"
      "can_answer h" "fh_path h = q" "fh_ifModifiedSince h = 0" "fh_readBufferSize h = 4096"
    using request_to_file [OF assms(1), of "''public''" kDefaultFileReaderBufferSize None B P T current rest m] h0(1)
      assms(13,15)
    by (simp add: can_answer_def kDefaultFileReaderBufferSize_def)
  obtain names where "fs_components P q = ''public'' # names" "below names"
    using public_path [OF assms(6,7,14)] assms(15) by blast
  moreover have "\<exists>h' w. file_onEOM P B h = ok (h, True) \<and> job_then_eof P B h = Some (ok h') \<and>
    wire_of h' = ok w \<and> builder_run Fresh w = Some Finished \<and> status_sent w = Some 200 \<and> body_bytes w = transmitted B 4096 content"
    using served_whole [OF assms(4) h(2), of P content] h assms(16,17) by (simp add: unmodified_def)
  ultimately show ?thesis
    using h0(2) h(1,3) by (auto simp: serve_stream_def)
qed

text \<open>
  C18. The example's \<open>main\<close> never aborts by itself: in whatever order the turns of the server's
  threads come, no step from a state it can reach ends the process, but for an address that
  cannot be bound and a server that fails to start, whose exceptions \<open>main\<close> lets through; and
  when it returns, the main thread of the server has exited and been joined, so that destroying
  the server is safe.
\<close>

theorem example_main_safe:
  assumes "example_server F P R B X resolve blank = ok sv0" and "main_reaches bs (At_start, sv0) s"
  shows "(\<forall>f. main_step bs s (Inl f) \<longrightarrow>
      fst s = At_start \<and> (\<exists>e. bs (cf_httpAddresses (sv_config (snd s))) = Inl e) \<or>
      fst s = Await_start \<and> sv_startPromise (snd s) = Failed) \<and>
    (fst s = Returned \<longrightarrow> sv_mainThread (snd s) = None \<and> sv_main (snd s) = Exited)"
proof -
  have "main_inv s"
    using assms by (rule example_main_inv)
  then show ?thesis
    using main_step_fault [of s bs] by (cases s rule: main_inv.cases) auto
qed

text \<open>
  The example's \<open>main\<close> can always return: from every state it can reach, unless the server
  has failed to start, some turns of the threads and a key lead to its end.
\<close>

theorem example_main_returns:
  assumes "example_server F P R B X resolve blank = ok sv0" and "main_reaches bs (At_start, sv0) s"
    and "\<And>a. bs a = ok ()" and "fst s = Await_start \<Longrightarrow> sv_startPromise (snd s) \<noteq> Failed"
  shows "\<exists>sv. main_reaches bs s (Returned, sv)"
  using assms by (rule main_can_return)

section \<open>Witnesses\<close>

definition ref_blank :: config where
  "ref_blank = the_config ref_fs [] 0 None 0 0"

lemma ref_example_server:
  obtains sv where "example_server ref_folly ref_fs example_lib ref_iobuf ref_futures ref_resolver ref_blank = ok sv"
proof -
  have "\<exists>c. example_config ref_folly ref_fs ref_resolver ref_blank = ok c"
    by (simp add: example_config_def Config_tuples_Inr ref_resolver_def acceptable_def
        kDefaultRequestTimeoutMs_def kDefaultFileReaderBufferSize_def resolve_one_Inr list_all2_Cons1
        usable_dir_def)
  with example_router_eq [OF ref_folly_laws(2) example_lib_supports] that show thesis
    by (auto simp: example_server_def)
qed

lemma example_file_on_wire_witness:
  "\<exists>sv h names h' w.
    example_server ref_folly ref_fs example_lib ref_iobuf ref_futures ref_resolver ref_blank = ok sv \<and>
    serve_stream ref_folly example_lib ref_iobuf ref_futures ref_fs ref_time
      (hd (so_handlerFactories (sv_options sv))) 7 (plain_message ''/../css/site.css'') = ok (Some (h, True)) \<and>
    fh_path h = fs_append ref_fs ''public'' (sanitizePath ref_fs ''../css/site.css'') \<and>
    fs_components ref_fs (fs_append ref_fs ''public'' (sanitizePath ref_fs ''../css/site.css'')) = ''public'' # names \<and>
    below names \<and> job_then_eof ref_fs ref_iobuf h = Some (ok h') \<and> wire_of h' = ok w \<and>
    builder_run Fresh w = Some Finished \<and> status_sent w = Some 200 \<and> body_bytes w = transmitted ref_iobuf 4096 ''hello, world''"
proof -
  obtain sv where sv: "example_server ref_folly ref_fs example_lib ref_iobuf ref_futures ref_resolver ref_blank = ok sv"
    by (rule ref_example_server)
  have "\<exists>h names h' w.
    serve_stream ref_folly example_lib ref_iobuf ref_futures ref_fs ref_time
      (hd (so_handlerFactories (sv_options sv))) 7 (plain_message ''/../css/site.css'') = ok (Some (h, True)) \<and>
    fh_path h = fs_append ref_fs ''public'' (sanitizePath ref_fs ''../css/site.css'') \<and>
    fs_components ref_fs (fs_append ref_fs ''public'' (sanitizePath ref_fs ''../css/site.css'')) = ''public'' # names \<and>
    below names \<and> job_then_eof ref_fs ref_iobuf h = Some (ok h') \<and> wire_of h' = ok w \<and>
    builder_run Fresh w = Some Finished \<and> status_sent w = Some 200 \<and> body_bytes w = transmitted ref_iobuf 4096 ''hello, world''"
  proof (rule example_file_on_wire [OF ref_folly_laws(1-3) ref_iobuf_law ref_futures_law ref_fs_path_law
        ref_fs_laws(1) example_served sv])
    show "effective_path ref_folly (plain_message ''/../css/site.css'') = ''/'' @ ''../css/site.css''"
      by (simp add: plain_path ref_folly_def)
  qed (simp_all add: effective_method_def plain_message_def value_or_def getHeader_def two_slashes_def)
  with sv show ?thesis by blast
qed

lemma example_main_safe_witness:
  "\<exists>sv0 sv. example_server ref_folly ref_fs example_lib ref_iobuf ref_futures ref_resolver ref_blank = ok sv0 \<and>
    main_reaches binds (At_start, sv0) (Returned, sv) \<and> sv_mainThread sv = None \<and> sv_main sv = Exited"
proof -
  obtain sv0 where sv0: "example_server ref_folly ref_fs example_lib ref_iobuf ref_futures ref_resolver ref_blank = ok sv0"
    by (rule ref_example_server)
  from main_can_return [OF sv0 main_reaches.initial, of binds]
  obtain sv where sv: "main_reaches binds (At_start, sv0) (Returned, sv)"
    by (auto simp: binds_def)
  from example_main_safe [OF sv0 sv] sv0 sv show ?thesis by auto
qed

lemma example_main_returns_witness:
  "\<exists>sv0 sv. example_server ref_folly ref_fs example_lib ref_iobuf ref_futures ref_resolver ref_blank = ok sv0 \<and>
    main_reaches binds (At_start, sv0) (Returned, sv)"
proof -
  obtain sv where sv: "example_server ref_folly ref_fs example_lib ref_iobuf ref_futures ref_resolver ref_blank = ok sv"
    by (rule ref_example_server)
  from example_main_returns [OF sv main_reaches.initial, of binds] sv show ?thesis
    by (auto simp: binds_def)
qed

end
