(* ===== verification/File_Connection.thy ===== *)
theory File_Connection
  imports Streaming_File
begin

text \<open>
  A request to the file handler as it runs: the callbacks of proxygen and the tasks of the event
  base on one thread, the read job of \<open>onEOM\<close> in \<open>src/StreamingFileHandler.cpp\<close> on another,
  one turn at a time in any order.
\<close>

section \<open>The job in turns\<close>

text \<open>Where the job is: in the executor's queue, at the head of the loop, before \<open>sendEOF\<close>.\<close>

datatype job = No_job | Queued | Reading ifstream | Closing | Job_done

fun job_turn ::
  "fs_lib \<Rightarrow> iobuf_lib \<Rightarrow> job \<Rightarrow> file_handler \<Rightarrow> (job \<times> file_handler) outcome option" where
  "job_turn P B Queued h =
     (let fin = fs_open P (fh_path h) in
      Some (if \<not> good fin then
              bind (sendResponseHeaders B h (HTTPResponse_status B 404)) (\<lambda>h. ok (Closing, h))
            else bind (sendResponseHeaders B h (HTTPResponse_status B 200)) (\<lambda>h. ok (Reading fin, h))))"
| "job_turn P B (Reading fin) h =
     Some (if in_eof fin then ok (Closing, h)
           else let n = unat (fh_readBufferSize h); (bytes, fin') = stream_read fin n in
             bind (sendBody B h [fill_buffer B n bytes]) (\<lambda>h. ok (Reading fin', h)))"
| "job_turn P B Closing h = Some (bind (sendEOF h) (\<lambda>h. ok (Job_done, h)))"
| "job_turn P B No_job h = None"
| "job_turn P B Job_done h = None"

text \<open>The turns of a job that nothing interrupts.\<close>

inductive job_result ::
  "fs_lib \<Rightarrow> iobuf_lib \<Rightarrow> job \<times> file_handler \<Rightarrow> file_handler outcome \<Rightarrow> bool" for P B where
  finished: "job_result P B (Job_done, h) (ok h)"
| turn: "job_turn P B pt h = Some (ok (pt', h')) \<Longrightarrow> job_result P B (pt', h') r \<Longrightarrow> job_result P B (pt, h) r"
| fault: "job_turn P B pt h = Some (Inl f) \<Longrightarrow> job_result P B (pt, h) (Inl f)"

inductive_simps job_result_simps: "job_result P B (pt, h) r"

lemma job_result_turn:
  "job_turn P B pt h = Some m \<Longrightarrow> job_result P B (pt, h) r \<longleftrightarrow>
     (case m of Inl f \<Rightarrow> r = Inl f | Inr s \<Rightarrow> job_result P B s r)"
proof -
  assume m: "job_turn P B pt h = Some m"
  then have "pt \<noteq> Job_done" by auto
  with m show ?thesis
    by (subst job_result_simps) (auto split: sum.splits simp del: job_turn.simps)
qed

lemma job_result_done: "job_result P B (Job_done, h) r \<longleftrightarrow> r = ok h"
  by (auto simp: job_result_simps [of P B Job_done])

lemma noexcept_Inr: "noexcept m = ok x \<longleftrightarrow> m = ok x"
  by (auto simp: noexcept_def split: sum.splits fault.splits)

lemma send_keeps_size:
  "sendResponseHeaders B h r = ok h' \<Longrightarrow> fh_readBufferSize h' = fh_readBufferSize (h :: file_handler)"
  "sendBody B h data = ok h' \<Longrightarrow> fh_readBufferSize h' = fh_readBufferSize h"
  by (auto simp: sendResponseHeaders_def sendBody_def runInEventBaseThread_def bind_eq_Inr noexcept_Inr
      split: option.splits if_splits)

lemma closing_result: "job_result P B (Closing, h) r \<longleftrightarrow> r = sendEOF h"
  by (cases "sendEOF h") (simp_all add: job_result_turn job_result_done)

lemma read_loop_turn:
  "read_loop B send n h fin =
     (if in_eof fin then Some (ok h)
      else (case send h [fill_buffer B n (fst (stream_read fin n))] of
          Inl f \<Rightarrow> Some (Inl f)
        | Inr h' \<Rightarrow> read_loop B send n h' (snd (stream_read fin n))))"
  by (simp add: read_loop.simps [of B send n h] split_beta)

lemma reading_result:
  "job_result P B (Reading fin, h) r \<longleftrightarrow>
     (if in_eof fin then r = sendEOF h
      else (case sendBody B h [fill_buffer B (unat (fh_readBufferSize h)) (fst (stream_read fin (unat (fh_readBufferSize h))))] of
          Inl f \<Rightarrow> r = Inl f
        | Inr h' \<Rightarrow> job_result P B (Reading (snd (stream_read fin (unat (fh_readBufferSize h)))), h') r))"
  by (auto simp: job_result_turn closing_result Let_def split_beta bind_def split: sum.split)

lemma loop_to_turns:
  "read_loop B send n h fin = Some r \<Longrightarrow> send = sendBody B \<longrightarrow> n = unat (fh_readBufferSize h) \<longrightarrow>
   job_result P B (Reading fin, h) (bind r sendEOF)"
proof (induction rule: read_loop.raw_induct [rotated 1, consumes 1, case_names step])
  case (step loop B send n h fin r)
  show ?case
  proof (intro impI)
    assume send: "send = sendBody B" and n: "n = unat (fh_readBufferSize h)"
    let ?seg = "fill_buffer B n (fst (stream_read fin n))" and ?fin = "snd (stream_read fin n)"
    show "job_result P B (Reading fin, h) (bind r sendEOF)"
    proof (cases "\<exists>h1. \<not> in_eof fin \<and> sendBody B h [?seg] = ok h1")
      case True
      then obtain h1 where h1: "\<not> in_eof fin" "sendBody B h [?seg] = ok h1" by blast
      with step(2) send have "loop B send n h1 ?fin = Some r"
        by (simp add: split_beta)
      with step(1) send n send_keeps_size(2) [OF h1(2)] have "job_result P B (Reading ?fin, h1) (bind r sendEOF)"
        by simp
      with h1 n show ?thesis
        by (subst reading_result) simp
    next
      case False
      with step(2) send n show ?thesis
        by (subst reading_result) (auto simp: split_beta split: sum.splits if_splits)
    qed
  qed
qed

lemma turns_to_loop:
  "job_result P B s r \<Longrightarrow> s = (Reading fin, h) \<Longrightarrow>
   \<exists>r'. read_loop B (sendBody B) (unat (fh_readBufferSize h)) h fin = Some r' \<and> r = bind r' sendEOF"
proof (induction arbitrary: fin h rule: job_result.induct)
  case (turn pt h0 pt' h' r)
  let ?n = "unat (fh_readBufferSize h)"
  show ?case
  proof (cases "in_eof fin")
    case True
    with turn.hyps turn.prems have "r = sendEOF h"
      by (simp add: closing_result)
    with True show ?thesis by (simp add: read_loop_turn)
  next
    case False
    with turn.hyps(1) turn.prems have h': "sendBody B h [fill_buffer B ?n (fst (stream_read fin ?n))] = ok h'"
        "pt' = Reading (snd (stream_read fin ?n))"
      by (auto simp: bind_eq_Inr Let_def split_beta)
    with turn.IH [of "snd (stream_read fin ?n)" h'] send_keeps_size(2) [OF h'(1)] False show ?thesis
      by (subst read_loop_turn) simp
  qed
next
  case (fault pt h0 f)
  then have "\<not> in_eof fin" "sendBody B h [fill_buffer B (unat (fh_readBufferSize h))
      (fst (stream_read fin (unat (fh_readBufferSize h))))] = Inl f"
    by (auto simp: bind_def Let_def split_beta split: if_splits sum.splits)
  then show ?case by (subst read_loop_turn) simp
qed simp

lemma job_in_turns: "job_then_eof P B h = Some r \<longleftrightarrow> job_result P B (Queued, h) r"
proof (cases "good (fs_open P (fh_path h))")
  case False
  then show ?thesis
    by (cases "sendResponseHeaders B h (HTTPResponse_status B 404)")
       (auto simp: job_then_eof_def read_job_def job_result_turn closing_result)
next
  case good: True
  show ?thesis
  proof (cases "sendResponseHeaders B h (HTTPResponse_status B 200)")
    case (Inl f)
    with good show ?thesis
      by (auto simp: job_then_eof_def read_job_def job_result_turn)
  next
    case (Inr h1)
    let ?n = "unat (fh_readBufferSize h1)" and ?fin = "fs_open P (fh_path h)"
    have "job_result P B (Queued, h) r \<longleftrightarrow> job_result P B (Reading ?fin, h1) r"
      using good Inr by (simp add: job_result_turn)
    also have "\<dots> \<longleftrightarrow> (\<exists>r'. read_loop B (sendBody B) ?n h1 ?fin = Some r' \<and> r = bind r' sendEOF)"
      using turns_to_loop [of P B _ r ?fin h1] loop_to_turns [of B "sendBody B" ?n h1 ?fin _ P] by blast
    also have "\<dots> \<longleftrightarrow> job_then_eof P B h = Some r"
      using good Inr send_keeps_size(1) [OF Inr] by (auto simp: job_then_eof_def read_job_def)
    finally show ?thesis by simp
  qed
qed

section \<open>The connection\<close>

text \<open>Which callbacks proxygen has made: none, \<open>onRequest\<close>, \<open>onEOM\<close>, the last one.\<close>

datatype stage = Await_request | Receiving | Received | Closed

text \<open>
  \<open>runInEventBaseThread\<close> has two queues: functions given to it on the event base's own thread
  go to the loop's callbacks, those of other threads to a queue that the loop reads. Each keeps
  its order; nothing is said of the order between them. So the tasks of the handler are moved to
  \<open>fc_loop\<close> after a callback and to \<open>fc_queue\<close> after a turn of the job.
\<close>

record file_conn =
  fc_handler :: file_handler
  fc_alive :: bool
  fc_stage :: stage
  fc_job :: job
  fc_loop :: "task list"
  fc_queue :: "task list"
  fc_wire :: "builder_call list"

definition use_handler :: "file_conn \<Rightarrow> 'a outcome \<Rightarrow> 'a outcome" where
  "use_handler cn r =
     (if fc_alive cn then r else Inl (Abort (Undefined_behaviour ''use of a deleted handler'')))"

definition after_callback :: "file_conn \<Rightarrow> stage \<Rightarrow> file_handler \<Rightarrow> file_conn" where
  "after_callback cn st h = cn\<lparr>fc_handler := h\<lparr>sh_posted := []\<rparr>, fc_stage := st,
     fc_loop := fc_loop cn @ sh_posted h\<rparr>"

definition after_turn :: "file_conn \<Rightarrow> job \<Rightarrow> file_handler \<Rightarrow> file_conn" where
  "after_turn cn pt h = cn\<lparr>fc_handler := h\<lparr>sh_posted := []\<rparr>, fc_job := pt,
     fc_queue := fc_queue cn @ sh_posted h\<rparr>"

definition run_task :: "file_conn \<Rightarrow> task \<Rightarrow> file_conn outcome" where
  "run_task cn t =
     bind (run_tasks (sh_responseBuilder (fc_handler cn)) (fc_alive cn) (fc_wire cn) [t]) (\<lambda>w.
       ok (cn\<lparr>fc_wire := w, fc_alive := fc_alive cn \<and> t \<noteq> Delete_this\<rparr>))"

text \<open>A turn of the job uses the handler, but for the one that finds the end of the file.\<close>

fun job_uses :: "job \<Rightarrow> bool" where
  "job_uses (Reading fin) = (\<not> in_eof fin)"
| "job_uses _ = True"

text \<open>
  \<open>requestComplete\<close> comes when the whole response is out, \<open>onError\<close> (if there are client errors)
  at any time before that.
\<close>

inductive file_step ::
  "folly_lib \<Rightarrow> iobuf_lib \<Rightarrow> fs_lib \<Rightarrow> time_lib \<Rightarrow> event_base \<Rightarrow> http_message \<Rightarrow> bool
     \<Rightarrow> file_conn \<Rightarrow> file_conn outcome \<Rightarrow> bool"
  for F B P T current m errors where
  request: "fc_stage cn = Await_request \<Longrightarrow> file_step F B P T current m errors cn
     (use_handler cn (bind (streaming_onRequest F B (file_virtuals P T) current (fc_handler cn) (Some m))
       (\<lambda>h. ok (after_callback cn Receiving h))))"
| body: "fc_stage cn = Receiving \<Longrightarrow> file_step F B P T current m errors cn
     (use_handler cn (ok (after_callback cn Receiving (file_onBody (fc_handler cn) buf))))"
| eom: "fc_stage cn = Receiving \<Longrightarrow> file_step F B P T current m errors cn
     (use_handler cn (bind (file_onEOM P B (fc_handler cn))
       (\<lambda>(h, job). ok (after_callback (cn\<lparr>fc_job := if job then Queued else No_job\<rparr>) Received h))))"
| complete: "fc_stage cn = Received \<Longrightarrow> builder_run Fresh (fc_wire cn) = Some Finished \<Longrightarrow>
     file_step F B P T current m errors cn
       (use_handler cn (bind (streaming_requestComplete (file_virtuals P T) (fc_handler cn))
         (\<lambda>h. ok (after_callback cn Closed h))))"
| error: "errors \<Longrightarrow> fc_stage cn \<in> {Receiving, Received} \<Longrightarrow> file_step F B P T current m errors cn
     (use_handler cn (bind (streaming_onError (file_virtuals P T) (fc_handler cn) err)
       (\<lambda>h. ok (after_callback cn Closed h))))"
| loop_task: "fc_loop cn = t # ts \<Longrightarrow>
     file_step F B P T current m errors cn (run_task (cn\<lparr>fc_loop := ts\<rparr>) t)"
| queue_task: "fc_queue cn = t # ts \<Longrightarrow>
     file_step F B P T current m errors cn (run_task (cn\<lparr>fc_queue := ts\<rparr>) t)"
| job: "job_turn P B (fc_job cn) (fc_handler cn) = Some r \<Longrightarrow> file_step F B P T current m errors cn
     ((if job_uses (fc_job cn) then use_handler cn else id) (bind r (\<lambda>(pt, h). ok (after_turn cn pt h))))"

inductive file_reachable ::
  "folly_lib \<Rightarrow> iobuf_lib \<Rightarrow> fs_lib \<Rightarrow> time_lib \<Rightarrow> event_base \<Rightarrow> http_message \<Rightarrow> bool
     \<Rightarrow> file_conn \<Rightarrow> file_conn \<Rightarrow> bool"
  for F B P T current m errors cn0 where
  start: "file_reachable F B P T current m errors cn0 cn0"
| step: "file_reachable F B P T current m errors cn0 cn \<Longrightarrow>
     file_step F B P T current m errors cn (ok cn') \<Longrightarrow> file_reachable F B P T current m errors cn0 cn'"

text \<open>A connection whose handler the factory has just made.\<close>

definition new_file_conn :: "path \<Rightarrow> size_t \<Rightarrow> event_base option \<Rightarrow> string \<Rightarrow> file_conn outcome" where
  "new_file_conn base n evb raw_path =
     bind (StreamingFileHandler base n True evb) (\<lambda>h.
       ok \<lparr>fc_handler = (setRequestArgs h raw_path)\<lparr>sh_downstream := True\<rparr>, fc_alive = True,
           fc_stage = Await_request, fc_job = No_job, fc_loop = [], fc_queue = [], fc_wire = []\<rparr>)"

section \<open>The invariant without client errors\<close>

fun calls_of :: "task \<Rightarrow> builder_call list" where
  "calls_of (Calls calls) = calls"
| "calls_of Delete_this = []"

text \<open>Tasks that send something; the deletion is not one.\<close>

abbreviation sending :: "task list \<Rightarrow> bool" where
  "sending ts \<equiv> list_all (\<lambda>t. calls_of t \<noteq> []) ts"

definition all_calls :: "file_conn \<Rightarrow> builder_call list" where
  "all_calls cn = fc_wire cn @ concat (map calls_of (fc_loop cn)) @ concat (map calls_of (fc_queue cn))"

text \<open>
  What the job has sent or posted so far: the status fits the file, and of a file that can be
  read to its end the bytes sent and those still to come (\<open>rest\<close>) make the whole.
\<close>

definition sent_so_far ::
  "fs_lib \<Rightarrow> iobuf_lib \<Rightarrow> file_handler \<Rightarrow> ifstream option \<Rightarrow> builder_call list \<Rightarrow> bool" where
  "sent_so_far P B h fin T \<longleftrightarrow> sh_sentHeaders h \<and>
     status_sent T = Some (if good (fs_open P (fh_path h)) then 200 else 404) \<and>
     (\<not> good (fs_open P (fh_path h)) \<longrightarrow> body_bytes T = []) \<and>
     (\<forall>content. fs_open P (fh_path h) = opened content \<longrightarrow> fh_readBufferSize h \<noteq> 0 \<longrightarrow>
        (let sent = sent_bytes B (unat (fh_readBufferSize h)) in
         case fin of None \<Rightarrow> body_bytes T = sent content
         | Some s \<Rightarrow> if in_eof s then body_bytes T = sent content
             else \<exists>rest. s = opened rest \<and> body_bytes T @ sent rest = sent content))"

fun job_inv :: "fs_lib \<Rightarrow> iobuf_lib \<Rightarrow> file_handler \<Rightarrow> job \<Rightarrow> builder_call list \<Rightarrow> bool" where
  "job_inv P B h No_job T = (builder_run Fresh T = Some Finished \<and>
     status_sent T \<in> {Some 304, Some 404} \<and> body_bytes T = [])"
| "job_inv P B h Queued T = (\<not> sh_sentHeaders h \<and> T = [])"
| "job_inv P B h (Reading fin) T = (good (fs_open P (fh_path h)) \<and>
     builder_run Fresh T = Some Streaming_body \<and> sent_so_far P B h (Some fin) T)"
| "job_inv P B h Closing T = (builder_run Fresh T = Some Streaming_body \<and> sent_so_far P B h None T)"
| "job_inv P B h Job_done T = (builder_run Fresh T = Some Finished \<and> sent_so_far P B h None T)"

definition file_inv :: "fs_lib \<Rightarrow> iobuf_lib \<Rightarrow> file_conn \<Rightarrow> bool" where
  "file_inv P B cn \<longleftrightarrow> (let h = fc_handler cn in sh_posted h = [] \<and> (case fc_stage cn of
       Await_request \<Rightarrow> fc_alive cn \<and> sh_downstream h \<and> \<not> sh_sentHeaders h \<and> fc_job cn = No_job \<and>
         fc_loop cn = [] \<and> fc_queue cn = [] \<and> fc_wire cn = []
     | Receiving \<Rightarrow> fc_alive cn \<and> can_answer h \<and> fc_job cn = No_job \<and>
         fc_loop cn = [] \<and> fc_queue cn = [] \<and> fc_wire cn = []
     | Received \<Rightarrow> fc_alive cn \<and> sh_evb h \<noteq> None \<and> sh_responseBuilder h \<and>
         sending (fc_loop cn @ fc_queue cn) \<and>
         (if fc_job cn = No_job then fc_queue cn = [] else fc_loop cn = []) \<and>
         job_inv P B h (fc_job cn) (all_calls cn)
     | Closed \<Rightarrow> fc_job cn \<in> {No_job, Job_done} \<and> fc_queue cn = [] \<and>
         fc_loop cn = (if fc_alive cn then [Delete_this] else []) \<and>
         job_inv P B h (fc_job cn) (fc_wire cn)))"

lemma posts:
  assumes "sh_evb h \<noteq> None" and "sh_posted h = []"
  shows post_headers: "\<not> sh_sentHeaders h \<Longrightarrow> sendResponseHeaders B h r =
      ok (h\<lparr>sh_sentHeaders := True, sh_posted := [Calls (header_calls B r)]\<rparr>)"
    and post_body: "iobuf_law B \<Longrightarrow> sh_sentHeaders h \<Longrightarrow> sendBody B h [seg] =
      ok (if seg = [] then h else h\<lparr>sh_posted := [Calls [B_body [seg], B_send]]\<rparr>)"
    and post_eof: "sh_sentHeaders h \<Longrightarrow> sendEOF h = ok (h\<lparr>sh_posted := [Calls [B_sendWithEOM]]\<rparr>)"
  using assms
  by (auto simp: sendResponseHeaders_def sendBody_def sendEOF_def runInEventBaseThread_def iobuf_law_def)

lemma post_delete:
  "sh_evb h \<noteq> None \<Longrightarrow> sh_posted h = [] \<Longrightarrow>
     streaming_requestComplete (file_virtuals P T) h = ok (h\<lparr>sh_posted := [Delete_this]\<rparr>)"
  "sh_evb h \<noteq> None \<Longrightarrow> sh_posted h = [] \<Longrightarrow>
     streaming_onError (file_virtuals P T) h err = ok (h\<lparr>sh_posted := [Delete_this]\<rparr>)"
  by (auto simp: streaming_requestComplete_def streaming_onError_def file_virtuals_def runInEventBaseThread_def
      onRequestComplete_def onUnhandledError_def)

text \<open>One step of the job keeps its part of the invariant.\<close>

lemma header_calls_nonempty [simp]: "header_calls B r \<noteq> []"
  by (simp add: header_calls_def)

lemma opened_inj: "opened a = opened b \<longleftrightarrow> a = b"
  by (simp add: opened_def)

lemma calls_extend:
  assumes "builder_run Fresh T = Some Streaming_body"
  shows "builder_run Fresh (T @ [B_body b, B_send]) = Some Streaming_body"
    and "builder_run Fresh (T @ [B_sendWithEOM]) = Some Finished"
    and "status_sent T = Some c \<Longrightarrow> status_sent (T @ U) = Some c"
  using assms by (simp_all add: builder_run_append status_sent_append)

definition job_ready :: "file_handler \<Rightarrow> bool" where
  "job_ready h \<longleftrightarrow> sh_evb h \<noteq> None \<and> sh_responseBuilder h \<and> sh_posted h = []"

lemma sent_so_far_posted [simp]:
  "sent_so_far P B (h\<lparr>sh_posted := ts\<rparr>) fin T \<longleftrightarrow> sent_so_far P B h fin T"
  by (simp add: sent_so_far_def)

lemma job_inv_posted [simp]: "job_inv P B (h\<lparr>sh_posted := ts\<rparr>) pt T \<longleftrightarrow> job_inv P B h pt T"
  by (cases pt) simp_all

lemma job_turn_open:
  assumes "iobuf_law B" and "job_ready h" and "\<not> sh_sentHeaders h"
  shows "\<exists>pt h'. job_turn P B Queued h = Some (ok (pt, h')) \<and> pt \<noteq> No_job \<and>
    job_ready (h'\<lparr>sh_posted := []\<rparr>) \<and> sending (sh_posted h') \<and>
    job_inv P B h' pt (concat (map calls_of (sh_posted h')))"
proof -
  let ?good = "good (fs_open P (fh_path h))" and ?pt = "\<lambda>g. if g then Reading (fs_open P (fh_path h)) else Closing"
  let ?r = "HTTPResponse_status B (if ?good then 200 else 404)"
  define h' where "h' = h\<lparr>sh_sentHeaders := True, sh_posted := [Calls (header_calls B ?r)]\<rparr>"
  have "sendResponseHeaders B h ?r = ok h'"
    using assms by (simp add: h'_def post_headers job_ready_def)
  then have "job_turn P B Queued h = Some (ok (?pt ?good, h'))"
    by (simp add: Let_def split: if_splits)
  moreover have "job_inv P B h' (?pt ?good) (header_calls B ?r)"
    using assms(1) head_bytes_status [OF assms(1), of "if ?good then 200 else 404"]
    by (auto simp: h'_def sent_so_far_def Let_def wire_simps head_bytes_def)
  ultimately show ?thesis
    using assms(2) by (intro exI [of _ "?pt ?good"] exI [of _ h']) (simp add: h'_def job_ready_def)
qed

lemma job_turn_read:
  assumes "iobuf_law B" and "job_ready h" and "job_inv P B h (Reading fin) T"
  shows "\<exists>pt h'. job_turn P B (Reading fin) h = Some (ok (pt, h')) \<and> pt \<noteq> No_job \<and>
    job_ready (h'\<lparr>sh_posted := []\<rparr>) \<and> sending (sh_posted h') \<and>
    job_inv P B h' pt (T @ concat (map calls_of (sh_posted h')))"
proof (cases "in_eof fin")
  case True
  with assms show ?thesis
    by (auto simp: job_ready_def sent_so_far_def Let_def)
next
  case False
  let ?n = "unat (fh_readBufferSize h)"
  let ?seg = "fill_buffer B ?n (fst (stream_read fin ?n))" and ?fin = "snd (stream_read fin ?n)"
  define h' where "h' = (if ?seg = [] then h else h\<lparr>sh_posted := [Calls [B_body [?seg], B_send]]\<rparr>)"
  define U where "U = concat (map calls_of (sh_posted h'))"
  have inv: "good (fs_open P (fh_path h))" "builder_run Fresh T = Some Streaming_body"
      "sent_so_far P B h (Some fin) T" "sh_sentHeaders h"
    using assms(3) by (simp_all add: sent_so_far_def)
  have U: "U = (if ?seg = [] then [] else [B_body [?seg], B_send])" "body_bytes U = ?seg"
    using assms(2) by (simp_all add: U_def h'_def job_ready_def)
  have turn: "job_turn P B (Reading fin) h = Some (ok (Reading ?fin, h'))"
    using assms(1,2) inv(4) False by (simp add: h'_def job_ready_def post_body Let_def split_beta)
  have "builder_run Fresh (T @ U) = Some Streaming_body"
    using calls_extend(1) [OF inv(2)] inv(2) by (simp add: U(1))
  moreover have "status_sent (T @ U) = Some 200"
    using inv(1,3) by (simp add: sent_so_far_def status_sent_append)
  moreover have "if in_eof ?fin then body_bytes (T @ U) = sent_bytes B ?n content
      else \<exists>rest. ?fin = opened rest \<and> body_bytes (T @ U) @ sent_bytes B ?n rest = sent_bytes B ?n content"
    if content: "fs_open P (fh_path h) = opened content" "fh_readBufferSize h \<noteq> 0" for content
  proof -
    obtain rest where "fin = opened rest" "body_bytes T @ sent_bytes B ?n rest = sent_bytes B ?n content"
      using inv(3) content False by (auto simp: sent_so_far_def Let_def)
    then show ?thesis
      using content(2) by (auto simp: opened_read U(2) body_bytes_append sent_bytes.simps [of B ?n rest] unat_eq_0)
  qed
  ultimately have inv': "job_inv P B h' (Reading ?fin) (T @ U)"
    using inv(1,4) by (auto simp: h'_def sent_so_far_def Let_def)
  have "job_ready (h'\<lparr>sh_posted := []\<rparr>)" and "sending (sh_posted h')"
    using assms(2) by (simp_all add: h'_def job_ready_def)
  with turn inv' show ?thesis
    unfolding U_def by blast
qed

lemma job_turn_close:
  assumes "job_ready h" and "job_inv P B h Closing T"
  shows "\<exists>h'. job_turn P B Closing h = Some (ok (Job_done, h')) \<and>
    job_ready (h'\<lparr>sh_posted := []\<rparr>) \<and> sending (sh_posted h') \<and>
    job_inv P B h' Job_done (T @ concat (map calls_of (sh_posted h')))"
  using assms
  by (auto simp: job_ready_def post_eof sent_so_far_def calls_extend body_bytes_append Let_def)

lemma job_turn_inv:
  assumes "iobuf_law B" and "job_ready h" and "job_inv P B h pt T" and "job_turn P B pt h = Some r"
  shows "\<exists>pt' h'. r = ok (pt', h') \<and> pt' \<noteq> No_job \<and> job_ready (h'\<lparr>sh_posted := []\<rparr>) \<and>
    sending (sh_posted h') \<and> job_inv P B h' pt' (T @ concat (map calls_of (sh_posted h')))"
proof (cases pt)
  case Queued
  with assms(3) have "\<not> sh_sentHeaders h" "T = []" by simp_all
  with job_turn_open [OF assms(1,2), of P] assms(4) show ?thesis
    unfolding Queued by (metis append_Nil option.inject)
next
  case (Reading fin)
  from job_turn_read [OF assms(1,2) assms(3) [unfolded Reading]] assms(4) show ?thesis
    unfolding Reading by (metis option.inject)
next
  case Closing
  from job_turn_close [OF assms(2) assms(3) [unfolded Closing]] assms(4) show ?thesis
    unfolding Closing by (metis option.inject job.distinct(7))
qed (use assms(4) in simp_all)

text \<open>Steps of the connection.\<close>

lemma run_calls [simp]:
  "run_task cn (Calls cs) = (if \<not> fc_alive cn then Inl (Abort (Undefined_behaviour ''use of a deleted handler''))
     else if \<not> sh_responseBuilder (fc_handler cn) then Inl (Abort (Undefined_behaviour ''responseBuilder_ is null''))
     else ok (cn\<lparr>fc_wire := fc_wire cn @ cs\<rparr>))"
  by (cases cn) (simp add: run_task_def)

lemma run_delete [simp]:
  "run_task cn Delete_this = (if fc_alive cn then ok (cn\<lparr>fc_alive := False\<rparr>)
     else Inl (Abort (Undefined_behaviour ''double delete'')))"
  by (cases cn) (simp add: run_task_def)

lemma calls_task: "t \<noteq> Delete_this \<Longrightarrow> \<exists>cs. t = Calls cs"
  by (cases t) simp_all

lemma file_onRequest:
  assumes "unescape_law F" and "sh_downstream h" and "\<not> sh_sentHeaders h" and "sh_posted h = []"
  shows "\<exists>h'. streaming_onRequest F B (file_virtuals P T) current h (Some m) = ok h' \<and> can_answer h' \<and>
    sh_posted h' = [] \<and> fh_path h' = fs_append P (fh_path h) (sanitizePath P (fh_rawPath h)) \<and>
    fh_readBufferSize h' = fh_readBufferSize h"
  using assms(2-4)
  by (auto simp: streaming_onRequest_def HTTPRequest_total [OF assms(1)] file_virtuals_def
      onRequestReceived_def Let_def can_answer_def split: option.split)

lemma file_onEOM_posts:
  assumes "iobuf_law B" and "can_answer h" and "file_onEOM P B h = ok (h', job)"
  shows "if job then h' = h else (\<exists>ts. h' = h\<lparr>sh_sentHeaders := True, sh_posted := ts\<rparr> \<and>
    sending ts \<and> job_inv P B h No_job (concat (map calls_of ts)))"
proof -
  obtain regular where regular: "fs_is_regular_file P (fh_path h) = ok regular"
    using assms(3) by (auto simp: file_onEOM_def noexcept_Inr bind_eq_Inr)
  let ?r = "HTTPResponse_status B (if regular then 304 else 404)"
  let ?h = "h\<lparr>sh_sentHeaders := True, sh_posted := [Calls (header_calls B ?r), Calls [B_sendWithEOM]]\<rparr>"
  have "bind (sendResponseHeaders B h ?r) sendEOF = ok ?h"
    using assms(2) by (auto simp: can_answer_def sendResponseHeaders_def sendEOF_def runInEventBaseThread_def)
  then have "if regular \<and> \<not> unmodified P h then h' = h \<and> job else h' = ?h \<and> \<not> job"
    using assms(3) file_onEOM_cases [OF regular, of B] by (auto split: if_splits)
  moreover have "job_inv P B h No_job (header_calls B ?r @ [B_sendWithEOM])"
    using head_bytes_status [OF assms(1), of "if regular then 304 else 404"]
    by (simp add: builder_run_append status_sent_append body_bytes_append wire_simps assms(1) head_bytes_def)
  ultimately show ?thesis
    by (auto split: if_splits intro!: exI [of _ "[Calls (header_calls B ?r), Calls [B_sendWithEOM]]"]
        simp del: job_inv.simps)
qed

lemma inv_job_ready:
  "file_inv P B cn \<Longrightarrow> fc_stage cn = Received \<Longrightarrow> job_ready (fc_handler cn)"
  by (simp add: file_inv_def job_ready_def Let_def)

lemma inv_finished:
  assumes "job_inv P B h pt (w @ U)" and "builder_run Fresh w = Some Finished"
  shows "U = [] \<and> pt \<in> {No_job, Job_done}"
proof -
  have no: "builder_run Finished V = Some s \<Longrightarrow> V = [] \<and> s = Finished" for V s
    by (cases V) simp_all
  show ?thesis
    using assms by (cases pt) (auto simp: builder_run_append dest: no)
qed

lemma sending_nothing: "sending ts \<Longrightarrow> \<forall>t \<in> set ts. calls_of t = [] \<Longrightarrow> ts = []"
  by (cases ts) auto

lemma sending_calls:
  assumes "sending (t # ts)"
  obtains cs where "t = Calls cs"
  using assms by (cases t) simp_all

lemma inv_eom:
  assumes "file_inv P B cn" and "fc_stage cn = Receiving"
    and "use_handler cn (bind (file_onEOM P B (fc_handler cn))
      (\<lambda>(h, job). ok (after_callback (cn\<lparr>fc_job := if job then Queued else No_job\<rparr>) Received h))) = ok cn'"
  obtains h job where "can_answer (fc_handler cn)" "file_onEOM P B (fc_handler cn) = ok (h, job)"
    "cn' = after_callback (cn\<lparr>fc_job := if job then Queued else No_job\<rparr>) Received h"
  using assms by (auto simp: file_inv_def use_handler_def Let_def bind_eq_Inr split: if_splits)

lemma file_inv_step:
  assumes "unescape_law F" and "iobuf_law B" and "file_inv P B cn"
    and "file_step F B P T current m False cn (ok cn')"
  shows "file_inv P B cn'"
  using assms(4)
proof (cases rule: file_step.cases)
  case request
  then show ?thesis
    using assms(3) file_onRequest [OF assms(1), of "fc_handler cn" B P T current m]
    by (auto simp: file_inv_def use_handler_def after_callback_def Let_def can_answer_def)
next
  case (body buf)
  then show ?thesis
    using assms(3) by (auto simp: file_inv_def use_handler_def after_callback_def Let_def can_answer_def file_onBody_def)
next
  case eom
  from inv_eom [OF assms(3) eom(2) eom(1) [symmetric]] obtain h job where
    h: "can_answer (fc_handler cn)" "file_onEOM P B (fc_handler cn) = ok (h, job)"
      "cn' = after_callback (cn\<lparr>fc_job := if job then Queued else No_job\<rparr>) Received h" .
  show ?thesis
    using file_onEOM_posts [OF assms(2) h(1,2)] assms(3) eom(2) h(1,3)
    by (cases job) (auto simp: file_inv_def after_callback_def Let_def all_calls_def can_answer_def)
next
  case complete
  have fin: "sending (fc_loop cn @ fc_queue cn)" "job_inv P B (fc_handler cn) (fc_job cn) (all_calls cn)"
      "fc_alive cn"
    using assms(3) complete(2) by (simp_all add: file_inv_def Let_def)
  from inv_finished [OF fin(2) [unfolded all_calls_def] complete(3)] fin(1)
  have "fc_loop cn = []" "fc_queue cn = []" "fc_job cn \<in> {No_job, Job_done}"
    by (auto intro: sending_nothing)
  moreover have "cn' = after_callback cn Closed ((fc_handler cn)\<lparr>sh_posted := [Delete_this]\<rparr>)"
    using complete(1) fin(3) post_delete(1) [of "fc_handler cn" P T] assms(3) complete(2)
    by (simp add: use_handler_def file_inv_def Let_def)
  ultimately show ?thesis
    using fin(2,3) by (simp add: file_inv_def after_callback_def Let_def all_calls_def)
next
  case (loop_task t ts)
  show ?thesis
  proof (cases "fc_stage cn")
    case Received
    then have inv: "sending (t # ts @ fc_queue cn)" "fc_alive cn" "sh_responseBuilder (fc_handler cn)"
        "fc_job cn = No_job" "fc_queue cn = []"
      using assms(3) loop_task(2) by (auto simp: file_inv_def Let_def split: if_splits)
    obtain cs where "t = Calls cs"
      using inv(1) by (rule sending_calls)
    with loop_task inv assms(3) Received show ?thesis
      by (auto simp: file_inv_def Let_def all_calls_def)
  next
    case Closed
    with loop_task assms(3) show ?thesis
      by (auto simp: file_inv_def Let_def split: if_splits)
  qed (use loop_task assms(3) in \<open>auto simp: file_inv_def Let_def\<close>)
next
  case (queue_task t ts)
  show ?thesis
  proof (cases "fc_stage cn")
    case Received
    then have inv: "sending (t # ts)" "fc_alive cn" "sh_responseBuilder (fc_handler cn)"
        "fc_job cn \<noteq> No_job" "fc_loop cn = []"
      using assms(3) queue_task(2) by (auto simp: file_inv_def Let_def split: if_splits)
    obtain cs where "t = Calls cs"
      using inv(1) by (rule sending_calls)
    with queue_task inv assms(3) Received show ?thesis
      by (auto simp: file_inv_def Let_def all_calls_def)
  qed (use queue_task assms(3) in \<open>auto simp: file_inv_def Let_def\<close>)
next
  case (job r)
  have received: "fc_stage cn = Received"
    using job(2) assms(3) by (cases "fc_stage cn") (auto simp: file_inv_def Let_def)
  then have inv: "fc_alive cn" "fc_loop cn = []" "sending (fc_queue cn)" "job_ready (fc_handler cn)"
      "job_inv P B (fc_handler cn) (fc_job cn) (all_calls cn)"
    using assms(3) job(2) inv_job_ready [OF assms(3)] by (auto simp: file_inv_def Let_def split: if_splits)
  obtain pt h where h: "r = ok (pt, h)" "pt \<noteq> No_job" "job_ready (h\<lparr>sh_posted := []\<rparr>)" "sending (sh_posted h)"
      "job_inv P B h pt (all_calls cn @ concat (map calls_of (sh_posted h)))"
    using job_turn_inv [OF assms(2) inv(4,5) job(2)] by blast
  then have "cn' = after_turn cn pt h"
    using job(1) inv(1) by (simp add: use_handler_def split: if_splits)
  then show ?thesis
    using h(2-5) inv received by (simp add: file_inv_def after_turn_def Let_def all_calls_def job_ready_def)
qed simp

text \<open>The file a connection is about stays the same.\<close>

definition about_file :: "fs_lib \<Rightarrow> path \<Rightarrow> size_t \<Rightarrow> string \<Rightarrow> file_conn \<Rightarrow> bool" where
  "about_file P base n raw_path cn \<longleftrightarrow> fh_readBufferSize (fc_handler cn) = n \<and>
     (if fc_stage cn = Await_request then fh_path (fc_handler cn) = base \<and> fh_rawPath (fc_handler cn) = raw_path
      else fh_path (fc_handler cn) = fs_append P base (sanitizePath P raw_path))"

lemma send_keeps_file:
  "sendResponseHeaders B (h :: file_handler) r = ok h' \<Longrightarrow>
     fh_path h' = fh_path h \<and> fh_readBufferSize h' = fh_readBufferSize h"
  "sendBody B h data = ok h' \<Longrightarrow> fh_path h' = fh_path h \<and> fh_readBufferSize h' = fh_readBufferSize h"
  "sendEOF h = ok h' \<Longrightarrow> fh_path h' = fh_path h \<and> fh_readBufferSize h' = fh_readBufferSize h"
  by (auto simp: sendResponseHeaders_def sendBody_def sendEOF_def runInEventBaseThread_def bind_eq_Inr
      noexcept_Inr split: option.splits if_splits)

lemma job_turn_keeps_file:
  "job_turn P B pt h = Some (ok (pt', h')) \<Longrightarrow> fh_path h' = fh_path h \<and> fh_readBufferSize h' = fh_readBufferSize h"
  by (cases pt) (auto simp: Let_def bind_eq_Inr split_beta dest: send_keeps_file split: if_splits)

lemma run_task_keeps: "run_task cn t = ok cn' \<Longrightarrow> fc_handler cn' = fc_handler cn \<and> fc_stage cn' = fc_stage cn"
  by (cases t) (auto split: if_splits)

lemma about_file_step:
  assumes "unescape_law F" and "iobuf_law B" and "file_inv P B cn" and "about_file P base n raw_path cn"
    and "file_step F B P T current m False cn (ok cn')"
  shows "about_file P base n raw_path cn'"
  using assms(5)
proof (cases rule: file_step.cases)
  case request
  then show ?thesis
    using assms(3,4) file_onRequest [OF assms(1), of "fc_handler cn" B P T current m]
    by (auto simp: about_file_def file_inv_def use_handler_def after_callback_def Let_def)
next
  case (body buf)
  then show ?thesis
    using assms(3,4) by (auto simp: about_file_def file_inv_def use_handler_def after_callback_def file_onBody_def Let_def)
next
  case eom
  from inv_eom [OF assms(3) eom(2) eom(1) [symmetric]] obtain h job where
    h: "can_answer (fc_handler cn)" "file_onEOM P B (fc_handler cn) = ok (h, job)"
      "cn' = after_callback (cn\<lparr>fc_job := if job then Queued else No_job\<rparr>) Received h" .
  show ?thesis
    using file_onEOM_posts [OF assms(2) h(1,2)] assms(4) eom(2) h(3)
    by (cases job) (auto simp: about_file_def after_callback_def)
next
  case complete
  then show ?thesis
    using assms(3,4) post_delete(1) [of "fc_handler cn" P T]
    by (auto simp: about_file_def file_inv_def use_handler_def after_callback_def Let_def)
next
  case (loop_task t ts)
  then show ?thesis
    using assms(4) run_task_keeps [OF loop_task(1) [symmetric]] by (simp add: about_file_def)
next
  case (queue_task t ts)
  then show ?thesis
    using assms(4) run_task_keeps [OF queue_task(1) [symmetric]] by (simp add: about_file_def)
next
  case (job r)
  then obtain pt h where "r = ok (pt, h)" "cn' = after_turn cn pt h"
    by (cases r) (auto simp: use_handler_def split: if_splits)
  moreover have "fc_stage cn = Received"
    using job(2) assms(3) by (cases "fc_stage cn") (auto simp: file_inv_def Let_def)
  ultimately show ?thesis
    using job_turn_keeps_file [of P B "fc_job cn" "fc_handler cn" pt h] job(2) assms(4)
    by (simp add: about_file_def after_turn_def)
qed simp

lemma file_reachable_inv:
  assumes "unescape_law F" and "iobuf_law B" and "new_file_conn base n evb raw_path = ok cn0"
    and "file_reachable F B P T current m False cn0 cn"
  shows "file_inv P B cn \<and> about_file P base n raw_path cn"
  using assms(4)
proof (induction rule: file_reachable.induct)
  case start
  then show ?case
    using assms(3) by (auto simp: new_file_conn_def StreamingFileHandler_def StreamingHTTPHandler_def setRequestArgs_def
        file_inv_def about_file_def stream_handler.defs file_handler.defs Let_def)
next
  case (step cn cn')
  then show ?case
    using file_inv_step [OF assms(1,2)] about_file_step [OF assms(1,2)] by blast
qed

lemma eom_fault:
  assumes "iobuf_law B" and "can_answer h" and "file_onEOM P B h = Inl f"
  shows "\<exists>e. fs_is_regular_file P (fh_path h) = Inl e"
proof (rule ccontr)
  assume "\<nexists>e. fs_is_regular_file P (fh_path h) = Inl e"
  then obtain regular where regular: "fs_is_regular_file P (fh_path h) = ok regular"
    by (cases "fs_is_regular_file P (fh_path h)") auto
  obtain h' where "bind (sendResponseHeaders B h (HTTPResponse_status B (if regular then 304 else 404))) sendEOF = ok h'"
    using answered [OF assms(1,2)] by metis
  then have "file_onEOM P B h = (if regular \<and> \<not> unmodified P h then ok (h, True) else ok (h', False))"
    using file_onEOM_cases [OF regular, of B] by simp
  with assms(3) show False by (simp split: if_splits)
qed

lemma file_step_fault:
  assumes "unescape_law F" and "iobuf_law B" and "file_inv P B cn"
    and "file_step F B P T current m False cn (Inl f)"
  shows "fc_stage cn = Receiving \<and> (\<exists>e. fs_is_regular_file P (fh_path (fc_handler cn)) = Inl e)"
  using assms(4)
proof (cases rule: file_step.cases)
  case request
  then show ?thesis
    using assms(3) file_onRequest [OF assms(1), of "fc_handler cn" B P T current m]
    by (auto simp: file_inv_def use_handler_def Let_def)
next
  case eom
  have can: "can_answer (fc_handler cn)" "fc_alive cn"
    using assms(3) eom(2) by (simp_all add: file_inv_def Let_def)
  with eom_fault [OF assms(2) this(1), of P] eom show ?thesis
    by (cases "file_onEOM P B (fc_handler cn)") (auto simp: use_handler_def)
next
  case complete
  then show ?thesis
    using assms(3) post_delete(1) [of "fc_handler cn" P T] by (simp add: use_handler_def file_inv_def Let_def)
next
  case (loop_task t ts)
  then show ?thesis
    using assms(3) by (cases "fc_stage cn"; cases t) (auto simp: file_inv_def Let_def split: if_splits)
next
  case (queue_task t ts)
  then show ?thesis
    using assms(3) by (cases "fc_stage cn"; cases t) (auto simp: file_inv_def Let_def split: if_splits)
next
  case (job r)
  have received: "fc_stage cn = Received"
    using job(2) assms(3) by (cases "fc_stage cn") (auto simp: file_inv_def Let_def)
  then have "fc_alive cn" "job_ready (fc_handler cn)" "job_inv P B (fc_handler cn) (fc_job cn) (all_calls cn)"
    using assms(3) inv_job_ready [OF assms(3)] by (auto simp: file_inv_def Let_def)
  with job_turn_inv [OF assms(2) this(2,3) job(2)] job(1) show ?thesis
    by (auto simp: use_handler_def split: if_splits)
qed (use assms(3) in \<open>auto simp: file_inv_def use_handler_def Let_def\<close>)

section \<open>A connection can always be completed\<close>

text \<open>The file can be read to its end, or not be opened at all.\<close>

definition file_readable :: "fs_lib \<Rightarrow> file_handler \<Rightarrow> bool" where
  "file_readable P h \<longleftrightarrow> fh_readBufferSize h \<noteq> 0 \<and>
     (\<exists>content. fs_open P (fh_path h) = opened content \<or> \<not> good (fs_open P (fh_path h)))"

fun job_left :: "fs_lib \<Rightarrow> file_handler \<Rightarrow> job \<Rightarrow> nat" where
  "job_left P h Queued = length (in_rest (fs_open P (fh_path h))) + 4"
| "job_left P h (Reading fin) = (if in_eof fin then 2 else length (in_rest fin) + 3)"
| "job_left P h Closing = 1"
| "job_left P h _ = 0"

lemma opened_rest [simp]: "in_rest (opened content) = content"
  by (simp add: opened_def)

lemma reading_opened:
  assumes "file_readable P h" and "job_inv P B h (Reading fin) T" and "\<not> in_eof fin"
  shows "\<exists>rest. fin = opened rest"
  using assms by (auto simp: file_readable_def sent_so_far_def Let_def)

lemma job_turn_decreases:
  assumes "file_readable P h" and "job_inv P B h pt T" and "job_turn P B pt h = Some (ok (pt', h'))"
  shows "job_left P h pt' < job_left P h pt"
proof (cases pt)
  case (Reading fin)
  show ?thesis
  proof (cases "in_eof fin")
    case False
    obtain rest where rest: "fin = opened rest"
      using reading_opened [OF assms(1) assms(2) [unfolded Reading] False] by blast
    have "0 < unat (fh_readBufferSize h)"
      using assms(1) by (simp add: file_readable_def unat_gt_0)
    moreover have "pt' = Reading (snd (stream_read (opened rest) (unat (fh_readBufferSize h))))"
      using assms(3) Reading rest by (auto simp: bind_eq_Inr Let_def split_beta)
    ultimately show ?thesis
      using Reading rest by (auto simp: opened_read)
  qed (use assms(3) Reading in simp)
qed (use assms(3) in \<open>auto simp: Let_def bind_eq_Inr split: if_splits\<close>)

lemma file_reachable_trans:
  "file_reachable F B P T current m errors b c \<Longrightarrow> file_reachable F B P T current m errors a b \<Longrightarrow>
   file_reachable F B P T current m errors a c"
  by (induction rule: file_reachable.induct) (auto intro: file_reachable.step)

lemmas file_reaches_one = file_reachable.step [OF file_reachable.start]

text \<open>The job comes to its end.\<close>

lemma job_completes:
  assumes "unescape_law F" and "iobuf_law B"
  shows "file_inv P B cn \<Longrightarrow> fc_stage cn = Received \<Longrightarrow> file_readable P (fc_handler cn) \<Longrightarrow>
    \<exists>cn'. file_reachable F B P T current m False cn cn' \<and> file_inv P B cn' \<and> fc_stage cn' = Received \<and>
      fc_job cn' \<in> {No_job, Job_done}"
proof (induction "job_left P (fc_handler cn) (fc_job cn)" arbitrary: cn rule: less_induct)
  case less
  show ?case
  proof (cases "job_turn P B (fc_job cn) (fc_handler cn)")
    case None
    then have "fc_job cn \<in> {No_job, Job_done}"
      by (cases "fc_job cn") (auto simp: Let_def)
    with less.prems show ?thesis
      by (blast intro: file_reachable.start)
  next
    case (Some r)
    have inv: "fc_alive cn" "job_inv P B (fc_handler cn) (fc_job cn) (all_calls cn)"
      using less.prems(1,2) by (simp_all add: file_inv_def Let_def)
    obtain pt h where r: "r = ok (pt, h)"
      using job_turn_inv [OF assms(2) inv_job_ready [OF less.prems(1,2)] inv(2) Some] by blast
    let ?cn = "after_turn cn pt h"
    have step: "file_step F B P T current m False cn (ok ?cn)"
      using file_step.job [OF Some, of F T current m False] inv(1)
      by (simp add: r use_handler_def split: if_splits)
    have same: "fh_path h = fh_path (fc_handler cn)" "fh_readBufferSize h = fh_readBufferSize (fc_handler cn)"
      using job_turn_keeps_file [of P B "fc_job cn" "fc_handler cn" pt h] Some r by simp_all
    then have "job_left P h pt = job_left P (fc_handler cn) pt"
      by (cases pt) simp_all
    moreover have "job_left P (h\<lparr>sh_posted := []\<rparr>) pt = job_left P h pt"
      by (cases pt) simp_all
    ultimately have "job_left P (fc_handler ?cn) (fc_job ?cn) < job_left P (fc_handler cn) (fc_job cn)"
      using job_turn_decreases [OF less.prems(3) inv(2), of pt h] Some r by (simp add: after_turn_def)
    moreover have "file_inv P B ?cn" "fc_stage ?cn = Received" "file_readable P (fc_handler ?cn)"
      using file_inv_step [OF assms less.prems(1) step] less.prems(2,3) same
      by (simp_all add: after_turn_def file_readable_def)
    ultimately show ?thesis
      using less.hyps [of ?cn] file_reachable_trans [OF _ file_reaches_one [OF step]] by blast
  qed
qed

text \<open>Then the event base works off its tasks.\<close>

lemma tasks_complete:
  assumes "unescape_law F" and "iobuf_law B"
  shows "file_inv P B cn \<Longrightarrow> fc_stage cn = Received \<Longrightarrow> fc_job cn \<in> {No_job, Job_done} \<Longrightarrow>
    \<exists>cn'. file_reachable F B P T current m False cn cn' \<and> file_inv P B cn' \<and> fc_stage cn' = Received \<and>
      fc_job cn' \<in> {No_job, Job_done} \<and> fc_loop cn' = [] \<and> fc_queue cn' = []"
proof (induction "length (fc_loop cn) + length (fc_queue cn)" arbitrary: cn rule: less_induct)
  case less
  have inv: "fc_alive cn" "sh_responseBuilder (fc_handler cn)" "sending (fc_loop cn)" "sending (fc_queue cn)"
    using less.prems(1,2) by (simp_all add: file_inv_def Let_def)
  have next_state: ?case if "file_step F B P T current m False cn (ok cn1)" "fc_job cn1 = fc_job cn" "fc_stage cn1 = fc_stage cn"
    "length (fc_loop cn1) + length (fc_queue cn1) < length (fc_loop cn) + length (fc_queue cn)" for cn1
    using less.hyps [OF that(4)] file_inv_step [OF assms less.prems(1) that(1)] less.prems(2,3) that(2,3)
      file_reachable_trans [OF _ file_reaches_one [OF that(1)]] by metis
  show ?case
  proof (cases "fc_loop cn")
    case (Cons t ts)
    then obtain cs where "t = Calls cs"
      using inv(3) sending_calls [of t ts] by metis
    with file_step.loop_task [OF Cons, of F B P T current m False] inv(1,2) Cons show ?thesis
      by (intro next_state [of "cn\<lparr>fc_loop := ts, fc_wire := fc_wire cn @ cs\<rparr>"]) simp_all
  next
    case Nil
    show ?thesis
    proof (cases "fc_queue cn")
      case (Cons t ts)
      then obtain cs where "t = Calls cs"
        using inv(4) sending_calls [of t ts] by metis
      with file_step.queue_task [OF Cons, of F B P T current m False] inv(1,2) Cons show ?thesis
        by (intro next_state [of "cn\<lparr>fc_queue := ts, fc_wire := fc_wire cn @ cs\<rparr>"]) simp_all
    next
      case queue: Nil
      with Nil less.prems show ?thesis
        by (blast intro: file_reachable.start)
    qed
  qed
qed

lemma last_steps:
  assumes "file_inv P B cn" and "fc_stage cn = Received" and "fc_job cn \<in> {No_job, Job_done}"
    and "fc_loop cn = []" and "fc_queue cn = []"
  shows "\<exists>cn'. file_reachable F B P T current m False cn cn' \<and> fc_stage cn' = Closed \<and> \<not> fc_alive cn'"
proof -
  let ?cn = "after_callback cn Closed ((fc_handler cn)\<lparr>sh_posted := [Delete_this]\<rparr>)"
  have "builder_run Fresh (fc_wire cn) = Some Finished" "fc_alive cn" "sh_evb (fc_handler cn) \<noteq> None"
      "sh_posted (fc_handler cn) = []"
    using assms by (auto simp: file_inv_def Let_def all_calls_def)
  with file_step.complete [OF assms(2), of F B P T current m False] post_delete(1) [of "fc_handler cn" P T]
  have "file_step F B P T current m False cn (ok ?cn)"
    by (simp add: use_handler_def)
  moreover have "file_step F B P T current m False ?cn (ok (?cn\<lparr>fc_loop := [], fc_alive := False\<rparr>))"
    using file_step.loop_task [of ?cn Delete_this "[]" F B P T current m False] assms(4) \<open>fc_alive cn\<close>
    by (simp add: after_callback_def)
  ultimately have "file_reachable F B P T current m False cn (?cn\<lparr>fc_loop := [], fc_alive := False\<rparr>)"
    by (meson file_reachable.intros)
  then show ?thesis
    by (intro exI [of _ "?cn\<lparr>fc_loop := [], fc_alive := False\<rparr>"]) (simp add: after_callback_def)
qed

lemma request_step:
  assumes "unescape_law F" and "file_inv P B cn" and "fc_stage cn = Await_request"
  shows "\<exists>cn'. file_step F B P T current m errors cn (ok cn') \<and> fc_stage cn' = Receiving"
proof -
  have "fc_alive cn" "sh_downstream (fc_handler cn)" "\<not> sh_sentHeaders (fc_handler cn)" "sh_posted (fc_handler cn) = []"
    using assms(2,3) by (simp_all add: file_inv_def Let_def)
  with file_onRequest [OF assms(1), of "fc_handler cn" B P T current m] obtain h where
    "use_handler cn (bind (streaming_onRequest F B (file_virtuals P T) current (fc_handler cn) (Some m))
       (\<lambda>h. ok (after_callback cn Receiving h))) = ok (after_callback cn Receiving h)"
    by (auto simp: use_handler_def)
  with file_step.request [OF assms(3), of F B P T current m errors] show ?thesis
    by (intro exI [of _ "after_callback cn Receiving h"]) (simp add: after_callback_def)
qed

lemma eom_step:
  assumes "iobuf_law B" and "file_inv P B cn" and "fc_stage cn = Receiving"
    and "fs_is_regular_file P (fh_path (fc_handler cn)) = ok regular"
  shows "\<exists>cn'. file_step F B P T current m errors cn (ok cn') \<and> fc_stage cn' = Received \<and>
    (regular \<and> \<not> unmodified P (fc_handler cn) \<longrightarrow> fc_job cn' = Queued)"
proof -
  have can: "fc_alive cn" "can_answer (fc_handler cn)"
    using assms(2,3) by (simp_all add: file_inv_def Let_def)
  let ?r = "HTTPResponse_status B (if regular then 304 else 404)"
  obtain h where h: "bind (sendResponseHeaders B (fc_handler cn) ?r) sendEOF = ok h"
    using answered [OF assms(1) can(2)] by metis
  define r where "r = (if regular \<and> \<not> unmodified P (fc_handler cn) then (fc_handler cn, True) else (h, False))"
  let ?cn = "after_callback (cn\<lparr>fc_job := if snd r then Queued else No_job\<rparr>) Received (fst r)"
  have "file_onEOM P B (fc_handler cn) = ok r"
    using file_onEOM_cases [OF assms(4), of B] h by (simp add: r_def)
  then have "file_step F B P T current m errors cn (ok ?cn)"
    using file_step.eom [OF assms(3), of F B P T current m errors] can(1)
    by (simp add: use_handler_def split_beta)
  then show ?thesis
    by (intro exI [of _ ?cn]) (simp add: after_callback_def r_def)
qed

lemma file_completes:
  assumes "unescape_law F" and "iobuf_law B" and "new_file_conn base n evb raw_path = ok cn0"
    and "file_reachable F B P T current m False cn0 cn" and "q = fs_append P base (sanitizePath P raw_path)"
    and "fs_is_regular_file P q = ok regular" and "n \<noteq> 0"
    and "fs_open P q = opened content \<or> \<not> good (fs_open P q)"
  shows "\<exists>cn'. file_reachable F B P T current m False cn cn' \<and> fc_stage cn' = Closed \<and> \<not> fc_alive cn'"
proof -
  let ?reach = "file_reachable F B P T current m False"
  have known: "file_inv P B c \<and> about_file P base n raw_path c" if "?reach cn0 c" for c
    using file_reachable_inv [OF assms(1-3) that] .
  have received: "\<exists>cn'. ?reach c cn' \<and> fc_stage cn' = Closed \<and> \<not> fc_alive cn'"
    if c: "?reach cn0 c" "fc_stage c = Received" for c
  proof -
    have "file_readable P (fc_handler c)"
      using known [OF c(1)] c(2) assms(5,7,8) by (auto simp: file_readable_def about_file_def)
    with job_completes [OF assms(1,2), where cn = c and P = P and T = T and current = current and m = m] known [OF c(1)] c(2) obtain c1 where
      c1: "?reach c c1" "file_inv P B c1" "fc_stage c1 = Received" "fc_job c1 \<in> {No_job, Job_done}"
      by blast
    with tasks_complete [OF assms(1,2) c1(2-4), where T = T and current = current and m = m] obtain c2 where
      c2: "?reach c1 c2" "file_inv P B c2" "fc_stage c2 = Received" "fc_job c2 \<in> {No_job, Job_done}"
        "fc_loop c2 = []" "fc_queue c2 = []"
      by blast
    from last_steps [OF c2(2-6), of F T current m] show ?thesis
      using c1(1) c2(1) file_reachable_trans by metis
  qed
  have receiving: "\<exists>cn'. ?reach c cn' \<and> fc_stage cn' = Closed \<and> \<not> fc_alive cn'"
    if c: "?reach cn0 c" "fc_stage c = Receiving" for c
  proof -
    have "fs_is_regular_file P (fh_path (fc_handler c)) = ok regular"
      using known [OF c(1)] c(2) assms(5,6) by (simp add: about_file_def)
    with eom_step [OF assms(2) _ c(2), of P regular F T current m False] known [OF c(1)]
    obtain c1 where c1: "file_step F B P T current m False c (ok c1)" "fc_stage c1 = Received" by blast
    with received [of c1] c(1) show ?thesis
      using file_reachable.step file_reachable_trans file_reaches_one by metis
  qed
  show ?thesis
  proof (cases "fc_stage cn")
    case Await_request
    with request_step [OF assms(1), of P B cn T current m False] known [OF assms(4)]
    obtain c1 where c1: "file_step F B P T current m False cn (ok c1)" "fc_stage c1 = Receiving" by blast
    with receiving [of c1] assms(4) show ?thesis
      using file_reachable.step file_reachable_trans file_reaches_one by metis
  next
    case Closed
    show ?thesis
    proof (cases "fc_alive cn")
      case True
      with known [OF assms(4)] Closed have "fc_loop cn = [Delete_this]"
        by (simp add: file_inv_def Let_def)
      with file_step.loop_task [of cn Delete_this "[]" F B P T current m False] True
      have "?reach cn (cn\<lparr>fc_loop := [], fc_alive := False\<rparr>)"
        by (intro file_reaches_one) simp
      with Closed show ?thesis
        by (intro exI [of _ "cn\<lparr>fc_loop := [], fc_alive := False\<rparr>"]) simp
    qed (use Closed file_reachable.start in blast)
  qed (use assms(4) received receiving in blast)+
qed

lemma file_safe:
  assumes "unescape_law F" and "iobuf_law B" and "new_file_conn base n evb raw_path = ok cn0"
    and "file_reachable F B P T current m False cn0 cn"
  shows "(\<forall>f. file_step F B P T current m False cn (Inl f) \<longrightarrow> fc_stage cn = Receiving \<and>
      (\<exists>e. fs_is_regular_file P (fs_append P base (sanitizePath P raw_path)) = Inl e)) \<and>
    (\<not> fc_alive cn \<longrightarrow> fc_job cn \<in> {No_job, Job_done} \<and> fc_loop cn = [] \<and> fc_queue cn = [] \<and>
      builder_run Fresh (fc_wire cn) = Some Finished)"
proof -
  have inv: "file_inv P B cn" "about_file P base n raw_path cn"
    using file_reachable_inv [OF assms] by blast+
  have "\<not> fc_alive cn \<Longrightarrow> fc_stage cn = Closed"
    using inv(1) by (cases "fc_stage cn") (simp_all add: file_inv_def Let_def)
  then show ?thesis
    using file_step_fault [OF assms(1,2) inv(1)] inv
    by (auto simp: about_file_def file_inv_def Let_def)
qed

lemma file_serves:
  assumes "unescape_law F" and "iobuf_law B" and "new_file_conn base n evb raw_path = ok cn0"
    and "file_reachable F B P T current m False cn0 cn"
    and "fs_open P (fs_append P base (sanitizePath P raw_path)) = opened content" and "n \<noteq> 0"
  shows "(\<exists>rest. transmitted B (unat n) content = body_bytes (fc_wire cn) @ rest) \<and>
    (fc_stage cn = Closed \<longrightarrow> builder_run Fresh (fc_wire cn) = Some Finished \<and>
      (if fc_job cn = No_job then status_sent (fc_wire cn) \<in> {Some 304, Some 404} \<and> body_bytes (fc_wire cn) = []
       else status_sent (fc_wire cn) = Some 200 \<and> body_bytes (fc_wire cn) = transmitted B (unat n) content))"
proof -
  have inv: "file_inv P B cn" "about_file P base n raw_path cn"
    using file_reachable_inv [OF assms(1-4)] by blast+
  note sends = transmitted_facts(1) [OF assms(2,6)]
  have sent: "\<exists>rest. body_bytes T @ rest = transmitted B (unat n) content"
    if "job_inv P B (fc_handler cn) pt T" "fc_stage cn \<noteq> Await_request" for pt T
    using that inv(2) assms(5,6)
    by (cases pt) (auto simp: sent_so_far_def about_file_def sends opened_inj Let_def split: if_splits)
  show ?thesis
  proof (cases "fc_stage cn")
    case Received
    then obtain rest where "body_bytes (all_calls cn) @ rest = transmitted B (unat n) content"
      using inv(1) sent by (force simp: file_inv_def Let_def)
    then have "\<exists>more. transmitted B (unat n) content = body_bytes (fc_wire cn) @ more"
      by (metis all_calls_def append.assoc body_bytes_append)
    with Received show ?thesis by simp
  next
    case Closed
    have known: "fh_readBufferSize (fc_handler cn) = n" "fs_open P (fh_path (fc_handler cn)) = opened content"
      using inv(2) Closed assms(5) by (simp_all add: about_file_def)
    have job: "fc_job cn \<in> {No_job, Job_done}" "job_inv P B (fc_handler cn) (fc_job cn) (fc_wire cn)"
      using inv(1) Closed by (simp_all add: file_inv_def Let_def)
    show ?thesis
      using job sent [OF job(2)] Closed assms(6)
      by (auto simp: sent_so_far_def known sends opened_inj Let_def)
  qed (use inv(1) in \<open>auto simp: file_inv_def Let_def\<close>)
qed

section \<open>Properties\<close>

text \<open>
  C5. A request to the file handler is safe without client errors: in whatever order the
  callbacks of proxygen, the tasks of the event base and the turns of the read job come, none
  touches a deleted handler, breaks a check or uses a null pointer; the only step that can end
  the process is \<open>onEOM\<close> when the file's status cannot be read. And when the handler is
  deleted, the job is over, no task is left and the client has got the whole response.
\<close>

theorem file_connection_safe:
  assumes "unescape_law F" and "iobuf_law B" and "new_file_conn base n evb raw_path = ok cn0"
    and "file_reachable F B P T current m False cn0 cn"
  shows "(\<forall>f. file_step F B P T current m False cn (Inl f) \<longrightarrow> fc_stage cn = Receiving \<and>
      (\<exists>e. fs_is_regular_file P (fs_append P base (sanitizePath P raw_path)) = Inl e)) \<and>
    (\<not> fc_alive cn \<longrightarrow> fc_job cn \<in> {No_job, Job_done} \<and> fc_loop cn = [] \<and> fc_queue cn = [] \<and>
      builder_run Fresh (fc_wire cn) = Some Finished)"
  using assms by (rule file_safe)

text \<open>
  C6. What the client gets of a file, in every interleaving: without client errors, for a file that
  can be read and a non-zero buffer size, the body bytes on the wire are at all times a prefix of
  what is transmitted for the file, which is its blocks in order, each with the bytes its buffer
  has room for beyond the size; when the connection is closed the client has one well-formed
  response, which is 304 or 404 without a body, or 200 with all of that. It is the file itself
  exactly if a new buffer has no more room than asked for.
\<close>

theorem file_connection_serves:
  assumes "unescape_law F" and "iobuf_law B" and "new_file_conn base n evb raw_path = ok cn0"
    and "file_reachable F B P T current m False cn0 cn"
    and "fs_open P (fs_append P base (sanitizePath P raw_path)) = opened content" and "n \<noteq> 0"
  shows "(\<exists>rest. transmitted B (unat n) content = body_bytes (fc_wire cn) @ rest) \<and>
    (fc_stage cn = Closed \<longrightarrow> builder_run Fresh (fc_wire cn) = Some Finished \<and>
      (if fc_job cn = No_job then status_sent (fc_wire cn) \<in> {Some 304, Some 404} \<and> body_bytes (fc_wire cn) = []
       else status_sent (fc_wire cn) = Some 200 \<and> body_bytes (fc_wire cn) = transmitted B (unat n) content)) \<and>
    (transmitted B (unat n) content = content \<longleftrightarrow> length (io_tailroom B (unat n)) = unat n)"
  using file_serves [OF assms] transmitted_facts(2) [OF assms(2,6)] by blast

text \<open>
  A request to the file handler can always be completed: without client errors, from every
  state it can reach, if the file's status can be read and the file can be read to its end or
  not be opened at all, some further turns close the connection and delete the handler.
\<close>

theorem file_connection_completes:
  assumes "unescape_law F" and "iobuf_law B" and "new_file_conn base n evb raw_path = ok cn0"
    and "file_reachable F B P T current m False cn0 cn" and "q = fs_append P base (sanitizePath P raw_path)"
    and "fs_is_regular_file P q = ok regular" and "n \<noteq> 0"
    and "fs_open P q = opened content \<or> \<not> good (fs_open P q)"
  shows "\<exists>cn'. file_reachable F B P T current m False cn cn' \<and> fc_stage cn' = Closed \<and> \<not> fc_alive cn'"
  using assms by (rule file_completes)

section \<open>Witnesses\<close>

definition ref_file_conn :: file_conn where
  "ref_file_conn = \<lparr>fc_handler = \<lparr>sh_downstream = True, sh_evb = None, sh_responseBuilder = False,
     sh_sentHeaders = False, sh_posted = [], fh_path = ''/srv'', fh_ifModifiedSince = 0,
     fh_readBufferSize = 4, fh_rawPath = ''a''\<rparr>, fc_alive = True, fc_stage = Await_request,
     fc_job = No_job, fc_loop = [], fc_queue = [], fc_wire = []\<rparr>"

lemma ref_file_conn_new: "new_file_conn ''/srv'' 4 None ''a'' = ok ref_file_conn"
  by (simp add: new_file_conn_def ref_file_conn_def StreamingFileHandler_def StreamingHTTPHandler_def setRequestArgs_def
      stream_handler.defs file_handler.defs)

abbreviation ref_file_reachable :: "file_conn \<Rightarrow> bool" where
  "ref_file_reachable \<equiv> file_reachable ref_folly ref_iobuf ref_fs ref_time 7 (plain_message ''/a'') False ref_file_conn"

lemma ref_file_closed:
  obtains cn where "ref_file_reachable cn" "fc_stage cn = Closed" "\<not> fc_alive cn"
  using file_completes [OF ref_folly_laws(1) ref_iobuf_law ref_file_conn_new file_reachable.start refl,
      where P = ref_fs and regular = True and content = "''hello, world''" and T = ref_time and current = 7
        and m = "plain_message ''/a''"] that
  by auto

lemma file_connection_safe_witness:
  "\<exists>cn. ref_file_reachable cn \<and> \<not> fc_alive cn \<and> fc_job cn \<in> {No_job, Job_done} \<and> fc_loop cn = [] \<and>
    fc_queue cn = [] \<and> builder_run Fresh (fc_wire cn) = Some Finished"
proof -
  obtain cn where cn: "ref_file_reachable cn" "fc_stage cn = Closed" "\<not> fc_alive cn"
    by (rule ref_file_closed)
  from file_connection_safe [OF ref_folly_laws(1) ref_iobuf_law ref_file_conn_new cn(1)] cn show ?thesis
    by blast
qed

lemma file_connection_serves_witness:
  "\<exists>cn rest. ref_file_reachable cn \<and> ''hello, world'' = body_bytes (fc_wire cn) @ rest \<and> fc_stage cn = Closed \<and>
    builder_run Fresh (fc_wire cn) = Some Finished \<and>
    (if fc_job cn = No_job then status_sent (fc_wire cn) \<in> {Some 304, Some 404} \<and> body_bytes (fc_wire cn) = []
     else status_sent (fc_wire cn) = Some 200 \<and> body_bytes (fc_wire cn) = ''hello, world'')"
proof -
  obtain cn where cn: "ref_file_reachable cn" "fc_stage cn = Closed" "\<not> fc_alive cn"
    by (rule ref_file_closed)
  have size: "(4 :: size_t) \<noteq> 0" "0 < unat (4 :: size_t)" by simp_all
  from file_connection_serves [OF ref_folly_laws(1) ref_iobuf_law ref_file_conn_new cn(1) ref_fs_simps(1) size(1)]
  have served: "(\<exists>rest. ''hello, world'' = body_bytes (fc_wire cn) @ rest) \<and>
    (fc_stage cn = Closed \<longrightarrow> builder_run Fresh (fc_wire cn) = Some Finished \<and>
      (if fc_job cn = No_job then status_sent (fc_wire cn) \<in> {Some 304, Some 404} \<and> body_bytes (fc_wire cn) = []
       else status_sent (fc_wire cn) = Some 200 \<and> body_bytes (fc_wire cn) = ''hello, world''))"
    unfolding ref_transmitted [OF size(2)] by blast
  then obtain rest where "''hello, world'' = body_bytes (fc_wire cn) @ rest" by blast
  with cn(1,2) mp [OF conjunct2 [OF served] cn(2)] show ?thesis
    by blast
qed

lemma file_connection_completes_witness:
  "\<exists>cn. ref_file_reachable cn \<and> fc_stage cn = Closed \<and> \<not> fc_alive cn"
  by (rule file_connection_completes [OF ref_folly_laws(1) ref_iobuf_law ref_file_conn_new file_reachable.start refl,
        where regular = True and content = "''hello, world''"]) simp_all

end
