(* ===== verification/File_Errors.thy ===== *)
theory File_Errors
  imports File_Connection
begin

text \<open>
  Requests to the file handler with client errors: \<open>onError\<close> has the handler deleted, which is
  safe as long as there is no read job, and a use after free while there is one.
\<close>

section \<open>Client errors without a job\<close>

text \<open>
  As long as there is no job, all tasks are posted on the event base's own thread, and the
  deletion comes behind them.
\<close>

definition no_job_inv :: "file_conn \<Rightarrow> bool" where
  "no_job_inv cn \<longleftrightarrow> (let h = fc_handler cn in sh_posted h = [] \<and> fc_queue cn = [] \<and> (case fc_stage cn of
       Await_request \<Rightarrow> fc_alive cn \<and> sh_downstream h \<and> \<not> sh_sentHeaders h \<and> fc_loop cn = []
     | Receiving \<Rightarrow> fc_alive cn \<and> can_answer h \<and> fc_loop cn = []
     | Received \<Rightarrow> fc_alive cn \<and> sh_evb h \<noteq> None \<and> sh_responseBuilder h \<and> sending (fc_loop cn)
     | Closed \<Rightarrow> sh_responseBuilder h \<and>
         (if fc_alive cn then \<exists>ts. fc_loop cn = ts @ [Delete_this] \<and> sending ts else fc_loop cn = [])))"

definition error_inv :: "file_conn \<Rightarrow> bool" where
  "error_inv cn \<longleftrightarrow> (if fc_job cn = No_job then no_job_inv cn else fc_stage cn \<in> {Received, Closed})"

lemma job_stays: "job_turn P B pt h = Some (ok (pt', h')) \<Longrightarrow> pt \<noteq> No_job \<and> pt' \<noteq> No_job"
  by (cases pt) (auto simp: Let_def bind_eq_Inr split_beta split: if_splits)

lemma error_inv_closing:
  assumes "no_job_inv cn" and "fc_stage cn \<in> {Receiving, Received}"
  shows "no_job_inv (after_callback cn Closed ((fc_handler cn)\<lparr>sh_posted := [Delete_this]\<rparr>))"
  using assms by (auto simp: no_job_inv_def after_callback_def can_answer_def Let_def)

lemma error_inv_task:
  assumes "no_job_inv cn" and "fc_loop cn = t # ts"
  shows "\<exists>cn'. run_task (cn\<lparr>fc_loop := ts\<rparr>) t = ok cn' \<and> no_job_inv cn' \<and> fc_job cn' = fc_job cn"
proof (cases "fc_stage cn")
  case Received
  with assms have sending: "sending (t # ts)" by (simp add: no_job_inv_def Let_def)
  then obtain cs where "t = Calls cs" by (rule sending_calls)
  with Received assms show ?thesis
    by (auto simp: no_job_inv_def Let_def)
next
  case Closed
  with assms obtain us where us: "t # ts = us @ [Delete_this]" "sending us" "fc_alive cn"
      "sh_responseBuilder (fc_handler cn)"
    by (auto simp: no_job_inv_def Let_def split: if_splits)
  show ?thesis
  proof (cases us)
    case Nil
    with us assms Closed show ?thesis by (auto simp: no_job_inv_def Let_def)
  next
    case (Cons u vs)
    with us(1,2) have "sending (t # vs)" "ts = vs @ [Delete_this]" by simp_all
    moreover from this(1) obtain cs where "t = Calls cs" by (rule sending_calls)
    ultimately show ?thesis
      using us(3,4) assms Closed by (auto simp: no_job_inv_def Let_def)
  qed
qed (use assms in \<open>auto simp: no_job_inv_def Let_def\<close>)

lemma error_inv_eom:
  assumes "iobuf_law B" and "no_job_inv cn" and "fc_stage cn = Receiving"
    and "file_onEOM P B (fc_handler cn) = ok (h, job)"
  shows "error_inv (after_callback (cn\<lparr>fc_job := if job then Queued else No_job\<rparr>) Received h)"
proof (cases job)
  case True
  then show ?thesis by (simp add: error_inv_def after_callback_def)
next
  case False
  have can: "can_answer (fc_handler cn)" using assms(2,3) by (simp add: no_job_inv_def Let_def)
  with file_onEOM_posts [OF assms(1) can assms(4)] False assms(2,3) show ?thesis
    by (auto simp: error_inv_def no_job_inv_def after_callback_def can_answer_def Let_def)
qed

lemma run_task_job: "run_task cn t = ok cn' \<Longrightarrow> fc_job cn' = fc_job cn"
  by (cases t) (auto split: if_splits)

lemma busy_step:
  "file_step F B P T current m errors cn res \<Longrightarrow> res = ok cn' \<Longrightarrow> fc_job cn \<noteq> No_job \<Longrightarrow>
   fc_stage cn \<in> {Received, Closed} \<Longrightarrow> fc_job cn' \<noteq> No_job \<and> fc_stage cn' \<in> {Received, Closed}"
  by (erule file_step.cases)
     (auto simp: use_handler_def after_callback_def after_turn_def bind_eq_Inr
       dest: run_task_keeps run_task_job job_stays split: if_splits)

lemma error_inv_step:
  assumes "unescape_law F" and "iobuf_law B" and "error_inv cn"
    and "file_step F B P T current m errors cn (ok cn')"
  shows "error_inv cn'"
proof (cases "fc_job cn = No_job")
  case idle: True
  with assms(3) have inv: "no_job_inv cn" by (simp add: error_inv_def)
  from assms(4) show ?thesis
  proof (cases rule: file_step.cases)
    case request
    then show ?thesis
      using inv idle file_onRequest [OF assms(1), of "fc_handler cn" B P T current m]
      by (auto simp: error_inv_def no_job_inv_def use_handler_def after_callback_def can_answer_def Let_def)
  next
    case (body buf)
    then show ?thesis
      using inv idle
      by (auto simp: error_inv_def no_job_inv_def use_handler_def after_callback_def file_onBody_def can_answer_def Let_def)
  next
    case eom
    from eom(1) [symmetric] obtain h job where "file_onEOM P B (fc_handler cn) = ok (h, job)"
        "cn' = after_callback (cn\<lparr>fc_job := if job then Queued else No_job\<rparr>) Received h"
      by (auto simp: use_handler_def bind_eq_Inr split: if_splits)
    with error_inv_eom [OF assms(2) inv eom(2)] show ?thesis by blast
  next
    case complete
    then show ?thesis
      using inv idle error_inv_closing [OF inv] post_delete(1) [of "fc_handler cn" P T]
      by (auto simp: error_inv_def no_job_inv_def use_handler_def after_callback_def Let_def split: if_splits)
  next
    case (error err)
    then show ?thesis
      using inv idle error_inv_closing [OF inv] post_delete(2) [of "fc_handler cn" P T err]
      by (auto simp: error_inv_def no_job_inv_def use_handler_def after_callback_def can_answer_def Let_def split: if_splits)
  next
    case (loop_task t ts)
    with error_inv_task [OF inv loop_task(2)] idle show ?thesis by (auto simp: error_inv_def)
  next
    case (queue_task t ts)
    with inv show ?thesis by (simp add: no_job_inv_def Let_def)
  next
    case (job r)
    with idle show ?thesis by simp
  qed
next
  case busy: False
  with assms(3) have "fc_stage cn \<in> {Received, Closed}" by (simp add: error_inv_def)
  with busy_step [OF assms(4) refl busy] show ?thesis by (simp add: error_inv_def)
qed

lemma error_step_fault:
  assumes "unescape_law F" and "iobuf_law B" and "no_job_inv cn" and "fc_job cn = No_job"
    and "file_step F B P T current m errors cn (Inl f)"
  shows "fc_stage cn = Receiving \<and> (\<exists>e. fs_is_regular_file P (fh_path (fc_handler cn)) = Inl e)"
  using assms(5)
proof (cases rule: file_step.cases)
  case request
  then show ?thesis
    using assms(3) file_onRequest [OF assms(1), of "fc_handler cn" B P T current m]
    by (auto simp: no_job_inv_def use_handler_def Let_def)
next
  case eom
  then have "can_answer (fc_handler cn)" "fc_alive cn"
    using assms(3) by (simp_all add: no_job_inv_def Let_def)
  with eom_fault [OF assms(2) this(1), of P] eom show ?thesis
    by (cases "file_onEOM P B (fc_handler cn)") (auto simp: use_handler_def)
next
  case complete
  then show ?thesis
    using assms(3) post_delete(1) [of "fc_handler cn" P T] by (simp add: use_handler_def no_job_inv_def Let_def)
next
  case (error err)
  then show ?thesis
    using assms(3) post_delete(2) [of "fc_handler cn" P T err]
    by (auto simp: use_handler_def no_job_inv_def can_answer_def Let_def)
next
  case (loop_task t ts)
  with error_inv_task [OF assms(3) loop_task(2)] show ?thesis by auto
next
  case (queue_task t ts)
  with assms(3) show ?thesis by (simp add: no_job_inv_def Let_def)
qed (use assms(3,4) in \<open>auto simp: no_job_inv_def use_handler_def Let_def\<close>)

lemma error_reachable_inv:
  assumes "unescape_law F" and "iobuf_law B" and "new_file_conn base n evb raw_path = ok cn0"
    and "file_reachable F B P T current m errors cn0 cn"
  shows "error_inv cn"
  using assms(4)
proof (induction rule: file_reachable.induct)
  case start
  then show ?case
    using assms(3) by (auto simp: new_file_conn_def StreamingFileHandler_def StreamingHTTPHandler_def setRequestArgs_def
        error_inv_def no_job_inv_def stream_handler.defs file_handler.defs Let_def)
next
  case (step cn cn')
  then show ?case using error_inv_step [OF assms(1,2)] by blast
qed

text \<open>
  C29. A client error while the read job is under way: as long as a turn of the job that uses the
  handler is still to come, or a task it has posted is still waiting, a client error leads
  within three steps to the use of the deleted handler, since the deletion that \<open>onError\<close> posts
  does not wait for the job, nor for the tasks of another thread.
\<close>

theorem file_connection_use_after_free:
  assumes "unescape_law F" and "iobuf_law B" and "new_file_conn base n evb raw_path = ok cn0"
    and "file_reachable F B P T current m False cn0 cn" and "fc_stage cn = Received"
    and "fc_queue cn \<noteq> [] \<or> job_turn P B (fc_job cn) (fc_handler cn) \<noteq> None \<and> job_uses (fc_job cn)"
  shows "\<exists>cn1 cn2. file_step F B P T current m True cn (ok cn1) \<and> fc_stage cn1 = Closed \<and>
    file_step F B P T current m True cn1 (ok cn2) \<and> \<not> fc_alive cn2 \<and>
    file_step F B P T current m True cn2 (Inl (Abort (Undefined_behaviour ''use of a deleted handler'')))"
proof -
  have "file_inv P B cn"
    using file_reachable_inv [OF assms(1-4)] by blast
  with assms(5,6) have inv: "fc_alive cn" "sh_evb (fc_handler cn) \<noteq> None" "sh_posted (fc_handler cn) = []"
      "sending (fc_queue cn)" "fc_loop cn = []"
    by (auto simp: file_inv_def Let_def split: if_splits)
  let ?cn1 = "cn\<lparr>fc_stage := Closed, fc_loop := [Delete_this]\<rparr>"
  let ?cn2 = "cn\<lparr>fc_stage := Closed, fc_alive := False\<rparr>"
  have h: "(fc_handler cn)\<lparr>sh_posted := []\<rparr> = fc_handler cn"
    using inv(3) by (cases "fc_handler cn") simp
  have "file_step F B P T current m True cn (ok ?cn1)"
    using file_step.error [of True cn F B P T current m undefined] assms(5) inv post_delete(2) [of "fc_handler cn" P T]
    by (simp add: use_handler_def after_callback_def h)
  moreover have "file_step F B P T current m True ?cn1 (ok ?cn2)"
    using file_step.loop_task [of ?cn1 Delete_this "[]" F B P T current m True] inv(1,5) by (cases cn) simp
  moreover have "file_step F B P T current m True ?cn2 (Inl (Abort (Undefined_behaviour ''use of a deleted handler'')))"
  proof (cases "fc_queue cn")
    case (Cons t ts)
    then obtain cs where "t = Calls cs"
      using inv(4) sending_calls [of t ts] by metis
    with Cons file_step.queue_task [of ?cn2 t ts F B P T current m True] show ?thesis by simp
  next
    case Nil
    with assms(6) obtain r where r: "job_turn P B (fc_job cn) (fc_handler cn) = Some r" "job_uses (fc_job cn)" by blast
    then show ?thesis
      using file_step.job [of P B ?cn2 r F T current m True] by (simp add: use_handler_def)
  qed
  ultimately show ?thesis
    by (intro exI [of _ ?cn1] exI [of _ ?cn2]) simp
qed

text \<open>
  C30. Client errors are harmless as long as there is no read job: whatever order the callbacks
  of proxygen, client errors among them, and the tasks of the event base come in, no step from
  a state without a job touches a deleted handler, breaks a check or uses a null pointer; only
  \<open>onEOM\<close> can end the process, when the file's status cannot be read. And when the handler is
  deleted, no task is left that would use it.
\<close>

theorem file_error_without_job_safe:
  assumes "unescape_law F" and "iobuf_law B" and "new_file_conn base n evb raw_path = ok cn0"
    and "file_reachable F B P T current m True cn0 cn" and "fc_job cn = No_job"
  shows "(\<forall>f. file_step F B P T current m True cn (Inl f) \<longrightarrow> fc_stage cn = Receiving \<and>
      (\<exists>e. fs_is_regular_file P (fh_path (fc_handler cn)) = Inl e)) \<and>
    (\<not> fc_alive cn \<longrightarrow> fc_loop cn = [] \<and> fc_queue cn = [])"
proof -
  have inv: "no_job_inv cn"
    using error_reachable_inv [OF assms(1-4)] assms(5) by (simp add: error_inv_def)
  then have "\<not> fc_alive cn \<Longrightarrow> fc_loop cn = [] \<and> fc_queue cn = []"
    by (cases "fc_stage cn") (simp_all add: no_job_inv_def Let_def)
  with error_step_fault [OF assms(1,2) inv assms(5)] show ?thesis by blast
qed

section \<open>Witnesses\<close>

lemma ref_file_queued:
  obtains cn where "ref_file_reachable cn" "fc_stage cn = Received" "fc_job cn = Queued"
proof -
  let ?inv = "\<lambda>cn. file_inv ref_fs ref_iobuf cn"
  have known: "?inv cn" if "ref_file_reachable cn" for cn
    using file_reachable_inv [OF ref_folly_laws(1) ref_iobuf_law ref_file_conn_new that] by blast
  obtain h where h: "streaming_onRequest ref_folly ref_iobuf (file_virtuals ref_fs ref_time) 7
      (fc_handler ref_file_conn) (Some (plain_message ''/a'')) = ok h" "fh_ifModifiedSince h = 0"
    using request_to_file [OF ref_folly_laws(1), of "''/srv''" 4 None ref_iobuf ref_fs ref_time 7 "''a''" "plain_message ''/a''"]
    by (simp add: StreamingFileHandler_def StreamingHTTPHandler_def setRequestArgs_def ref_file_conn_def
        stream_handler.defs file_handler.defs plain_message_def getHeader_def)
  let ?c1 = "after_callback ref_file_conn Receiving h"
  have s1: "file_step ref_folly ref_iobuf ref_fs ref_time 7 (plain_message ''/a'') False ref_file_conn (ok ?c1)"
    using file_step.request [of ref_file_conn ref_folly ref_iobuf ref_fs ref_time 7 "plain_message ''/a''" False] h(1)
    by (simp add: use_handler_def ref_file_conn_def)
  have "\<not> unmodified ref_fs (fc_handler ?c1)" "fc_stage ?c1 = Receiving"
    using h(2) by (simp_all add: unmodified_def after_callback_def)
  with eom_step [OF ref_iobuf_law known [OF file_reaches_one [OF s1]], of True ref_folly ref_time 7 "plain_message ''/a''" False]
  obtain c2 where "file_step ref_folly ref_iobuf ref_fs ref_time 7 (plain_message ''/a'') False ?c1 (ok c2)"
    "fc_stage c2 = Received" "fc_job c2 = Queued"
    by auto
  with s1 that show thesis
    by (meson file_reachable.intros)
qed

lemma file_connection_use_after_free_witness:
  "\<exists>cn cn1 cn2. ref_file_reachable cn \<and>
    file_step ref_folly ref_iobuf ref_fs ref_time 7 (plain_message ''/a'') True cn (ok cn1) \<and> fc_stage cn1 = Closed \<and>
    file_step ref_folly ref_iobuf ref_fs ref_time 7 (plain_message ''/a'') True cn1 (ok cn2) \<and> \<not> fc_alive cn2 \<and>
    file_step ref_folly ref_iobuf ref_fs ref_time 7 (plain_message ''/a'') True cn2
      (Inl (Abort (Undefined_behaviour ''use of a deleted handler'')))"
proof -
  obtain cn where cn: "ref_file_reachable cn" "fc_stage cn = Received" "fc_job cn = Queued"
    by (rule ref_file_queued)
  moreover have "fc_queue cn \<noteq> [] \<or> job_turn ref_fs ref_iobuf (fc_job cn) (fc_handler cn) \<noteq> None \<and> job_uses (fc_job cn)"
    using cn(3) by (simp add: Let_def)
  ultimately show ?thesis
    using file_connection_use_after_free [OF ref_folly_laws(1) ref_iobuf_law ref_file_conn_new cn(1,2)] by blast
qed

lemma ref_file_cancelled:
  obtains cn where "file_reachable ref_folly ref_iobuf ref_fs ref_time 7 (plain_message ''/a'') True ref_file_conn cn"
    and "fc_job cn = No_job" and "\<not> fc_alive cn"
proof -
  let ?reach = "file_reachable ref_folly ref_iobuf ref_fs ref_time 7 (plain_message ''/a'') True"
  obtain h where h: "streaming_onRequest ref_folly ref_iobuf (file_virtuals ref_fs ref_time) 7
      (fc_handler ref_file_conn) (Some (plain_message ''/a'')) = ok h"
    using file_onRequest [OF ref_folly_laws(1), of "fc_handler ref_file_conn" ref_iobuf ref_fs ref_time 7 "plain_message ''/a''"]
    by (auto simp: ref_file_conn_def)
  let ?c1 = "after_callback ref_file_conn Receiving h"
  have s1: "?reach ref_file_conn ?c1"
    using file_step.request [of ref_file_conn ref_folly ref_iobuf ref_fs ref_time 7 "plain_message ''/a''" True] h
    by (intro file_reaches_one) (simp add: use_handler_def ref_file_conn_def)
  have inv: "no_job_inv ?c1"
    using error_reachable_inv [OF ref_folly_laws(1) ref_iobuf_law ref_file_conn_new s1]
    by (simp add: error_inv_def after_callback_def ref_file_conn_def)
  have posted: "sh_posted h = []"
    using h file_onRequest [OF ref_folly_laws(1), of "fc_handler ref_file_conn" ref_iobuf ref_fs ref_time 7 "plain_message ''/a''"]
    by (auto simp: ref_file_conn_def)
  let ?c2 = "after_callback ?c1 Closed ((fc_handler ?c1)\<lparr>sh_posted := [Delete_this]\<rparr>)"
  have "file_step ref_folly ref_iobuf ref_fs ref_time 7 (plain_message ''/a'') True ?c1 (ok ?c2)"
    using file_step.error [of True ?c1 ref_folly ref_iobuf ref_fs ref_time 7 "plain_message ''/a''" "''timeout''"] inv
      post_delete(2) [of "fc_handler ?c1" ref_fs ref_time "''timeout''"]
    by (simp add: use_handler_def no_job_inv_def after_callback_def can_answer_def Let_def ref_file_conn_def)
  moreover have "file_step ref_folly ref_iobuf ref_fs ref_time 7 (plain_message ''/a'') True ?c2
      (ok (?c2\<lparr>fc_loop := [], fc_alive := False\<rparr>))"
    using file_step.loop_task [of ?c2 Delete_this "[]" ref_folly ref_iobuf ref_fs ref_time 7 "plain_message ''/a''" True] posted
    by (simp add: after_callback_def ref_file_conn_def)
  ultimately have "?reach ref_file_conn (?c2\<lparr>fc_loop := [], fc_alive := False\<rparr>)"
    using s1 by (meson file_reachable.intros)
  then show thesis
    by (rule that) (simp_all add: after_callback_def ref_file_conn_def)
qed

lemma file_error_without_job_safe_witness:
  "\<exists>cn. file_reachable ref_folly ref_iobuf ref_fs ref_time 7 (plain_message ''/a'') True ref_file_conn cn \<and>
    \<not> fc_alive cn \<and> fc_loop cn = [] \<and> fc_queue cn = [] \<and>
    (\<nexists>f. file_step ref_folly ref_iobuf ref_fs ref_time 7 (plain_message ''/a'') True ref_file_conn (Inl f))"
proof -
  obtain cn where cn: "file_reachable ref_folly ref_iobuf ref_fs ref_time 7 (plain_message ''/a'') True ref_file_conn cn"
      "fc_job cn = No_job" "\<not> fc_alive cn"
    by (rule ref_file_cancelled)
  have idle: "fc_job ref_file_conn = No_job" "fc_stage ref_file_conn \<noteq> Receiving"
    by (simp_all add: ref_file_conn_def)
  from file_error_without_job_safe [OF ref_folly_laws(1) ref_iobuf_law ref_file_conn_new cn(1,2)] cn
    file_error_without_job_safe [OF ref_folly_laws(1) ref_iobuf_law ref_file_conn_new file_reachable.start idle(1),
      of ref_fs ref_time 7 "plain_message ''/a''"] idle(2)
  show ?thesis by blast
qed

end
