(* ===== verification/File_Ending.thy ===== *)
theory File_Ending
  imports File_Errors
begin

text \<open>
  How requests to the file handler end: without client errors no run goes on for ever but for a
  client that never ends its request, and a run stops only when the handler is deleted.
\<close>

section \<open>What is left to do\<close>

text \<open>
  After the end of the message: the turns of the job, each of which posts at most one task, the
  tasks that wait, and the completion with its deletion.
\<close>

definition work_left :: "fs_lib \<Rightarrow> file_conn \<Rightarrow> nat" where
  "work_left P cn = (if fc_stage cn = Received then 2 else 0) + 2 * job_left P (fc_handler cn) (fc_job cn) +
     length (fc_loop cn) + length (fc_queue cn)"

lemma job_turn_posts:
  "job_turn P B pt h = Some (ok (pt', h')) \<Longrightarrow> length (sh_posted h') \<le> Suc (length (sh_posted h))"
  by (cases pt) (auto simp: Let_def bind_eq_Inr split_beta sendResponseHeaders_def sendBody_def sendEOF_def
      runInEventBaseThread_def noexcept_Inr split: option.splits if_splits)

lemma job_left_cong:
  "fh_path h' = fh_path h \<Longrightarrow> job_left P h' pt = job_left P h pt"
  by (cases pt) simp_all

abbreviation past_eom :: "file_conn \<Rightarrow> bool" where
  "past_eom cn \<equiv> fc_stage cn \<in> {Received, Closed}"

lemma job_step_decreases:
  assumes "iobuf_law B" and "file_inv P B cn" and "fc_stage cn = Received" and "file_readable P (fc_handler cn)"
    and "job_turn P B (fc_job cn) (fc_handler cn) = Some (ok (pt, h))"
  shows "work_left P (after_turn cn pt h) < work_left P cn"
proof -
  have inv: "sh_posted (fc_handler cn) = []" "job_inv P B (fc_handler cn) (fc_job cn) (all_calls cn)"
    using assms(2,3) by (simp_all add: file_inv_def Let_def)
  have "job_left P h pt = job_left P (fc_handler cn) pt"
    using job_turn_keeps_file [OF assms(5)] by (intro job_left_cong) simp
  moreover have "job_left P (h\<lparr>sh_posted := []\<rparr>) pt = job_left P h pt"
    by (intro job_left_cong) simp
  ultimately show ?thesis
    using job_turn_decreases [OF assms(4) inv(2) assms(5)] job_turn_posts [OF assms(5)] inv(1) assms(3)
    by (simp add: work_left_def after_turn_def)
qed

lemma task_decreases:
  assumes "run_task cn t = ok cn'"
  shows "fc_stage cn' = fc_stage cn" and "work_left P cn' = work_left P cn"
proof -
  have "fc_loop cn' = fc_loop cn \<and> fc_queue cn' = fc_queue cn"
    using assms by (cases t) (auto split: if_splits)
  with run_task_keeps [OF assms] run_task_job [OF assms]
  show "fc_stage cn' = fc_stage cn" and "work_left P cn' = work_left P cn"
    by (simp_all add: work_left_def)
qed

lemma work_decreases:
  assumes "iobuf_law B" and "file_inv P B cn" and "past_eom cn" and "file_readable P (fc_handler cn)"
    and "file_step F B P T current m False cn (ok cn')"
  shows "past_eom cn' \<and> work_left P cn' < work_left P cn"
  using assms(5)
proof (cases rule: file_step.cases)
  case complete
  have "fc_alive cn" "sh_evb (fc_handler cn) \<noteq> None" "sh_posted (fc_handler cn) = []"
    using assms(2) complete(2) by (simp_all add: file_inv_def Let_def)
  then have "cn' = after_callback cn Closed ((fc_handler cn)\<lparr>sh_posted := [Delete_this]\<rparr>)"
    using complete(1) post_delete(1) [of "fc_handler cn" P T] by (simp add: use_handler_def)
  moreover have "job_left P ((fc_handler cn)\<lparr>sh_posted := []\<rparr>) (fc_job cn) = job_left P (fc_handler cn) (fc_job cn)"
    by (intro job_left_cong) simp
  ultimately show ?thesis
    using complete(2) by (simp add: work_left_def after_callback_def)
next
  case (loop_task t ts)
  from task_decreases [OF loop_task(1) [symmetric]] assms(3) loop_task(2) show ?thesis
    by (simp add: work_left_def)
next
  case (queue_task t ts)
  from task_decreases [OF queue_task(1) [symmetric]] assms(3) queue_task(2) show ?thesis
    by (simp add: work_left_def)
next
  case (job r)
  have received: "fc_stage cn = Received"
    using job(2) assms(2) by (cases "fc_stage cn") (auto simp: file_inv_def Let_def)
  obtain pt h where "r = ok (pt, h)" "cn' = after_turn cn pt h"
    using job(1) by (cases r) (auto simp: use_handler_def split: if_splits)
  with job_step_decreases [OF assms(1,2) received assms(4), of pt h] job(2) received show ?thesis
    by (simp add: after_turn_def)
qed (use assms(3) in auto)

section \<open>Runs\<close>

definition file_run ::
  "folly_lib \<Rightarrow> iobuf_lib \<Rightarrow> fs_lib \<Rightarrow> time_lib \<Rightarrow> event_base \<Rightarrow> http_message \<Rightarrow> file_conn \<Rightarrow> (nat \<Rightarrow> file_conn) \<Rightarrow> bool" where
  "file_run F B P T current m cn0 run \<longleftrightarrow> run 0 = cn0 \<and>
     (\<forall>i. file_step F B P T current m False (run i) (ok (run (Suc i))))"

lemma file_run_reaches: "file_run F B P T current m cn0 run \<Longrightarrow> file_reachable F B P T current m False cn0 (run i)"
  by (induction i) (auto simp: file_run_def intro: file_reachable.intros)

lemma no_descent: "\<exists>i. \<not> (g (Suc i) :: nat) < g i"
  using wf_iff_no_infinite_down_chain [THEN iffD1, OF wf_less_than] by simp

lemma file_run_step: "file_run F B P T current m cn0 run \<Longrightarrow> file_step F B P T current m False (run i) (ok (run (Suc i)))"
  by (simp only: file_run_def)

lemma not_busy_before_eom:
  assumes "file_inv P B cn" and "fc_loop cn \<noteq> [] \<or> fc_queue cn \<noteq> [] \<or> job_turn P B (fc_job cn) (fc_handler cn) \<noteq> None"
  shows "fc_stage cn \<noteq> Await_request" and "fc_stage cn \<noteq> Receiving"
  using assms by (auto simp: file_inv_def Let_def)

lemma stage_after:
  assumes "file_inv P B cn" and "file_step F B P T current m False cn (ok cn')"
  shows "(fc_stage cn = Await_request \<longrightarrow> fc_stage cn' = Receiving) \<and>
    (fc_stage cn = Receiving \<longrightarrow> fc_stage cn' = Receiving \<or> past_eom cn')"
  using assms(2)
proof (cases rule: file_step.cases)
  case (loop_task t ts)
  with not_busy_before_eom [OF assms(1)] show ?thesis by simp
next
  case (queue_task t ts)
  with not_busy_before_eom [OF assms(1)] show ?thesis by simp
next
  case (job r)
  with not_busy_before_eom [OF assms(1)] show ?thesis by simp
next
  case eom
  from inv_eom [OF assms(1) eom(2) eom(1) [symmetric]] obtain h job where
    "can_answer (fc_handler cn)" "file_onEOM P B (fc_handler cn) = ok (h, job)"
    "cn' = after_callback (cn\<lparr>fc_job := if job then Queued else No_job\<rparr>) Received h" .
  with eom(2) show ?thesis by (simp add: after_callback_def)
next
  case request
  from request(1) [symmetric] have "fc_stage cn' = Receiving"
    by (auto simp: use_handler_def after_callback_def bind_eq_Inr split: if_splits)
  with request(2) show ?thesis by simp
qed (auto simp: use_handler_def after_callback_def bind_eq_Inr split: if_splits)

lemma run_past_ends:
  assumes "unescape_law F" and "iobuf_law B" and "new_file_conn base n evb raw_path = ok cn0"
    and "file_run F B P T current m cn0 run" and "n \<noteq> 0"
    and "q = fs_append P base (sanitizePath P raw_path)" and "fs_open P q = opened content \<or> \<not> good (fs_open P q)"
  shows "\<not> past_eom (run i)"
proof
  assume past: "past_eom (run i)"
  note step = file_run_step [OF assms(4)]
  have known: "file_inv P B (run j) \<and> about_file P base n raw_path (run j)" for j
    using file_reachable_inv [OF assms(1-3) file_run_reaches [OF assms(4)]] .
  have decreases: "past_eom (run (Suc j)) \<and> work_left P (run (Suc j)) < work_left P (run j)" if "past_eom (run j)" for j
  proof -
    have "file_readable P (fc_handler (run j))"
      using known [of j] that assms(5-7) by (auto simp: about_file_def file_readable_def)
    with work_decreases [OF assms(2) _ that _ step] known [of j] show ?thesis by blast
  qed
  have "past_eom (run (i + j))" for j
    using past decreases by (induction j) (simp_all del: insert_iff singleton_iff)
  then have "work_left P (run (i + Suc j)) < work_left P (run (i + j))" for j
    using decreases by simp
  with no_descent [of "\<lambda>j. work_left P (run (i + j))"] show False by blast
qed

lemma run_receives:
  assumes "unescape_law F" and "iobuf_law B" and "new_file_conn base n evb raw_path = ok cn0"
    and "file_run F B P T current m cn0 run" and "n \<noteq> 0"
    and "q = fs_append P base (sanitizePath P raw_path)" and "fs_open P q = opened content \<or> \<not> good (fs_open P q)"
  shows "fc_stage (run (Suc i)) = Receiving"
proof (induction i)
  case 0
  have "fc_stage cn0 = Await_request"
    using assms(3) by (auto simp: new_file_conn_def bind_eq_Inr)
  moreover have "run 0 = cn0" using assms(4) by (simp add: file_run_def)
  ultimately show ?case
    using stage_after [OF _ file_run_step [OF assms(4), of 0]]
      file_reachable_inv [OF assms(1-3) file_run_reaches [OF assms(4)], of 0] by simp
next
  case (Suc i)
  from stage_after [OF _ file_run_step [OF assms(4), of "Suc i"]] Suc run_past_ends [OF assms, of "Suc (Suc i)"]
    file_reachable_inv [OF assms(1-3) file_run_reaches [OF assms(4)], of "Suc i"] show ?case by blast
qed

lemma stuck_closed:
  assumes "unescape_law F" and "iobuf_law B" and "new_file_conn base n evb raw_path = ok cn0"
    and "file_reachable F B P T current m False cn0 cn" and "q = fs_append P base (sanitizePath P raw_path)"
    and "fs_is_regular_file P q = ok regular" and "n \<noteq> 0"
    and "fs_open P q = opened content \<or> \<not> good (fs_open P q)"
    and "\<nexists>res. file_step F B P T current m False cn res"
  shows "fc_stage cn = Closed \<and> \<not> fc_alive cn"
proof -
  obtain cn' where cn': "file_reachable F B P T current m False cn cn'" "fc_stage cn' = Closed" "\<not> fc_alive cn'"
    using file_completes [OF assms(1-8)] by blast
  from cn'(1) have "cn' = cn"
    by (induction rule: file_reachable.induct) (use assms(9) in auto)
  with cn'(2,3) show ?thesis by simp
qed

section \<open>A request that is answered with the file\<close>

text \<open>Without \<open>If-Modified-Since\<close>, a request for a regular file starts the job.\<close>

definition job_wanted :: "file_conn \<Rightarrow> bool" where
  "job_wanted cn \<longleftrightarrow> (\<not> past_eom cn \<longrightarrow> fh_ifModifiedSince (fc_handler cn) = 0) \<and>
     (past_eom cn \<longrightarrow> fc_job cn \<noteq> No_job)"

lemma unconditional_request:
  assumes "unescape_law F" and "getHeader m HTTP_HEADER_IF_MODIFIED_SINCE = None"
    and "streaming_onRequest F B (file_virtuals P T) current h (Some m) = ok h'"
  shows "fh_ifModifiedSince h' = fh_ifModifiedSince h"
  using assms(2,3)
  by (auto simp: streaming_onRequest_def HTTPRequest_total [OF assms(1)] file_virtuals_def
      onRequestReceived_def Let_def bind_eq_Inr noexcept_Inr split: option.splits if_splits)

lemma job_wanted_step:
  assumes "unescape_law F" and "getHeader m HTTP_HEADER_IF_MODIFIED_SINCE = None" and "file_inv P B cn"
    and "fc_stage cn = Receiving \<Longrightarrow> fs_is_regular_file P (fh_path (fc_handler cn)) = ok True"
    and "job_wanted cn" and "file_step F B P T current m False cn (ok cn')"
  shows "job_wanted cn'"
proof (cases "past_eom cn")
  case True
  with busy_step [OF assms(6) refl] assms(5) show ?thesis by (auto simp: job_wanted_def)
next
  case early: False
  show ?thesis
    using assms(6)
  proof (cases rule: file_step.cases)
    case request
    from request(1) [symmetric] obtain h where
      "streaming_onRequest F B (file_virtuals P T) current (fc_handler cn) (Some m) = ok h"
      "cn' = after_callback cn Receiving h"
      by (auto simp: use_handler_def bind_eq_Inr split: if_splits)
    with unconditional_request [OF assms(1,2)] assms(5) early show ?thesis
      by (simp add: job_wanted_def after_callback_def)
  next
    case (body buf)
    from body(1) [symmetric] have "cn' = after_callback cn Receiving (fc_handler cn)"
      by (simp add: use_handler_def file_onBody_def split: if_splits)
    with assms(5) early show ?thesis
      by (simp add: job_wanted_def after_callback_def)
  next
    case eom
    from inv_eom [OF assms(3) eom(2) eom(1) [symmetric]] obtain h job where
      h: "can_answer (fc_handler cn)" "file_onEOM P B (fc_handler cn) = ok (h, job)"
      "cn' = after_callback (cn\<lparr>fc_job := if job then Queued else No_job\<rparr>) Received h" .
    have job
      using h(2) file_onEOM_cases [OF assms(4) [OF eom(2)], of B] assms(5) eom(2)
      by (simp add: job_wanted_def unmodified_def)
    with h(3) show ?thesis by (simp add: job_wanted_def after_callback_def)
  next
    case (loop_task t ts)
    with not_busy_before_eom [OF assms(3)] early show ?thesis by (cases "fc_stage cn") simp_all
  next
    case (queue_task t ts)
    with not_busy_before_eom [OF assms(3)] early show ?thesis by (cases "fc_stage cn") simp_all
  next
    case (job r)
    with not_busy_before_eom [OF assms(3)] early show ?thesis by (cases "fc_stage cn") simp_all
  qed (use early in simp_all)
qed

lemma job_wanted_reachable:
  assumes "unescape_law F" and "iobuf_law B" and "new_file_conn base n evb raw_path = ok cn0"
    and "getHeader m HTTP_HEADER_IF_MODIFIED_SINCE = None"
    and "fs_is_regular_file P (fs_append P base (sanitizePath P raw_path)) = ok True"
    and "file_reachable F B P T current m False cn0 cn"
  shows "job_wanted cn"
  using assms(6)
proof (induction rule: file_reachable.induct)
  case start
  then show ?case
    using assms(3) by (auto simp: new_file_conn_def StreamingFileHandler_def StreamingHTTPHandler_def setRequestArgs_def
        job_wanted_def stream_handler.defs file_handler.defs)
next
  case (step cn cn')
  have "file_inv P B cn" "about_file P base n raw_path cn"
    using file_reachable_inv [OF assms(1-3) step(1)] by simp_all
  with job_wanted_step [OF assms(1,4) _ _ step.IH step(2)] assms(5) show ?case
    by (simp add: about_file_def)
qed

section \<open>Properties\<close>

text \<open>
  C17. A request to the file handler comes to its end in every order of its steps: without client
  errors, for a non-zero buffer size, if the file's status can be read and the file can be read to
  its end (no device error) or not be opened at all, a run goes on for ever only if body parts of the request come in for ever, and a run
  that can go no further has closed the connection and deleted the handler.
\<close>

theorem file_connection_ends:
  assumes "unescape_law F" and "iobuf_law B" and "new_file_conn base n evb raw_path = ok cn0"
    and "q = fs_append P base (sanitizePath P raw_path)" and "fs_is_regular_file P q = ok regular" and "n \<noteq> 0"
    and "fs_open P q = opened content \<or> \<not> good (fs_open P q)"
  shows "(\<forall>run. file_run F B P T current m cn0 run \<longrightarrow> (\<forall>i. fc_stage (run (Suc i)) = Receiving)) \<and>
    (\<forall>cn. file_reachable F B P T current m False cn0 cn \<and> (\<nexists>res. file_step F B P T current m False cn res) \<longrightarrow>
      fc_stage cn = Closed \<and> \<not> fc_alive cn)"
  using run_receives [OF assms(1-3) _ assms(6,4,7)] stuck_closed [OF assms(1-3) _ assms(4-7)] by blast

section \<open>Witnesses\<close>

lemma file_connection_ends_witness:
  "(\<nexists>run. file_run ref_folly ref_iobuf ref_fs ref_time 7 (plain_message ''/a'') ref_file_conn run \<and>
      fc_stage (run 2) = Received) \<and>
    (\<exists>res. file_step ref_folly ref_iobuf ref_fs ref_time 7 (plain_message ''/a'') False ref_file_conn res)"
proof -
  have ends: "(\<forall>run. file_run ref_folly ref_iobuf ref_fs ref_time 7 (plain_message ''/a'') ref_file_conn run \<longrightarrow>
      (\<forall>i. fc_stage (run (Suc i)) = Receiving)) \<and>
    (\<forall>cn. file_reachable ref_folly ref_iobuf ref_fs ref_time 7 (plain_message ''/a'') False ref_file_conn cn \<and>
      (\<nexists>res. file_step ref_folly ref_iobuf ref_fs ref_time 7 (plain_message ''/a'') False cn res) \<longrightarrow>
      fc_stage cn = Closed \<and> \<not> fc_alive cn)"
    by (rule file_connection_ends [OF ref_folly_laws(1) ref_iobuf_law ref_file_conn_new refl,
          where regular = True and content = "''hello, world''"]) simp_all
  moreover have "fc_stage ref_file_conn = Await_request"
    by (simp add: ref_file_conn_def)
  ultimately show ?thesis
    using file_reachable.start by (metis One_nat_def Suc_1 stage.distinct(3,5,7,9,11))
qed

end
