(* ===== verification/Example_Files.thy ===== *)
theory Example_Files
  imports Example_Main File_Ending
begin

text \<open>
  A request for a file to the example server, as it runs: from the factory of the server through
  all orders of the callbacks, the tasks of the event base and the turns of the read job.
\<close>

section \<open>A whole file\<close>

lemma whole_file:
  assumes "unescape_law F" and "iobuf_law B" and "new_file_conn base n evb raw_path = ok cn0"
    and "getHeader m HTTP_HEADER_IF_MODIFIED_SINCE = None" and "q = fs_append P base (sanitizePath P raw_path)"
    and "fs_is_regular_file P q = ok True" and "fs_open P q = opened content"
    and "n \<noteq> 0" and "file_reachable F B P T current m False cn0 cn"
  shows "(\<nexists>f. file_step F B P T current m False cn (Inl f)) \<and>
    (\<exists>rest. transmitted B (unat n) content = body_bytes (fc_wire cn) @ rest) \<and>
    ((\<exists>res. file_step F B P T current m False cn res) \<or>
      \<not> fc_alive cn \<and> builder_run Fresh (fc_wire cn) = Some Finished \<and>
      status_sent (fc_wire cn) = Some 200 \<and> body_bytes (fc_wire cn) = transmitted B (unat n) content)"
proof -
  have open_q: "fs_open P (fs_append P base (sanitizePath P raw_path)) = opened content"
    using assms(5,7) by simp
  note served = file_serves [OF assms(1-3,9) open_q assms(8)]
  have wanted: "job_wanted cn"
    using job_wanted_reachable [OF assms(1-4) _ assms(9)] assms(5,6) by simp
  have "\<nexists>f. file_step F B P T current m False cn (Inl f)"
    using file_safe [OF assms(1-3,9)] assms(5,6) by fastforce
  moreover have "\<not> fc_alive cn \<and> builder_run Fresh (fc_wire cn) = Some Finished \<and>
      status_sent (fc_wire cn) = Some 200 \<and> body_bytes (fc_wire cn) = transmitted B (unat n) content"
    if stuck: "\<nexists>res. file_step F B P T current m False cn res"
  proof -
    have "fc_stage cn = Closed" "\<not> fc_alive cn"
      using stuck_closed [OF assms(1-3,9,5,6,8) disjI1 [OF assms(7)] stuck] by simp_all
    with served wanted show ?thesis by (simp add: job_wanted_def)
  qed
  ultimately show ?thesis using served by blast
qed

text \<open>The object that the factory makes is the handler of a new connection.\<close>

lemma new_conn_handler:
  assumes "StreamingFileHandler base n True evb = ok h"
  obtains cn0 where "new_file_conn base n evb raw_path = ok cn0"
    and "fc_handler cn0 = (setRequestArgs h raw_path)\<lparr>sh_downstream := True\<rparr>"
  using assms by (simp add: new_file_conn_def)

section \<open>Properties\<close>

text \<open>
  C16. A file of the example site in every order: for a \<open>GET\<close>, which no route gives up matching, of
  any path below \<open>/\<close> that does not go on with exactly two slashes, without \<open>If-Modified-Since\<close>,
  that names a regular file below \<open>public\<close> which can be opened and read to its end, the factory of the example server makes a file handler. In whatever order
  the callbacks (no client error among them), the tasks of the event base and the turns of the
  read job then come, no step ends the process, the bytes on the wire are a prefix of what is
  transmitted for the file (its blocks, each with the bytes its buffer has room for beyond the
  size), and there is a next step until the handler is deleted and the client has one whole
  response of status 200 with all of that as its body, which is the file itself exactly if a new
  buffer has no more room than asked for.
\<close>

theorem example_file_every_order:
  assumes "unescape_law F" and "sformat_law F" and "to_int64_law F" and "iobuf_law B" and "futures_law X"
    and "path_law P" and "element_law P" and "served F R B X m"
    and "example_server F P R B X resolve blank = ok sv"
    and "effective_method m = GET" and "effective_path F m = ''/'' @ rest" and "rest \<noteq> []"
    and "getHeader m HTTP_HEADER_IF_MODIFIED_SINCE = None" and "\<not> two_slashes rest"
    and "q = fs_append P ''public'' (sanitizePath P rest)"
    and "fs_is_regular_file P q = ok True" and "fs_open P q = opened content"
  shows "(\<exists>h cn0 names.
    factory_onRequest F R B X (hd (so_handlerFactories (sv_options sv))) (Some m) = ok (Some (Streaming_handler_object h)) \<and>
    new_file_conn ''public'' kDefaultFileReaderBufferSize None rest = ok cn0 \<and>
    fc_handler cn0 = h\<lparr>sh_downstream := True\<rparr> \<and>
    fs_components P q = ''public'' # names \<and> (list_all plain_name names \<or> names = [''.'']) \<and>
    (\<forall>cn. file_reachable F B P T current m False cn0 cn \<longrightarrow>
      (\<nexists>f. file_step F B P T current m False cn (Inl f)) \<and>
      (\<exists>more. transmitted B 4096 content = body_bytes (fc_wire cn) @ more) \<and>
      ((\<exists>res. file_step F B P T current m False cn res) \<or>
        \<not> fc_alive cn \<and> builder_run Fresh (fc_wire cn) = Some Finished \<and>
        status_sent (fc_wire cn) = Some 200 \<and> body_bytes (fc_wire cn) = transmitted B 4096 content))) \<and>
    (transmitted B 4096 content = content \<longleftrightarrow> length (io_tailroom B 4096) = 4096)"
proof -
  obtain h where h: "StreamingFileHandler ''public'' kDefaultFileReaderBufferSize True None = ok h"
      "factory_onRequest F R B X (hd (so_handlerFactories (sv_options sv))) (Some m) =
        ok (Some (Streaming_handler_object (setRequestArgs h rest)))"
    by (rule example_file_handler [OF assms(2-5,8-12)])
  obtain cn0 where cn0: "new_file_conn ''public'' kDefaultFileReaderBufferSize None rest = ok cn0"
      "fc_handler cn0 = (setRequestArgs h rest)\<lparr>sh_downstream := True\<rparr>"
    by (rule new_conn_handler [OF h(1)])
  obtain names where names: "fs_components P q = ''public'' # names" "list_all plain_name names \<or> names = [''.'']"
    using public_path [OF assms(6,7,14)] assms(15) by (auto simp: below_def)
  have size: "kDefaultFileReaderBufferSize \<noteq> 0" "unat kDefaultFileReaderBufferSize = 4096"
    by (simp_all add: kDefaultFileReaderBufferSize_def)
  note whole = whole_file [OF assms(1,4) cn0(1) assms(13,15-17) size(1), where T = T and current = current, unfolded size(2)]
  show ?thesis
    using h(2) cn0 names whole transmitted_facts(2) [OF assms(4) size(1), of content, unfolded size(2)] by blast
qed

section \<open>Witnesses\<close>

lemma example_file_every_order_witness:
  "\<exists>sv h cn0 cn.
    example_server ref_folly ref_fs example_lib ref_iobuf ref_futures ref_resolver ref_blank = ok sv \<and>
    factory_onRequest ref_folly example_lib ref_iobuf ref_futures (hd (so_handlerFactories (sv_options sv)))
      (Some (plain_message ''/../css/site.css'')) = ok (Some (Streaming_handler_object h)) \<and>
    new_file_conn ''public'' kDefaultFileReaderBufferSize None ''../css/site.css'' = ok cn0 \<and>
    fc_handler cn0 = h\<lparr>sh_downstream := True\<rparr> \<and>
    file_reachable ref_folly ref_iobuf ref_fs ref_time 7 (plain_message ''/../css/site.css'') False cn0 cn \<and>
    \<not> fc_alive cn \<and> (\<exists>more. ''hello, world'' = body_bytes (fc_wire cn) @ more)"
proof -
  let ?m = "plain_message ''/../css/site.css''"
  let ?reach = "file_reachable ref_folly ref_iobuf ref_fs ref_time 7 ?m False"
  obtain sv where sv: "example_server ref_folly ref_fs example_lib ref_iobuf ref_futures ref_resolver ref_blank = ok sv"
    by (rule ref_example_server)
  have path: "effective_path ref_folly ?m = ''/'' @ ''../css/site.css''"
    by (simp add: plain_path ref_folly_def)
  have "effective_method ?m = GET" "getHeader ?m HTTP_HEADER_IF_MODIFIED_SINCE = None"
      "\<not> two_slashes ''../css/site.css''"
    by (simp_all add: effective_method_def plain_message_def value_or_def getHeader_def two_slashes_def)
  from example_file_every_order [OF ref_folly_laws(1-3) ref_iobuf_law ref_futures_law ref_fs_path_law
      ref_fs_laws(1) example_served sv this(1) path _ this(2,3) refl _ _, of "''hello, world''" ref_time 7]
  obtain h cn0 where h: "factory_onRequest ref_folly example_lib ref_iobuf ref_futures
      (hd (so_handlerFactories (sv_options sv))) (Some ?m) = ok (Some (Streaming_handler_object h))"
    "new_file_conn ''public'' kDefaultFileReaderBufferSize None ''../css/site.css'' = ok cn0"
    "fc_handler cn0 = h\<lparr>sh_downstream := True\<rparr>"
    "\<forall>cn. ?reach cn0 cn \<longrightarrow> (\<exists>more. ''hello, world'' = body_bytes (fc_wire cn) @ more)"
    by (auto simp: ref_transmitted)
  have "\<exists>cn. ?reach cn0 cn \<and> fc_stage cn = Closed \<and> \<not> fc_alive cn"
    by (rule file_completes [OF ref_folly_laws(1) ref_iobuf_law h(2) file_reachable.start refl,
          where regular = True and content = "''hello, world''"])
      (simp_all add: kDefaultFileReaderBufferSize_def)
  with h sv show ?thesis by metis
qed

end
