(* ===== verification/Http_Connection.thy ===== *)
theory Http_Connection
  imports Http_Handler
begin

text \<open>
  The lifetime of the handler of \<open>src/HTTPHandler.cpp\<close>: proxygen's callbacks, the stages of the
  future that hold a plain pointer to the handler, and the \<open>delete this\<close>, in every order in
  which they can come.
\<close>

section \<open>State and steps\<close>

text \<open>
  The handler object is deleted by \<open>requestComplete\<close> and by \<open>onError\<close>; the stages of its
  future hold a plain pointer to it. \<open>cn_future\<close> is the future whose callback has not run.
\<close>

datatype 'a object = Alive 'a | Deleted

record 'h connection =
  cn_object :: "'h http_handler object"
  cn_wire :: "builder_call list"
  cn_future :: "response_future option"
  cn_stale :: "nat list"

definition use_object :: "'a object \<Rightarrow> 'a outcome" where
  "use_object ob = (case ob of
       Alive h \<Rightarrow> ok h
     | Deleted \<Rightarrow> Inl (Abort (Undefined_behaviour ''use of a deleted handler'')))"

definition requestComplete :: "'h connection \<Rightarrow> 'h connection outcome" where
  "requestComplete cn = bind (use_object (cn_object cn)) (\<lambda>_. ok (cn\<lparr>cn_object := Deleted\<rparr>))"

definition onError :: "'h connection \<Rightarrow> 'h connection outcome" where
  "onError cn = bind (use_object (cn_object cn)) (\<lambda>_. ok (cn\<lparr>cn_object := Deleted\<rparr>))"

definition then_callback :: "iobuf_lib \<Rightarrow> 'h connection \<Rightarrow> http_response \<Rightarrow> 'h connection outcome" where
  "then_callback B cn response =
     bind (use_object (cn_object cn))
       (\<lambda>_. ok (cn\<lparr>cn_wire := cn_wire cn @ sendResponse B response, cn_future := None\<rparr>))"

text \<open>
  The first two stages of the chain capture \<open>this\<close>: the call of the user's handler, which the
  executor starts \<open>lag\<close> milliseconds after the end of the message, and the error stage behind
  it, which runs when the handler's future has failed. \<open>onTimeout\<close> does not call them off: those
  that come no sooner than the timeout may find that the response of the 503 handler has
  already been sent.
\<close>

definition stage_times :: "nat \<Rightarrow> response_future \<Rightarrow> nat list" where
  "stage_times lag c = lag # (case c of
       Completed t (Inl (Throw e)) \<Rightarrow> if is_std e then [lag + t] else []
     | _ \<Rightarrow> [])"

definition stale_stages :: "int64 \<Rightarrow> nat \<Rightarrow> response_future \<Rightarrow> nat list" where
  "stale_stages T lag c = filter (\<lambda>s. sint T \<le> int s) (stage_times lag c)"

definition stale_stage :: "'h connection \<Rightarrow> 'h connection outcome" where
  "stale_stage cn = bind (use_object (cn_object cn)) (\<lambda>_. ok (cn\<lparr>cn_stale := tl (cn_stale cn)\<rparr>))"

text \<open>
  The order of the callbacks: proxygen hands over body parts and then the end of the message
  (\<open>EOM\<close>); it reports completion once a response has been sent, and an error at any time
  while it still knows the handler. The flag says whether errors are considered.
\<close>

inductive conn_step ::
  "folly_lib \<Rightarrow> iobuf_lib \<Rightarrow> futures_lib \<Rightarrow> nat \<Rightarrow> bool \<Rightarrow> 'h connection \<Rightarrow> 'h connection outcome \<Rightarrow> bool"
  for F B X lag errors where
  body: "cn_object cn = Alive h \<Longrightarrow> hh_request h = None \<Longrightarrow>
     conn_step F B X lag errors cn
       (bind (onBody B h buf) (\<lambda>h'. ok (cn\<lparr>cn_object := Alive h'\<rparr>)))"
| eom: "cn_object cn = Alive h \<Longrightarrow> hh_request h = None \<Longrightarrow> onEOM F B X h = ok h' \<Longrightarrow>
     hh_request h' = Some req \<Longrightarrow>
     scheduled X (hh_handler h) req = delay lag (call_function (hh_handler h) req) \<Longrightarrow>
     conn_step F B X lag errors cn (ok (cn\<lparr>cn_object := Alive h', cn_future := hh_response h',
       cn_stale := stale_stages (hh_timeout h) lag (call_function (hh_handler h) req)\<rparr>))"
| eom_fails: "cn_object cn = Alive h \<Longrightarrow> hh_request h = None \<Longrightarrow> onEOM F B X h = Inl e \<Longrightarrow>
     conn_step F B X lag errors cn (Inl e)"
| respond: "cn_future cn = Some c \<Longrightarrow> sent c = Some (t, r) \<Longrightarrow>
     conn_step F B X lag errors cn (then_callback B cn r)"
| stale: "cn_stale cn \<noteq> [] \<Longrightarrow> conn_step F B X lag errors cn (stale_stage cn)"
| complete: "cn_object cn = Alive h \<Longrightarrow> cn_wire cn \<noteq> [] \<Longrightarrow>
     conn_step F B X lag errors cn (requestComplete cn)"
| error: "errors \<Longrightarrow> cn_object cn = Alive h \<Longrightarrow> conn_step F B X lag errors cn (onError cn)"

inductive conn_reachable ::
  "folly_lib \<Rightarrow> iobuf_lib \<Rightarrow> futures_lib \<Rightarrow> nat \<Rightarrow> bool \<Rightarrow> 'h connection \<Rightarrow> 'h connection \<Rightarrow> bool"
  for F B X lag errors cn0 where
  start: "conn_reachable F B X lag errors cn0 cn0"
| step: "conn_reachable F B X lag errors cn0 cn \<Longrightarrow> conn_step F B X lag errors cn (ok cn') \<Longrightarrow>
     conn_reachable F B X lag errors cn0 cn'"

text \<open>A connection whose handler has just received the request headers.\<close>

definition new_connection ::
  "iobuf_lib \<Rightarrow> int64 \<Rightarrow> 'h router \<Rightarrow> handler option \<Rightarrow> http_message \<Rightarrow> 'h connection outcome" where
  "new_connection B timeout rt handler m =
     bind (new_HTTPHandler B timeout (Some rt) handler) (\<lambda>h.
     bind (onRequest h (Some m)) (\<lambda>h.
       ok \<lparr>cn_object = Alive h, cn_wire = [], cn_future = None, cn_stale = []\<rparr>))"

section \<open>The invariant\<close>

text \<open>
  Without client errors and late stages: nothing is on the wire until the callback has run, and
  the callback is gone before the object is.
\<close>

fun conn_inv :: "iobuf_lib \<Rightarrow> int64 \<Rightarrow> handler option \<Rightarrow> 'h connection \<Rightarrow> bool" where
  "conn_inv B T f cn = (cn_stale cn = [] \<and> (case cn_object cn of
       Alive h \<Rightarrow> hh_timeout h = T \<and> hh_handler h = f \<and>
         (if hh_request h = None
          then hh_message h \<noteq> None \<and> hh_body h \<noteq> None \<and> cn_wire cn = [] \<and> cn_future cn = None
          else cn_wire cn = [] \<or> cn_future cn = None \<and> (\<exists>r. cn_wire cn = sendResponse B r))
     | Deleted \<Rightarrow> cn_future cn = None \<and> (\<exists>r. cn_wire cn = sendResponse B r)))"

text \<open>The executor starts the handler before the timeout, and the handler does not fail after it.\<close>

definition punctual :: "int64 \<Rightarrow> nat \<Rightarrow> handler option \<Rightarrow> bool" where
  "punctual T lag f \<longleftrightarrow> (\<forall>req. stale_stages T lag (call_function f req) = [])"

lemma conn_inv_step:
  assumes "unescape_law F" and "punctual T lag f" and "conn_step F B X lag False cn res" and "conn_inv B T f cn"
  shows "\<exists>cn'. res = ok cn' \<and> conn_inv B T f cn'"
  using assms(3)
proof (cases rule: conn_step.cases)
  case (body h buf)
  then obtain b where "hh_body h = Some b"
    using assms(4) by auto
  with body assms(4) show ?thesis by (auto simp: onBody_def)
next
  case (eom h h' req)
  then obtain m b where "hh_message h = Some m" "hh_body h = Some b"
    using assms(4) by auto
  from onEOM_eq [OF assms(1) this, of B X] eom assms(2,4) show ?thesis
    by (auto simp: punctual_def)
next
  case (eom_fails h e)
  then obtain m b where "hh_message h = Some m" "hh_body h = Some b"
    using assms(4) by auto
  from onEOM_eq [OF assms(1) this, of B X] eom_fails show ?thesis by simp
next
  case (respond c t r)
  then show ?thesis
    using assms(4)
    by (cases "cn_object cn") (auto simp: then_callback_def use_object_def split: if_splits)
next
  case (complete h)
  then show ?thesis
    using assms(4) by (auto simp: requestComplete_def use_object_def split: if_splits)
qed (use assms(4) in auto)

lemma conn_inv_reachable:
  assumes "unescape_law F" and "new_connection B timeout rt handler m = ok cn0" and "punctual timeout lag handler"
    and "conn_reachable F B X lag False cn0 cn"
  shows "conn_inv B timeout handler cn"
  using assms(4)
proof (induction rule: conn_reachable.induct)
  case start
  then show ?case
    using assms(2) by (auto simp: new_connection_def new_HTTPHandler_def onRequest_def)
next
  case (step cn cn')
  then show ?case using conn_inv_step [OF assms(1,3)] by blast
qed

section \<open>Steps after the end of the message\<close>

text \<open>The request that a handler gets from a message without a body.\<close>

definition bodyless :: "folly_lib \<Rightarrow> iobuf_lib \<Rightarrow> http_message \<Rightarrow> http_request" where
  "bodyless F B m = \<lparr>req_message = m, req_body = io_create B 0, req_path = effective_path F m,
     req_method = effective_method m\<rparr>"

lemma connection_at_eom:
  assumes "unescape_law F" and "new_connection B timeout rt handler m = ok cn0"
    and "scheduled X handler (bodyless F B m) = delay lag (call_function handler (bodyless F B m))"
  shows "\<exists>cn h. conn_reachable F B X lag errors cn0 cn \<and> cn_object cn = Alive h \<and>
    cn_future cn = Some (response_chain B X timeout rt handler (bodyless F B m)) \<and> cn_wire cn = [] \<and>
    cn_stale cn = stale_stages timeout lag (call_function handler (bodyless F B m))"
proof -
  obtain h where h: "cn_object cn0 = Alive h" "hh_request h = None" "hh_message h = Some m"
      "hh_body h = Some (io_create B 0)" "hh_timeout h = timeout" "hh_router h = rt" "hh_handler h = handler"
      "cn_wire cn0 = []"
    using assms(2) by (auto simp: new_connection_def new_HTTPHandler_def onRequest_def)
  obtain h1 where eom: "onEOM F B X h = ok h1" "hh_request h1 = Some (bodyless F B m)"
      "hh_response h1 = Some (response_chain B X timeout rt handler (bodyless F B m))"
    using onEOM_eq [OF assms(1) h(3,4), of B X] h(5-7) by (auto simp: bodyless_def)
  let ?cn = "cn0\<lparr>cn_object := Alive h1, cn_future := hh_response h1,
      cn_stale := stale_stages timeout lag (call_function handler (bodyless F B m))\<rparr>"
  have "conn_step F B X lag errors cn0 (ok ?cn)"
    using conn_step.eom [OF h(1,2) eom(1,2), where lag = lag] h(5,7) assms(3) by simp
  then have "conn_reachable F B X lag errors cn0 ?cn"
    by (rule conn_reachable.step [OF conn_reachable.start])
  with eom(3) h(8) show ?thesis
    by (intro exI [of _ ?cn] exI [of _ h1]) simp
qed

text \<open>A deleted handler is used by each of the two.\<close>

lemma deleted_handler_used:
  assumes "cn_object cn = Deleted"
  shows "cn_future cn = Some c \<Longrightarrow> sent c = Some (t, r) \<Longrightarrow>
      conn_step F B X lag errors cn (Inl (Abort (Undefined_behaviour ''use of a deleted handler'')))"
    and "cn_stale cn \<noteq> [] \<Longrightarrow>
      conn_step F B X lag errors cn (Inl (Abort (Undefined_behaviour ''use of a deleted handler'')))"
  using conn_step.respond [where cn = cn and c = c] conn_step.stale [where cn = cn] assms
  by (simp_all add: then_callback_def stale_stage_def use_object_def)

section \<open>Properties\<close>

text \<open>
  Lifetime without client errors: where the executor starts the handler in time and the
  handler does not fail after the timeout, in every order of body parts, end of message, response
  and completion that proxygen can produce, no callback touches a deleted handler or a moved-out
  buffer, and the client sees nothing or one complete, well-formed response.
\<close>

theorem connection_safe:
  assumes "unescape_law F" and "new_connection B timeout rt handler m = ok cn0"
    and "punctual timeout lag handler" and "conn_reachable F B X lag False cn0 cn"
  shows "(cn_wire cn = [] \<or> (\<exists>r. cn_wire cn = sendResponse B r)) \<and>
    (\<forall>res. conn_step F B X lag False cn res \<longrightarrow> (\<exists>cn'. res = ok cn'))"
proof -
  have inv: "conn_inv B timeout handler cn"
    using conn_inv_reachable [OF assms] .
  then have "cn_wire cn = [] \<or> (\<exists>r. cn_wire cn = sendResponse B r)"
    by (auto split: object.splits if_splits)
  with conn_inv_step [OF assms(1,3) _ inv] show ?thesis by blast
qed

text \<open>
  C32. Lifetime with client errors: after the end of the message, an error from the client
  deletes the handler while its future is still pending; when the future completes, the
  callback uses the deleted handler. The comment at \<open>onError\<close> takes this to be safe.
\<close>

theorem connection_use_after_free:
  assumes "unescape_law F" and "new_connection B timeout rt handler m = ok cn0"
    and "scheduled X handler (bodyless F B m) = delay lag (call_function handler (bodyless F B m))"
    and "sent (response_chain B X timeout rt handler (bodyless F B m)) = Some (t, r)"
  shows "\<exists>cn. conn_reachable F B X lag True cn0 cn \<and>
    conn_step F B X lag True cn (Inl (Abort (Undefined_behaviour ''use of a deleted handler'')))"
proof -
  obtain cn h where cn: "conn_reachable F B X lag True cn0 cn" "cn_object cn = Alive h"
      "cn_future cn = Some (response_chain B X timeout rt handler (bodyless F B m))"
    using connection_at_eom [OF assms(1-3)] by blast
  let ?cn = "cn\<lparr>cn_object := Deleted\<rparr>"
  have "conn_step F B X lag True cn (ok ?cn)"
    using conn_step.error [where errors = True and cn = cn and h = h] cn(2) by (simp add: onError_def use_object_def)
  with cn(1) have "conn_reachable F B X lag True cn0 ?cn"
    by (rule conn_reachable.step)
  moreover have "conn_step F B X lag True ?cn (Inl (Abort (Undefined_behaviour ''use of a deleted handler'')))"
    using cn(3) assms(4) by (intro deleted_handler_used(1)) simp_all
  ultimately show ?thesis by blast
qed

text \<open>
  C31. A handler that fails after the timeout: the response of the 503 handler is sent and the
  handler deleted; when the user's future then fails, the error stage of the chain, which the
  timeout has not called off, uses the deleted handler. No client error is needed.
\<close>

theorem late_failure_use_after_free:
  assumes "unescape_law F" and "new_connection B timeout rt handler m = ok cn0"
    and "scheduled X handler (bodyless F B m) = delay lag (call_function handler (bodyless F B m))"
    and "call_function handler (bodyless F B m) = Completed t (throw e)" and "is_std e"
    and "sint timeout < int (lag + t)"
    and "sent (response_chain B X timeout rt handler (bodyless F B m)) = Some (t', r)" and "t' < lag + t"
  shows "\<exists>cn. conn_reachable F B X lag False cn0 cn \<and>
    conn_step F B X lag False cn (Inl (Abort (Undefined_behaviour ''use of a deleted handler'')))"
proof -
  obtain cn h where cn: "conn_reachable F B X lag False cn0 cn" "cn_object cn = Alive h"
      "cn_future cn = Some (response_chain B X timeout rt handler (bodyless F B m))"
      "cn_stale cn = stale_stages timeout lag (call_function handler (bodyless F B m))"
    using connection_at_eom [OF assms(1-3)] by blast
  have stale: "cn_stale cn \<noteq> []"
    using cn(4) assms(4-6) by (simp add: stale_stages_def stage_times_def)
  let ?cn1 = "cn\<lparr>cn_wire := cn_wire cn @ sendResponse B r, cn_future := None\<rparr>"
  let ?cn2 = "?cn1\<lparr>cn_object := Deleted\<rparr>"
  have "conn_step F B X lag False cn (ok ?cn1)"
    using conn_step.respond [OF cn(3) assms(7)] cn(2)
    by (simp add: then_callback_def use_object_def)
  with cn(1) have "conn_reachable F B X lag False cn0 ?cn1"
    by (rule conn_reachable.step)
  moreover have "conn_step F B X lag False ?cn1 (ok ?cn2)"
    using conn_step.complete [where cn = ?cn1 and h = h] cn(2) by (simp add: requestComplete_def use_object_def)
  ultimately have "conn_reachable F B X lag False cn0 ?cn2"
    by (rule conn_reachable.step)
  moreover have "conn_step F B X lag False ?cn2 (Inl (Abort (Undefined_behaviour ''use of a deleted handler'')))"
    using stale by (intro deleted_handler_used(2)) simp_all
  ultimately show ?thesis by blast
qed

section \<open>Witnesses\<close>

definition ref_connection :: "unit connection" where
  "ref_connection = \<lparr>cn_object = Alive ref_http_handler, cn_wire = [], cn_future = None, cn_stale = []\<rparr>"

lemma ref_new_connection:
  "new_connection ref_iobuf 30000 ref_router (Some ref_handler) (plain_message ''/hello'') = ok ref_connection"
  by (simp add: new_connection_def new_HTTPHandler_def onRequest_def ref_connection_def
      ref_http_handler_def) (simp add: ref_iobuf_def)

lemma connection_safe_witness:
  "\<exists>cn'. bind (onBody ref_iobuf ref_http_handler [''x''])
     (\<lambda>h'. ok (ref_connection\<lparr>cn_object := Alive h'\<rparr>)) = ok cn'"
proof -
  have "conn_step ref_folly ref_iobuf ref_futures 0 False ref_connection
      (bind (onBody ref_iobuf ref_http_handler [''x'']) (\<lambda>h'. ok (ref_connection\<lparr>cn_object := Alive h'\<rparr>)))"
    by (rule conn_step.body) (simp_all add: ref_connection_def ref_http_handler_def)
  moreover have "punctual 30000 0 (Some ref_handler)"
    by (simp add: punctual_def stale_stages_def stage_times_def call_function_def ref_handler_def)
  ultimately show ?thesis
    using connection_safe [OF ref_folly_laws(1) ref_new_connection _ conn_reachable.start] by blast
qed

lemma ref_chain_sends:
  "sent (response_chain ref_iobuf ref_futures 30000 ref_router (Some ref_handler) req) = Some (0, empty_response 200)"
proof -
  have "response_chain ref_iobuf ref_futures 30000 ref_router (Some ref_handler) req =
      Completed 0 (ok (empty_response 200))"
    by (rule chain_in_time [OF ref_futures_law])
       (simp_all add: ref_scheduled call_function_def ref_handler_def)
  then show ?thesis by (simp add: sent_def)
qed

lemma connection_use_after_free_witness:
  "\<exists>cn. conn_reachable ref_folly ref_iobuf ref_futures 0 True ref_connection cn \<and>
    conn_step ref_folly ref_iobuf ref_futures 0 True cn
      (Inl (Abort (Undefined_behaviour ''use of a deleted handler'')))"
  by (rule connection_use_after_free [OF ref_folly_laws(1) ref_new_connection _ ref_chain_sends])
     (simp add: ref_scheduled)

definition slow_handler :: handler where
  "slow_handler req = Completed 40000 (throw (Runtime_error ''no database''))"

definition slow_connection :: "unit connection" where
  "slow_connection = ref_connection\<lparr>cn_object := Alive (ref_http_handler\<lparr>hh_handler := Some slow_handler\<rparr>)\<rparr>"

lemma slow_new_connection:
  "new_connection ref_iobuf 30000 ref_router (Some slow_handler) (plain_message ''/hello'') = ok slow_connection"
  by (simp add: new_connection_def new_HTTPHandler_def onRequest_def slow_connection_def ref_connection_def
      ref_http_handler_def) (simp add: ref_iobuf_def)

lemma slow_chain_sends:
  "sent (response_chain ref_iobuf ref_futures 30000 ref_router (Some slow_handler) req) = Some (30000, empty_response 503)"
proof -
  have "response_chain ref_iobuf ref_futures 30000 ref_router (Some slow_handler) req =
      delay (nat (sint (30000 :: int64))) (last_resort ref_iobuf
        (case rt_errorRoutes ref_router 503 of None \<Rightarrow> Completed 0 (ok (empty_response 503))
         | Some f \<Rightarrow> call_function f req))"
    by (rule chain_late [OF ref_futures_law ref_iobuf_law])
       (simp_all add: ref_scheduled call_function_def slow_handler_def late_def)
  then show ?thesis by (simp add: sent_def ref_no_errors)
qed

lemma late_failure_use_after_free_witness:
  "\<exists>cn. conn_reachable ref_folly ref_iobuf ref_futures 0 False slow_connection cn \<and>
    conn_step ref_folly ref_iobuf ref_futures 0 False cn
      (Inl (Abort (Undefined_behaviour ''use of a deleted handler'')))"
  by (rule late_failure_use_after_free [OF ref_folly_laws(1) slow_new_connection _ _ _ _ slow_chain_sends,
        where e = "Runtime_error ''no database''" and t = 40000])
     (simp_all add: ref_scheduled call_function_def slow_handler_def)

end
