(* ===== verification/Plain_Requests.thy ===== *)
theory Plain_Requests
  imports Server_Life Http_Connection
begin

text \<open>
  A request for a plain handler from the factory to the end of its message, and the course of its
  connection from there.
\<close>

section \<open>A request from the factory to the response\<close>

text \<open>
  What proxygen does with a request for a plain handler: it asks the factory, passes the
  message, the parts of the body and the end of the message, and the handler's future is the
  result.
\<close>

definition serve_plain ::
  "folly_lib \<Rightarrow> regex_lib \<Rightarrow> iobuf_lib \<Rightarrow> futures_lib \<Rightarrow> 'h handler_factory \<Rightarrow> http_message
     \<Rightarrow> iobuf list \<Rightarrow> 'h http_handler option outcome" where
  "serve_plain F R B X fac m bodies =
     bind (factory_onRequest F R B X fac (Some m)) (\<lambda>made. case made of
         Some (Plain_handler h) \<Rightarrow>
           bind (Http_Handler.onRequest h (Some m)) (\<lambda>h.
           bind (fold_outcome (onBody B) h bodies) (\<lambda>h.
           bind (onEOM F B X h) (\<lambda>h. ok (Some h))))
       | _ \<Rightarrow> ok None)"

lemma bodies_collected:
  assumes "iobuf_law B" and "hh_body h = Some b"
  shows "fold_outcome (onBody B) h bodies = ok (h\<lparr>hh_body := Some (b @ concat bodies)\<rparr>)"
  using assms(2)
proof (induction bodies arbitrary: h b)
  case (Cons buf bodies)
  have "io_prependChain B b buf = b @ buf"
    using assms(1) by (simp add: iobuf_law_def)
  with Cons.prems have "onBody B h buf = ok (h\<lparr>hh_body := Some (b @ buf)\<rparr>)"
    by (simp add: onBody_def)
  with Cons.IH [of "h\<lparr>hh_body := Some (b @ buf)\<rparr>" "b @ buf"] show ?case
    by simp
qed simp

text \<open>The request a handler sees.\<close>

definition request_of :: "folly_lib \<Rightarrow> http_message \<Rightarrow> iobuf list \<Rightarrow> http_request" where
  "request_of F m bodies = \<lparr>req_message = m, req_body = [[]] @ concat bodies,
     req_path = effective_path F m, req_method = effective_method m\<rparr>"

lemma serve_plain_steps:
  assumes "unescape_law F" and "iobuf_law B"
    and "getHandler F R B X (hf_router fac) (Some m) = ok x" and "rm_handler x = Some handler"
    and "T = cf_requestTimeout (hf_config fac)" and "req = request_of F m bodies"
  shows "\<exists>h1 h2 h. new_connection B T (hf_router fac) (Some handler) m =
      ok \<lparr>cn_object = Alive h1, cn_wire = [], cn_future = None, cn_stale = []\<rparr> \<and>
    fold_outcome (onBody B) h1 bodies = ok h2 \<and> onEOM F B X h2 = ok h \<and>
    serve_plain F R B X fac m bodies = ok (Some h) \<and> hh_request h1 = None \<and>
    hh_timeout h2 = T \<and> hh_handler h2 = Some handler \<and> hh_timeout h = T \<and> hh_handler h = Some handler \<and>
    hh_request h = Some req \<and> hh_response h = Some (response_chain B X T (hf_router fac) (Some handler) req)"
proof -
  let ?h = "\<lparr>hh_timeout = T, hh_router = hf_router fac, hh_handler = Some handler, hh_body = Some [[]],
      hh_message = None, hh_request = None, hh_response = None\<rparr>"
  let ?h1 = "?h\<lparr>hh_message := Some m\<rparr>"
  let ?h2 = "?h1\<lparr>hh_body := Some ([[]] @ concat bodies)\<rparr>"
  let ?h3 = "?h2\<lparr>hh_message := None, hh_body := None, hh_request := Some req,
      hh_response := Some (response_chain B X T (hf_router fac) (Some handler) req)\<rparr>"
  have made: "factory_onRequest F R B X fac (Some m) = ok (Some (Plain_handler ?h))"
    using factory_onRequest_plain [OF assms(3,4)] assms(2,5) by (simp add: iobuf_law_def)
  have got: "Http_Handler.onRequest ?h (Some m) = ok ?h1"
    by (simp add: Http_Handler.onRequest_def)
  have new: "new_connection B T (hf_router fac) (Some handler) m =
      ok \<lparr>cn_object = Alive ?h1, cn_wire = [], cn_future = None, cn_stale = []\<rparr>"
    using assms(2) by (simp add: new_connection_def new_HTTPHandler_def got iobuf_law_def)
  have read: "fold_outcome (onBody B) ?h1 bodies = ok ?h2"
    using bodies_collected [OF assms(2), of ?h1 "[[]]"] by simp
  have "onEOM F B X ?h2 = ok ?h3"
    using onEOM_eq [OF assms(1), of ?h2 m "[[]] @ concat bodies" B X] assms(6) by (simp add: request_of_def)
  with made got new read show ?thesis
    by (intro exI [of _ ?h1] exI [of _ ?h2] exI [of _ ?h3]) (simp add: serve_plain_def)
qed

lemma serve_plain_eq:
  assumes "unescape_law F" and "iobuf_law B"
    and "getHandler F R B X (hf_router fac) (Some m) = ok x" and "rm_handler x = Some handler"
  shows "\<exists>h. serve_plain F R B X fac m bodies = ok (Some h) \<and>
    hh_request h = Some (request_of F m bodies) \<and>
    hh_response h = Some (response_chain B X (cf_requestTimeout (hf_config fac)) (hf_router fac)
      (Some handler) (request_of F m bodies))"
  using serve_plain_steps [OF assms refl refl] by blast

section \<open>The connection after the end of the message\<close>

text \<open>The connection of a handler that has just made its future, \<open>lag\<close> milliseconds before it is started.\<close>

definition answering :: "nat \<Rightarrow> 'h http_handler \<Rightarrow> 'h connection" where
  "answering lag h = \<lparr>cn_object = Alive h, cn_wire = [], cn_future = hh_response h,
     cn_stale = (case hh_request h of None \<Rightarrow> []
       | Some req \<Rightarrow> stale_stages (hh_timeout h) lag (call_function (hh_handler h) req))\<rparr>"

text \<open>Before the response, between the response and the completion, and after it.\<close>

definition answer_states :: "iobuf_lib \<Rightarrow> nat \<Rightarrow> 'h http_handler \<Rightarrow> http_response \<Rightarrow> 'h connection list" where
  "answer_states B lag h r = (let cn = answering lag h; sent = cn\<lparr>cn_wire := sendResponse B r, cn_future := None\<rparr> in
     [cn, sent, sent\<lparr>cn_object := Deleted\<rparr>])"

lemma answer_step:
  assumes "hh_request h \<noteq> None" and "hh_response h = Some c" and "sent c = Some (t, r)"
    and "cn_stale (answering lag h) = []" and "cn = answer_states B lag h r ! i" and "i < 3"
  shows "conn_step F B X lag False cn res \<longleftrightarrow> (i < 2 \<and> res = ok (answer_states B lag h r ! Suc i))"
proof -
  have three: "i = 0 \<or> i = 1 \<or> i = 2" using assms(6) by linarith
  have wire: "sendResponse B r \<noteq> []" by (simp add: sendResponse_def)
  show ?thesis
    using three assms(1-5) wire
    by (elim disjE; simp add: answer_states_def Let_def answering_def conn_step.simps)
       (auto simp: then_callback_def requestComplete_def use_object_def)
qed

text \<open>It is what proxygen's callbacks lead to, and the response's future is its own.\<close>

lemma conn_reachable_first:
  "conn_reachable F B X lag errors cn1 cn2 \<Longrightarrow> conn_step F B X lag errors cn (ok cn1) \<Longrightarrow>
   conn_reachable F B X lag errors cn cn2"
  by (induction rule: conn_reachable.induct) (auto intro: conn_reachable.intros)

lemma bodies_reached:
  assumes "fold_outcome (onBody B) h bodies = ok h'" and "cn_object cn = Alive h" and "hh_request h = None"
  shows "conn_reachable F B X lag errors cn (cn\<lparr>cn_object := Alive h'\<rparr>) \<and> hh_request h' = None"
  using assms
proof (induction bodies arbitrary: h cn)
  case Nil
  then have same: "cn\<lparr>cn_object := Alive h'\<rparr> = cn" by (cases cn) simp
  from Nil show ?case unfolding same by (simp add: conn_reachable.start)
next
  case (Cons buf bodies)
  then obtain h1 where h1: "onBody B h buf = ok h1" "fold_outcome (onBody B) h1 bodies = ok h'"
    by (auto simp: bind_eq_Inr)
  have "hh_request h1 = None"
    using h1(1) Cons.prems(3) by (auto simp: onBody_def split: option.splits)
  moreover have "conn_step F B X lag errors cn (ok (cn\<lparr>cn_object := Alive h1\<rparr>))"
    using conn_step.body [OF Cons.prems(2,3), of F B X lag errors buf] h1(1) by simp
  ultimately show ?case
    using Cons.IH [OF h1(2), of "cn\<lparr>cn_object := Alive h1\<rparr>"] by (auto intro: conn_reachable_first)
qed

lemma answering_reached:
  assumes "unescape_law F" and "iobuf_law B"
    and "getHandler F R B X (hf_router fac) (Some m) = ok x" and "rm_handler x = Some handler"
    and "T = cf_requestTimeout (hf_config fac)" and "req = request_of F m bodies"
    and "scheduled X (Some handler) req = delay lag (call_function (Some handler) req)"
  shows "\<exists>h cn0. serve_plain F R B X fac m bodies = ok (Some h) \<and> hh_request h = Some req \<and>
    hh_response h = Some (response_chain B X T (hf_router fac) (Some handler) req) \<and>
    cn_stale (answering lag h) = stale_stages T lag (call_function (Some handler) req) \<and>
    new_connection B T (hf_router fac) (Some handler) m = ok cn0 \<and>
    conn_reachable F B X lag errors cn0 (answering lag h)"
proof -
  obtain h1 h2 h where h: "new_connection B T (hf_router fac) (Some handler) m =
      ok \<lparr>cn_object = Alive h1, cn_wire = [], cn_future = None, cn_stale = []\<rparr>"
      "fold_outcome (onBody B) h1 bodies = ok h2" "onEOM F B X h2 = ok h"
      "serve_plain F R B X fac m bodies = ok (Some h)" "hh_request h1 = None"
      "hh_timeout h2 = T" "hh_handler h2 = Some handler" "hh_timeout h = T" "hh_handler h = Some handler"
      "hh_request h = Some req" "hh_response h = Some (response_chain B X T (hf_router fac) (Some handler) req)"
    using serve_plain_steps [OF assms(1-6)] by blast
  let ?cn0 = "\<lparr>cn_object = Alive h1, cn_wire = [], cn_future = None, cn_stale = []\<rparr>"
  have read: "conn_reachable F B X lag errors ?cn0 (?cn0\<lparr>cn_object := Alive h2\<rparr>)" "hh_request h2 = None"
    using bodies_reached [OF h(2), of ?cn0 F X lag errors] h(5) by simp_all
  have "conn_step F B X lag errors (?cn0\<lparr>cn_object := Alive h2\<rparr>) (ok (answering lag h))"
    using conn_step.eom [of "?cn0\<lparr>cn_object := Alive h2\<rparr>" h2 F B X h req lag errors] read(2) h(3,6-11) assms(7)
    by (simp add: answering_def)
  with read(1) have "conn_reachable F B X lag errors ?cn0 (answering lag h)"
    by (rule conn_reachable.step)
  with h show ?thesis
    by (intro exI [of _ h] exI [of _ ?cn0]) (simp add: answering_def)
qed

lemma answer_reachable:
  assumes "conn_reachable F B X lag False (answering lag h) cn" and "hh_request h \<noteq> None"
    and "hh_response h = Some c" and "sent c = Some (t, r)" and "cn_stale (answering lag h) = []"
  shows "\<exists>i < 3. cn = answer_states B lag h r ! i"
  using assms(1)
proof (induction rule: conn_reachable.induct)
  case start
  have "answering lag h = answer_states B lag h r ! 0" by (simp add: answer_states_def Let_def)
  then show ?case by (intro exI [of _ 0]) simp
next
  case (step cn cn')
  then obtain i where i: "i < 3" "cn = answer_states B lag h r ! i" by blast
  with answer_step [OF assms(2-5) i(2,1)] step(2) have "i < 2" "cn' = answer_states B lag h r ! Suc i" by auto
  then show ?case by (intro exI [of _ "Suc i"]) simp
qed

lemma answer_no_run:
  assumes "hh_request h \<noteq> None" and "hh_response h = Some c" and "sent c = Some (t, r)"
    and "cn_stale (answering lag h) = []"
  shows "\<nexists>run. run 0 = answering lag h \<and> (\<forall>i. conn_step F B X lag False (run i) (ok (run (Suc i))))"
proof
  assume "\<exists>run. run 0 = answering lag h \<and> (\<forall>i. conn_step F B X lag False (run i) (ok (run (Suc i))))"
  then obtain run where run: "run 0 = answering lag h" "\<And>i. conn_step F B X lag False (run i) (ok (run (Suc i)))"
    by blast
  have "i < 3 \<Longrightarrow> run i = answer_states B lag h r ! i" for i
  proof (induction i)
    case 0
    show ?case by (simp add: run(1) answer_states_def Let_def)
  next
    case (Suc i)
    with answer_step [OF assms] run(2) [of i] show ?case by auto
  qed
  from answer_step [OF assms this [of 2]] run(2) [of 2] show False by auto
qed

text \<open>The whole course of the connection.\<close>

lemma answer_course:
  assumes "hh_request h \<noteq> None" and "hh_response h = Some c" and "sent c = Some (t, r)"
    and "cn_stale (answering lag h) = []" and "conn_reachable F B X lag False (answering lag h) cn"
  shows "(\<nexists>f. conn_step F B X lag False cn (Inl f)) \<and> (cn_wire cn = [] \<or> cn_wire cn = sendResponse B r) \<and>
    ((\<exists>cn'. conn_step F B X lag False cn (ok cn')) \<or> cn_object cn = Deleted \<and> cn_wire cn = sendResponse B r)"
proof -
  obtain i where i: "i < 3" "cn = answer_states B lag h r ! i"
    using answer_reachable [OF assms(5,1-4)] by blast
  then have "i = 0 \<or> i = 1 \<or> i = 2" by linarith
  then have "(cn_wire cn = [] \<or> cn_wire cn = sendResponse B r) \<and>
      (i < 2 \<or> cn_object cn = Deleted \<and> cn_wire cn = sendResponse B r)"
    using i(2) by (auto simp: answer_states_def Let_def answering_def)
  with answer_step [OF assms(1-4) i(2,1)] show ?thesis by auto
qed

end
