(* ===== verification/Post_Parser.thy ===== *)
theory Post_Parser
  imports Requests
begin

text \<open>
  \<open>src/PostParser.h\<close> and \<open>src/PostParser.cpp\<close>: the fields of a posted form. The parsed data,
  an \<open>unordered_map\<close> from names to vectors of buffers, is a map to lists.
\<close>

section \<open>The map of vectors\<close>

type_synonym form = "string \<rightharpoonup> iobuf list"

definition no_fields :: form where
  "no_fields = (\<lambda>_. None)"

text \<open>\<open>ret[key].push_back(value)\<close>, which makes the entry when it is not there.\<close>

definition push_field :: "form \<Rightarrow> string \<Rightarrow> iobuf \<Rightarrow> form" where
  "push_field ret key value = (case ret key of
       None \<Rightarrow> ret(key \<mapsto> [value])
     | Some values \<Rightarrow> ret(key \<mapsto> values @ [value]))"

section \<open>Parsing\<close>

definition split_field :: "folly_lib \<Rightarrow> string \<Rightarrow> string \<times> string" where
  "split_field F keyValueString = (case fl_split2 F ''='' keyValueString of
       None \<Rightarrow> (keyValueString, [])
     | Some (key, value) \<Rightarrow> (key, value))"

definition unescape_or_keep :: "folly_lib \<Rightarrow> string \<Rightarrow> string outcome" where
  "unescape_or_keep F s = catch_std (fl_uriUnescape F QUERY s) (\<lambda>e. ok s)"

definition unescape_field :: "folly_lib \<Rightarrow> string \<times> string \<Rightarrow> (string \<times> string) outcome" where
  "unescape_field F kvp =
     bind (unescape_or_keep F (fst kvp)) (\<lambda>key.
     bind (unescape_or_keep F (snd kvp)) (\<lambda>value. ok (key, value)))"

definition parseUrlEncoded :: "folly_lib \<Rightarrow> iobuf_lib \<Rightarrow> iobuf \<Rightarrow> form outcome" where
  "parseUrlEncoded F B body =
     bind (to_string body) (\<lambda>asString.
     bind (map_outcome (unescape_field F) (map (split_field F)
             (filter (\<lambda>keyValueString. keyValueString \<noteq> []) (fl_gen_split F asString ''&'')))) (\<lambda>kvps.
     ok (foldl (\<lambda>ret kvp. push_field ret (fst kvp) (io_copyBuffer B (snd kvp))) no_fields kvps)))"

definition parseFormData :: "iobuf \<Rightarrow> form" where
  "parseFormData body = no_fields"

definition parseRequest :: "folly_lib \<Rightarrow> iobuf_lib \<Rightarrow> http_request \<Rightarrow> iobuf \<Rightarrow> form outcome" where
  "parseRequest F B request body =
     (case getHeader (req_message request) HTTP_HEADER_CONTENT_TYPE of
        None \<Rightarrow> ok no_fields
      | Some contentType \<Rightarrow>
          if contentType = ''application/x-www-form-urlencoded'' then parseUrlEncoded F B body
          else if contentType = ''multipart/form-data'' then ok (parseFormData body)
          else ok no_fields)"

record post_parser =
  pp_originalBody :: iobuf
  pp_parsedData :: form

definition PostParser :: "folly_lib \<Rightarrow> iobuf_lib \<Rightarrow> http_request \<Rightarrow> post_parser outcome" where
  "PostParser F B request =
     (let originalBody = getBodyAsBytes B request in
      bind (parseRequest F B request originalBody) (\<lambda>parsedData.
        ok \<lparr>pp_originalBody = originalBody, pp_parsedData = parsedData\<rparr>))"

section \<open>Lookups\<close>

text \<open>\<open>front()\<close> of an empty vector is undefined behaviour.\<close>

definition front :: "'a list \<Rightarrow> 'a outcome" where
  "front xs = (case xs of [] \<Rightarrow> Inl (Abort (Undefined_behaviour ''front() of an empty vector'')) | x # _ \<Rightarrow> ok x)"

definition getString :: "post_parser \<Rightarrow> string \<Rightarrow> string option outcome" where
  "getString pp key = (case pp_parsedData pp key of
       None \<Rightarrow> ok None
     | Some bufs \<Rightarrow> bind (front bufs) (\<lambda>buf. bind (to_string buf) (\<lambda>s. ok (Some s))))"

definition getStringList :: "post_parser \<Rightarrow> string \<Rightarrow> string list option outcome" where
  "getStringList pp key = (case pp_parsedData pp key of
       None \<Rightarrow> ok None
     | Some bufs \<Rightarrow> bind (map_outcome to_string bufs) (\<lambda>ss. ok (Some ss)))"

definition getBinary :: "iobuf_lib \<Rightarrow> post_parser \<Rightarrow> string \<Rightarrow> iobuf option outcome" where
  "getBinary B pp key = (case pp_parsedData pp key of
       None \<Rightarrow> ok None
     | Some bufs \<Rightarrow> bind (front bufs) (\<lambda>buf. ok (Some (io_clone B buf))))"

definition getBinaryList :: "iobuf_lib \<Rightarrow> post_parser \<Rightarrow> string \<Rightarrow> iobuf list option" where
  "getBinaryList B pp key = (case pp_parsedData pp key of
       None \<Rightarrow> None
     | Some bufs \<Rightarrow> Some (map (io_clone B) bufs))"

section \<open>The interface of a map of vectors\<close>

locale multimap =
  fixes empty_map :: 'm
    and push :: "'m \<Rightarrow> 'k \<Rightarrow> 'v \<Rightarrow> 'm"
    and lookup :: "'m \<Rightarrow> 'k \<Rightarrow> 'v list option"
  assumes lookup_empty: "lookup empty_map k = None"
    and lookup_push: "lookup (push m k v) k' =
      (if k' = k then Some ((case lookup m k of None \<Rightarrow> [] | Some vs \<Rightarrow> vs) @ [v]) else lookup m k')"
begin

definition push_all :: "('k \<times> 'v) list \<Rightarrow> 'm" where
  "push_all kvs = foldl (\<lambda>m kv. push m (fst kv) (snd kv)) empty_map kvs"

text \<open>The values under a key are those pushed under it, in order; no key has no value.\<close>

lemma lookup_push_all:
  "lookup (push_all kvs) k =
     (if k \<in> fst ` set kvs then Some (map snd (filter (\<lambda>kv. fst kv = k) kvs)) else None)"
proof (induction kvs rule: rev_induct)
  case Nil
  then show ?case by (simp add: push_all_def lookup_empty)
next
  case (snoc kv kvs)
  have "push_all (kvs @ [kv]) = push (push_all kvs) (fst kv) (snd kv)"
    by (simp add: push_all_def)
  moreover have "k \<notin> fst ` set kvs \<Longrightarrow> filter (\<lambda>kv. fst kv = k) kvs = []"
    by (auto simp: filter_empty_conv)
  ultimately show ?case
    using snoc by (auto simp: lookup_push)
qed

lemma push_all_nonempty: "lookup (push_all kvs) k \<noteq> Some []"
  by (auto simp: lookup_push_all filter_empty_conv)

end

interpretation fields: multimap no_fields push_field "\<lambda>m. m"
  by unfold_locales (auto simp: no_fields_def push_field_def split: option.splits)

section \<open>What parsing yields\<close>

definition unescape_kept :: "folly_lib \<Rightarrow> string \<Rightarrow> string" where
  "unescape_kept F s = value_or (unescaped F QUERY s) s"

lemma unescape_or_keep_eq: "unescape_law F \<Longrightarrow> unescape_or_keep F s = ok (unescape_kept F s)"
  by (cases rule: unescape_cases [of F QUERY s])
     (simp_all add: unescape_or_keep_def unescape_kept_def value_or_def)

text \<open>The fields of a form as text, in order.\<close>

definition form_fields :: "folly_lib \<Rightarrow> string \<Rightarrow> (string \<times> string) list" where
  "form_fields F s = map (\<lambda>p. case cut CHR ''='' p of
       None \<Rightarrow> (unescape_kept F p, unescape_kept F [])
     | Some (k, v) \<Rightarrow> (unescape_kept F k, unescape_kept F v))
     (filter (\<lambda>p. p \<noteq> []) (pieces CHR ''&'' s))"

lemma unescape_field_eq:
  "unescape_law F \<Longrightarrow> unescape_field F kvp = ok (unescape_kept F (fst kvp), unescape_kept F (snd kvp))"
  by (simp add: unescape_field_def unescape_or_keep_eq)

lemma parseUrlEncoded_eq:
  assumes "unescape_law F" and "gen_split_law F" and "split2_law F" and "to_string body = ok s"
  shows "parseUrlEncoded F B body =
    ok (fields.push_all (map (\<lambda>(k, v). (k, io_copyBuffer B v)) (form_fields F s)))"
proof -
  have "map_outcome (unescape_field F) kvps =
      ok (map (\<lambda>kvp. (unescape_kept F (fst kvp), unescape_kept F (snd kvp))) kvps)" for kvps
    by (rule map_outcome_ok) (simp add: unescape_field_eq [OF assms(1)])
  moreover have "filter (\<lambda>p. p \<noteq> []) (fl_gen_split F s ''&'') = filter (\<lambda>p. p \<noteq> []) (pieces CHR ''&'' s)"
    using assms(2) by (simp add: gen_split_law_def)
  moreover have "map (\<lambda>kvp. (unescape_kept F (fst kvp), unescape_kept F (snd kvp)))
      (map (split_field F) (filter (\<lambda>p. p \<noteq> []) (pieces CHR ''&'' s))) = form_fields F s"
    using assms(3) by (auto simp: form_fields_def split_field_def split2_law_def split: option.split)
  ultimately have "parseUrlEncoded F B body =
      ok (foldl (\<lambda>ret kvp. push_field ret (fst kvp) (io_copyBuffer B (snd kvp))) no_fields (form_fields F s))"
    by (simp only: parseUrlEncoded_def assms(4) bind_simps)
  then show ?thesis
    by (simp add: fields.push_all_def foldl_map case_prod_unfold)
qed

lemma parseUrlEncoded_push_all:
  "parseUrlEncoded F B body = ok form \<Longrightarrow> \<exists>kvs. form = fields.push_all kvs"
proof -
  assume "parseUrlEncoded F B body = ok form"
  then obtain kvps where
    "form = foldl (\<lambda>ret kvp. push_field ret (fst kvp) (io_copyBuffer B (snd kvp))) no_fields kvps"
    by (auto simp: parseUrlEncoded_def bind_eq_Inr)
  then have "form = fields.push_all (map (\<lambda>(k, v). (k, io_copyBuffer B v)) kvps)"
    by (simp add: fields.push_all_def foldl_map case_prod_unfold)
  then show ?thesis by blast
qed

lemma parseRequest_push_all:
  "parseRequest F B request body = ok form \<Longrightarrow> \<exists>kvs. form = fields.push_all kvs"
proof -
  assume "parseRequest F B request body = ok form"
  moreover have "no_fields = fields.push_all []"
    by (simp add: fields.push_all_def)
  ultimately show ?thesis
    using parseUrlEncoded_push_all
    by (fastforce simp: parseRequest_def parseFormData_def split: option.splits if_splits)
qed

subsection \<open>A form as a browser writes it\<close>

fun form_text :: "(string \<Rightarrow> string) \<Rightarrow> (string \<times> string) list \<Rightarrow> string" where
  "form_text enc [] = []"
| "form_text enc [(k, v)] = enc k @ CHR ''='' # enc v"
| "form_text enc ((k, v) # kv # kvs) = enc k @ CHR ''='' # enc v @ CHR ''&'' # form_text enc (kv # kvs)"

definition encodes :: "folly_lib \<Rightarrow> (string \<Rightarrow> string) \<Rightarrow> string \<Rightarrow> bool" where
  "encodes F enc s \<longleftrightarrow> unescaped F QUERY (enc s) = Some s \<and>
     CHR ''&'' \<notin> set (enc s) \<and> CHR ''='' \<notin> set (enc s)"

lemma pieces_cut:
  "d \<notin> set a \<Longrightarrow> pieces d (a @ d # b) = a # pieces d b" "d \<notin> set a \<Longrightarrow> pieces d a = [a]"
  by (induction a) auto

lemma cut_append: "d \<notin> set a \<Longrightarrow> cut d (a @ d # b) = Some (a, b)"
  by (induction a) auto

lemma pieces_form_text:
  "\<forall>(k, v) \<in> set kvs. encodes F enc k \<and> encodes F enc v \<Longrightarrow> kvs \<noteq> [] \<Longrightarrow>
   pieces CHR ''&'' (form_text enc kvs) = map (\<lambda>(k, v). enc k @ CHR ''='' # enc v) kvs"
proof (induction enc kvs rule: form_text.induct)
  case (2 enc k v)
  then show ?case
    using pieces_cut(2) [of "CHR ''&''" "enc k @ CHR ''='' # enc v"] by (simp add: encodes_def)
next
  case (3 enc k v kv kvs)
  then have "CHR ''&'' \<notin> set (enc k @ CHR ''='' # enc v)"
    by (auto simp: encodes_def)
  from pieces_cut(1) [OF this, of "form_text enc (kv # kvs)"] 3 show ?case
    by simp
qed simp

lemma form_fields_text:
  assumes "\<forall>(k, v) \<in> set kvs. encodes F enc k \<and> encodes F enc v"
  shows "form_fields F (form_text enc kvs) = kvs"
proof (cases "kvs = []")
  case False
  have "filter (\<lambda>p. p \<noteq> []) (map (\<lambda>(k, v). enc k @ CHR ''='' # enc v) kvs) =
      map (\<lambda>(k, v). enc k @ CHR ''='' # enc v) kvs"
    by (simp add: filter_id_conv) auto
  moreover have "(case cut CHR ''='' (enc k @ CHR ''='' # enc v) of
       None \<Rightarrow> (unescape_kept F (enc k @ CHR ''='' # enc v), unescape_kept F [])
     | Some (k, v) \<Rightarrow> (unescape_kept F k, unescape_kept F v)) = (k, v)" if "(k, v) \<in> set kvs" for k v
    using that assms by (auto simp: encodes_def cut_append unescape_kept_def value_or_def)
  ultimately show ?thesis
    unfolding form_fields_def pieces_form_text [OF assms False]
    by (auto intro!: map_idI)
qed (simp add: form_fields_def)

section \<open>Properties\<close>

definition is_url_encoded :: "http_request \<Rightarrow> bool" where
  "is_url_encoded request \<longleftrightarrow>
     msg_getSingleOrEmpty (req_message request) HTTP_HEADER_CONTENT_TYPE = ''application/x-www-form-urlencoded''"

lemma PostParser_url_encoded:
  assumes "is_url_encoded request" and "iobuf_law B" and "unescape_law F" and "gen_split_law F"
    and "split2_law F" and "to_string (req_body request) = ok s"
  shows "PostParser F B request = ok \<lparr>pp_originalBody = req_body request,
     pp_parsedData = fields.push_all (map (\<lambda>(k, v). (k, io_copyBuffer B v)) (form_fields F s))\<rparr>"
  using assms
  by (simp add: PostParser_def parseRequest_def is_url_encoded_def getHeader_def Let_def
      getBodyAsBytes_def iobuf_law_def parseUrlEncoded_eq)

definition field_values :: "(string \<times> string) list \<Rightarrow> string \<Rightarrow> string list" where
  "field_values kvs key = map snd (filter (\<lambda>kv. fst kv = key) kvs)"

lemma parsed_lookup:
  "fields.push_all (map (\<lambda>(k, v). (k, io_copyBuffer B v)) kvs) key =
     (if field_values kvs key = [] then None else Some (map (io_copyBuffer B) (field_values kvs key)))"
  by (force simp: fields.lookup_push_all field_values_def filter_map filter_empty_conv comp_def
      case_prod_unfold)

lemma copyBuffer_text:
  "iobuf_law B \<Longrightarrow> length v < 2 ^ 31 \<Longrightarrow> to_string (io_copyBuffer B v) = ok v"
  by (simp add: iobuf_law_def small_def)

lemma map_outcome_map: "map_outcome f (map g xs) = map_outcome (\<lambda>x. f (g x)) xs"
  by (induction xs) simp_all

lemma parser_answers:
  assumes "iobuf_law B" and "\<forall>(k, v) \<in> set kvs. length v < 2 ^ 31"
    and "pp_parsedData pp = fields.push_all (map (\<lambda>(k, v). (k, io_copyBuffer B v)) kvs)"
  shows "getStringList pp key =
      ok (if field_values kvs key = [] then None else Some (field_values kvs key)) \<and>
    getString pp key = ok (case field_values kvs key of [] \<Rightarrow> None | v # _ \<Rightarrow> Some v)"
proof -
  have "\<forall>v \<in> set (field_values kvs key). to_string (io_copyBuffer B v) = ok v"
    using assms(1,2) by (auto simp: field_values_def copyBuffer_text)
  moreover from this have "map_outcome to_string (map (io_copyBuffer B) (field_values kvs key)) =
      ok (field_values kvs key)"
    using map_outcome_ok [of "field_values kvs key" "\<lambda>v. to_string (io_copyBuffer B v)" "\<lambda>v. v"]
    by (simp add: map_outcome_map)
  ultimately show ?thesis
    by (auto simp: getStringList_def getString_def assms(3) parsed_lookup front_def
        split: list.splits)
qed

text \<open>
  C15. Round trip: a form written with any percent encoding the library decodes (and that leaves
  no \<open>&\<close> or \<open>=\<close> in the encoded text) comes back from the parser as it was: each name yields
  the list of its values in the order they were written, its first value alone, and nothing
  for a name that is not there.
\<close>

theorem form_round_trip:
  assumes "iobuf_law B" and "unescape_law F" and "gen_split_law F" and "split2_law F"
    and "is_url_encoded request" and "concat (req_body request) = form_text enc kvs"
    and "length (form_text enc kvs) < 2 ^ 31"
    and "\<forall>(k, v) \<in> set kvs. encodes F enc k \<and> encodes F enc v \<and> length v < 2 ^ 31"
  shows "\<exists>pp. PostParser F B request = ok pp \<and>
    (\<forall>key. getStringList pp key =
        ok (if field_values kvs key = [] then None else Some (field_values kvs key)) \<and>
      getString pp key = ok (case field_values kvs key of [] \<Rightarrow> None | v # _ \<Rightarrow> Some v))"
proof -
  have "to_string (req_body request) = ok (form_text enc kvs)"
    using assms(6,7) by (simp add: small_def)
  from PostParser_url_encoded [OF assms(5,1-4) this] form_fields_text [of kvs F enc] assms(8)
  have "PostParser F B request = ok \<lparr>pp_originalBody = req_body request,
     pp_parsedData = fields.push_all (map (\<lambda>(k, v). (k, io_copyBuffer B v)) kvs)\<rparr>"
    by fastforce
  then show ?thesis
    using parser_answers [OF assms(1), of kvs] assms(8) by fastforce
qed

text \<open>
  C35. Any form at all: the fields are the pieces between the ampersands that are not empty, cut
  at their first \<open>=\<close> (a piece without one is a name with an empty value), and text that does
  not decode is kept as it stands; a request with another content type has no fields.
\<close>

theorem form_parsed:
  assumes "iobuf_law B" and "unescape_law F" and "gen_split_law F" and "split2_law F"
    and "small (req_body request)"
    and "\<forall>(k, v) \<in> set (form_fields F (concat (req_body request))). length v < 2 ^ 31"
  shows "\<exists>pp. PostParser F B request = ok pp \<and> getStringList pp key =
    ok (let values = field_values (form_fields F (concat (req_body request))) key
        in if is_url_encoded request \<and> values \<noteq> [] then Some values else None)"
proof (cases "is_url_encoded request")
  case True
  from PostParser_url_encoded [OF True assms(1-4)] assms(5)
  have "PostParser F B request = ok \<lparr>pp_originalBody = req_body request,
     pp_parsedData = fields.push_all (map (\<lambda>(k, v). (k, io_copyBuffer B v))
       (form_fields F (concat (req_body request))))\<rparr>"
    by simp
  then show ?thesis
    using parser_answers [OF assms(1,6)] True by (fastforce simp: Let_def)
next
  case False
  then have "PostParser F B request = ok \<lparr>pp_originalBody = req_body request, pp_parsedData = no_fields\<rparr>"
    using assms(1)
    by (auto simp: PostParser_def parseRequest_def is_url_encoded_def getHeader_def Let_def
        getBodyAsBytes_def iobuf_law_def parseFormData_def)
  with False show ?thesis
    by (simp add: getStringList_def no_fields_def)
qed

text \<open>
  Whatever was parsed, no name is kept with an empty vector, so \<open>front()\<close> is never called
  on one and a lookup is never undefined behaviour.
\<close>

theorem parser_front_safe:
  assumes "PostParser F B request = ok pp"
  shows "pp_parsedData pp key \<noteq> Some [] \<and>
    getBinary B pp key = ok (map_option (\<lambda>bufs. io_clone B (hd bufs)) (pp_parsedData pp key))"
proof -
  have "parseRequest F B request (getBodyAsBytes B request) = ok (pp_parsedData pp)"
    using assms by (auto simp: PostParser_def bind_eq_Inr Let_def)
  then obtain kvs where "pp_parsedData pp = fields.push_all kvs"
    using parseRequest_push_all by blast
  then have "pp_parsedData pp key \<noteq> Some []"
    using fields.push_all_nonempty [of kvs key] by simp
  then show ?thesis
    by (auto simp: getBinary_def front_def split: option.splits list.splits)
qed

section \<open>Witnesses\<close>

definition ref_form :: "(string \<times> string) list" where
  "ref_form = [(''a'', ''1''), (''b'', ''x''), (''a'', ''2'')]"

definition ref_post :: http_request where
  "ref_post = \<lparr>req_message = (plain_message ''/form'')\<lparr>msg_getSingleOrEmpty := (\<lambda>k.
       if k = HTTP_HEADER_CONTENT_TYPE then ''application/x-www-form-urlencoded'' else [])\<rparr>,
     req_body = [''a=1&b=x'', ''&a=2''], req_path = ''/form'', req_method = Method ''POST''\<rparr>"

lemma form_round_trip_witness:
  "\<exists>pp. PostParser ref_folly ref_iobuf ref_post = ok pp \<and>
    (\<forall>key. getStringList pp key =
        ok (if field_values ref_form key = [] then None else Some (field_values ref_form key)) \<and>
      getString pp key = ok (case field_values ref_form key of [] \<Rightarrow> None | v # _ \<Rightarrow> Some v))"
  by (rule form_round_trip [OF ref_iobuf_law ref_folly_laws(1,4,5), where enc = "\<lambda>s. s"])
     (simp_all add: ref_post_def ref_form_def is_url_encoded_def encodes_def unescaped_def ref_folly_def)

lemma form_parsed_witness:
  "\<exists>pp. PostParser ref_folly ref_iobuf ref_post = ok pp \<and> getStringList pp ''a'' =
    ok (let values = field_values (form_fields ref_folly (concat (req_body ref_post))) ''a''
        in if is_url_encoded ref_post \<and> values \<noteq> [] then Some values else None)"
  by (rule form_parsed [OF ref_iobuf_law ref_folly_laws(1,4,5)])
     (simp_all add: ref_post_def small_def form_fields_def unescape_kept_def unescaped_def value_or_def
       ref_folly_def)

lemma parser_front_safe_witness:
  "\<exists>pp. PostParser ref_folly ref_iobuf (ref_post\<lparr>req_message := plain_message ''/''\<rparr>) = ok pp \<and>
     pp_parsedData pp ''a'' \<noteq> Some [] \<and>
     getBinary ref_iobuf pp ''a'' = ok (map_option (\<lambda>bufs. io_clone ref_iobuf (hd bufs)) (pp_parsedData pp ''a''))"
proof -
  have "PostParser ref_folly ref_iobuf (ref_post\<lparr>req_message := plain_message ''/''\<rparr>) =
      ok \<lparr>pp_originalBody = [''a=1&b=x'', ''&a=2''], pp_parsedData = no_fields\<rparr>"
    by (simp add: PostParser_def parseRequest_def getHeader_def plain_message_def ref_post_def
        getBodyAsBytes_def ref_iobuf_def)
  from this parser_front_safe [OF this] show ?thesis by blast
qed

end
