(* ===== verification/Enum_Hash.thy ===== *)
theory Enum_Hash
  imports Static_Route
begin

text \<open>
  \<open>src/EnumHash.h\<close>: the hash of an enumerator is that of its underlying value. What the library
  uses it for is \<open>std::unordered_set<proxygen::HTTPMethod>\<close>, the methods of a route: a table of
  buckets that a hash picks from. The routes are modelled with sets; here is why they may be.
\<close>

section \<open>The hash of an enumerator\<close>

definition enum_hash :: "('u \<Rightarrow> size_t) \<Rightarrow> ('e \<Rightarrow> 'u) \<Rightarrow> 'e \<Rightarrow> size_t" where
  "enum_hash std_hash underlying e = std_hash (underlying e)"

section \<open>A set of enumerators\<close>

text \<open>
  \<open>std::unordered_set\<close>: insertion of an element that is not there yet, growing the table to
  another number of buckets, and \<open>find(x) != end()\<close>.
\<close>

type_synonym 'e buckets = "'e list list"

definition bucket_of :: "('e \<Rightarrow> size_t) \<Rightarrow> 'e buckets \<Rightarrow> 'e \<Rightarrow> nat" where
  "bucket_of hash t x = unat (hash x) mod length t"

definition finds_in :: "('e \<Rightarrow> size_t) \<Rightarrow> 'e buckets \<Rightarrow> 'e \<Rightarrow> bool" where
  "finds_in hash t x \<longleftrightarrow> t \<noteq> [] \<and> List.member (t ! bucket_of hash t x) x"

definition insert_in :: "('e \<Rightarrow> size_t) \<Rightarrow> 'e \<Rightarrow> 'e buckets \<Rightarrow> 'e buckets" where
  "insert_in hash x t = (if finds_in hash t x then t
     else let i = bucket_of hash t x in t[i := x # t ! i])"

definition rehash :: "('e \<Rightarrow> size_t) \<Rightarrow> nat \<Rightarrow> 'e buckets \<Rightarrow> 'e buckets" where
  "rehash hash n t = fold (insert_in hash) (concat t) (replicate n [])"

definition table_inv :: "('e \<Rightarrow> size_t) \<Rightarrow> 'e buckets \<Rightarrow> bool" where
  "table_inv hash t \<longleftrightarrow> t \<noteq> [] \<and> (\<forall>i < length t. \<forall>x \<in> set (t ! i). bucket_of hash t x = i)"

abbreviation elements :: "'e buckets \<Rightarrow> 'e set" where
  "elements t \<equiv> set (concat t)"

lemma bucket_bound [simp]: "t \<noteq> [] \<Longrightarrow> bucket_of hash t x < length t"
  by (simp add: bucket_of_def)

lemma finds_in_elements:
  assumes "table_inv hash t"
  shows "finds_in hash t x \<longleftrightarrow> x \<in> elements t"
proof
  assume "finds_in hash t x"
  then have "x \<in> set (t ! bucket_of hash t x)" "t ! bucket_of hash t x \<in> set t"
    by (simp_all add: finds_in_def)
  then show "x \<in> elements t" by auto
next
  assume "x \<in> elements t"
  then obtain i where "i < length t" "x \<in> set (t ! i)"
    by (auto simp: in_set_conv_nth [of _ t])
  with assms show "finds_in hash t x"
    by (auto simp: table_inv_def finds_in_def)
qed

lemma replicate_inv: "n \<noteq> 0 \<Longrightarrow> table_inv hash (replicate n [])"
  by (simp add: table_inv_def)

lemma insert_in_table:
  assumes "table_inv hash t"
  shows "table_inv hash (insert_in hash x t) \<and> elements (insert_in hash x t) = insert x (elements t)"
proof (cases "finds_in hash t x")
  case True
  with assms show ?thesis
    using finds_in_elements [OF assms] by (auto simp: insert_in_def)
next
  case False
  let ?i = "bucket_of hash t x"
  have i: "?i < length t" using assms by (simp add: table_inv_def)
  then have "set (t[?i := x # t ! ?i]) = insert (x # t ! ?i) (set (take ?i t) \<union> set (drop (Suc ?i) t))"
    by (simp add: upd_conv_take_nth_drop)
  moreover have "set t = insert (t ! ?i) (set (take ?i t) \<union> set (drop (Suc ?i) t))"
    using i by (metis Un_insert_right id_take_nth_drop list.simps(15) set_append)
  moreover have "table_inv hash (t[?i := x # t ! ?i])"
    using assms i by (auto simp: table_inv_def bucket_of_def nth_list_update)
  ultimately show ?thesis
    using False by (simp add: insert_in_def Let_def)
qed

lemma inserts_in_table:
  "table_inv hash t \<Longrightarrow> table_inv hash (fold (insert_in hash) xs t) \<and>
   elements (fold (insert_in hash) xs t) = set xs \<union> elements t"
  by (induction xs arbitrary: t) (simp_all add: insert_in_table del: set_concat)

lemma rehash_table:
  "n \<noteq> 0 \<Longrightarrow> table_inv hash (rehash hash n t) \<and> elements (rehash hash n t) = elements t"
  using inserts_in_table [OF replicate_inv, of n hash "concat t"] by (simp add: rehash_def)

section \<open>The methods of a route\<close>

text \<open>
  With the methods in such a table, made from the list in a constructor call and grown at any
  time, whatever the hash of the underlying type, a route answers as with the set.
\<close>

lemma methods_table:
  assumes "n \<noteq> 0" and "k \<noteq> 0"
  shows "finds_in (enum_hash std_hash underlying)
    (rehash (enum_hash std_hash underlying) k
      (fold (insert_in (enum_hash std_hash underlying)) ms (replicate n []))) e \<longleftrightarrow> e \<in> set ms"
  (is "finds_in ?hash (rehash _ _ ?t) e \<longleftrightarrow> _")
proof -
  have "elements ?t = set ms"
    using inserts_in_table [OF replicate_inv [OF assms(1)], of ?hash ms] by simp
  with rehash_table [OF assms(2), of ?hash ?t] finds_in_elements [of ?hash "rehash ?hash k ?t" e]
  show ?thesis by (simp del: set_concat)
qed

lemma static_handler_table:
  assumes "table_inv hash t" and "elements t = sr_methods route"
  shows "static_handler F route request =
    bind (check (request \<noteq> None) ''request != nullptr'') (\<lambda>_.
    bind (getMethodAndPath F request) (\<lambda>(method, path).
      if path \<noteq> sr_originalPattern route then RouteMatch_handler PathNotMatched None
      else if \<not> finds_in hash t method then RouteMatch_handler MethodNotMatched None
      else static_match_maker (sr_handler route)))"
  by (simp only: static_handler_def finds_in_elements [OF assms(1)] assms(2))

end
