(* ===== verification/Spec2Isabelle.thy ===== *)
theory Spec2Isabelle
  imports Example_Files Plain_Requests Post_Parser Enum_Hash
begin

text \<open>
  A model of the nozomi web server library (\<open>src/src\<close>, C++ on folly, boost and
  proxygen) and the theorems that make it correct.

  THE PROGRAM. A \<open>Config\<close> holds the checked settings of a \<open>Server\<close>, which runs a proxygen
  server on a thread of its own. For each request proxygen asks the \<open>HTTPHandlerFactory\<close> for a
  handler. The factory asks the \<open>Router\<close>, which tries its static routes and then its regex
  routes in order and falls back to an error handler. A plain route gives an \<open>HTTPHandler\<close>: it
  collects the body, runs the user's handler as a future with a time limit and two error
  stages, and sends the \<open>HTTPResponse\<close>. A streaming route makes a \<open>StreamingHTTPHandler\<close> of
  the user's, whose operations post tasks to the event base; \<open>StreamingFileHandler\<close> is the one
  that the library brings, and \<open>PostParser\<close> helps handlers with posted forms.

  THE THEORIES, lower ones first; sources are below \<open>src/src/\<close>.
    \<^item> \<open>Prelude\<close>: \<open>'a outcome\<close>, a value, a C++ exception (\<open>Throw\<close>) or the end of the process
      (\<open>Abort\<close>: \<open>std::terminate\<close>, a failed \<open>CHECK\<close>, undefined behaviour that is used); \<open>bind\<close>,
      \<open>catch_if\<close>, \<open>noexcept\<close>, \<open>fold_outcome\<close> for loops; \<open>std::string::find\<close>, \<open>replace\<close>,
      \<open>insert\<close>; decimals; the machine integers; \<open>throws_only\<close>, the kinds of faults an outcome has.
    \<^item> \<open>Libraries\<close>: the third-party code (folly, IOBuf, boost::regex, proxygen's messages and
      headers) as records of functions, the laws used of them, and one instance of each.
    \<^item> \<open>Buffers\<close> (StringUtils.h), \<open>Requests\<close> (HTTPRequest.h, .cpp), \<open>Responses\<close>
      (HTTPResponse.h, .cpp): the data of a request and a response, with the constructors and
      accessors. \<open>Futures\<close>: a future is seen as when and with what it completes, or that it
      never does; and the static functions of HTTPResponse that make ready futures.
    \<^item> \<open>Route_Match\<close> (RouteMatch.h, BaseRoute.h): match results, ordered as the enumeration is,
      and the locale \<open>base_route\<close>, what the router relies on of a route.
      \<open>Static_Route\<close> (StaticRoute.h, -inl.h), \<open>Route_Parsing\<close> (RouteParsing.h, .cpp) and
      \<open>Regex_Route\<close> (Route.h, Route-inl.h, Util.h) model the two kinds of routes and interpret
      it; \<open>Router\<close> (Router.h, .cpp, Util.h) dispatches on the kind, interprets it once more and
      is proved from it. \<open>Enum_Hash\<close> (EnumHash.h): the hash of the methods of a route, and why
      the routes may keep them in a set.
    \<^item> \<open>Http_Handler\<close> (HTTPHandler.h, .cpp): \<open>response_chain\<close> is the future that \<open>onEOM\<close> builds.
      \<open>Http_Connection\<close> (the same files): \<open>conn_step\<close> runs one proxygen callback, the callback of
      the future, or an earlier stage of it that comes after the timeout, on a connection that
      remembers the writes and whether the handler was deleted.
    \<^item> \<open>Streaming_Handler\<close> (StreamingHTTPHandler.h, -inl.h): the base class as a record that a
      derived class extends, its virtual functions as a record of operations, the posted tasks
      as a list that the event base runs in order; the locale \<open>response_stream\<close> states the
      contract of the send operations, for a live and for a deleted handler.
      \<open>Streaming_File\<close> (StreamingFileHandler.h, .cpp) is its client; \<open>Paths\<close> holds
      \<open>std::ifstream\<close>, boost's paths, \<open>strptime\<close> and the file system as far as it needs them.
    \<^item> \<open>Server_Config\<close> (Config.h, .cpp): one definition per setter and constructor, in terms of
      outcomes, on the members in their order. \<open>Server_Life\<close> (Server.h, .cpp): \<open>start\<close> and
      \<open>stop\<close> with the main thread and the stopping threads as programs that take turns;
      \<open>server_reachable\<close> collects what their turns, in any allowed order, lead to.
    \<^item> \<open>Handler_Factory\<close> (HTTPHandlerFactory.h), \<open>Post_Parser\<close> (PostParser.h, .cpp; its map of
      vectors interprets the locale \<open>multimap\<close>).
    \<^item> \<open>Path_Expressions\<close>: the regular expressions that patterns are made of and searched with, as
      a datatype with its text, what it matches with which captures (an inductive relation), the
      order in which matches are tried (\<open>runs\<close>, with \<open>search_all\<close> on top of it), and the laws
      that relate \<open>boost::regex\<close> to both. \<open>Pattern_Search\<close>: the expression \<open>parse_route_pattern\<close>
      searches for as a tree, and what it finds in a pattern; \<open>Regex_Route\<close> rests on it.
      \<open>Route_Language\<close>: patterns as lists of slots, what they read, and that a \<open>Route\<close> made from
      the text of a pattern reads it.
    \<^item> \<open>File_Connection\<close>: the read job of the file handler in turns, and \<open>file_step\<close>, one callback,
      task or turn of a request for a file; the lemma \<open>job_in_turns\<close> relates its turns to the job of
      \<open>Streaming_File\<close>.
      \<open>File_Errors\<close>: the same with client errors. \<open>File_Ending\<close>: how its runs end.
    \<^item> \<open>Example_Server\<close> and \<open>Example_Main\<close> (examples/simple_server.cpp): the example program, its
      routes, the site it serves and the course of its \<open>main\<close>. \<open>Example_Files\<close>: a request for a
      file of the site in every order of its steps.
    \<^item> \<open>Plain_Requests\<close>: a request for a plain handler from the factory to the end of its message
      and through \<open>conn_step\<close> to the deletion of the handler.
    \<^item> This theory joins them.

  WHAT IS SHOWN.
    \<^item> Routing: a pattern is translated to the expression it means, with a group per placeholder
      (\<open>pattern_translated\<close>, for every pattern in which no expression contains the end of its own
      placeholder; \<open>expressions_cut\<close> says what becomes of two kinds of the others), or refused for
      an invalid expression in it (\<open>pattern_refused\<close>); a route exists exactly when its
      placeholders have the types of its handler and otherwise fails with a \<open>runtime_error\<close> that
      names the first difference; a match
      passes arguments of those types, each from its own group (\<open>route_passes_arguments\<close>), integers
      exact or saturated; the router answers as the
      first accepting route does and reports the best result of all (\<open>router_first_match\<close>,
      \<open>router_best_match\<close>, \<open>router_fallback\<close>). The expression matches the paths its pattern
      reads (\<open>route_language\<close>), and a URL printed from arguments comes back as these arguments
      (\<open>url_round_trip\<close>).
    \<^item> Plain requests: if neither the handler nor the 500 handler throws anything but standard
      exceptions, there is a response, at the latest after the timeout and what the 503 handler
      takes, and which one it is in each case
      (\<open>handler_always_answers\<close>, \<open>handler_success\<close>, \<open>handler_failure\<close>, \<open>handler_timeout\<close>), and
      with it \<open>plain_request_answered\<close> below; no order of callbacks without client errors
      touches a deleted handler (\<open>connection_safe\<close>, an invariant of \<open>conn_step\<close>), and every order
      ends with this response on the wire (\<open>plain_request_on_wire\<close>), unless the user's handler
      fails after its timeout (\<open>late_failure_use_after_free\<close>).
    \<^item> Streaming: what is sent is one well-formed response with the bytes in order. A file is
      served in blocks, each followed by what its buffer has room for beyond the size asked for
      (\<open>transmitted\<close>, \<open>surplus\<close>), which is the file byte for byte exactly if a new buffer has no such
      room (\<open>file_served\<close>), and only from below the base directory (\<open>file_path_contained\<close>), unless the
      path asked for begins with exactly two slashes. Whatever the interleaving of
      callbacks, tasks and the read job, without client errors nothing touches a deleted handler,
      the client sees a prefix of what is transmitted, and the request can be completed
      (\<open>file_connection_safe\<close>, \<open>file_connection_serves\<close>, \<open>file_connection_completes\<close>); indeed
      every run is completed, but for a client that never ends its request (\<open>file_connection_ends\<close>).
      Client errors do no harm while there is no read job (\<open>file_error_without_job_safe\<close>).
    \<^item> Server: construction accepts exactly the acceptable settings; with a careful owner no
      interleaving of start and stop aborts, and a stop ends in every order of the threads.
    \<^item> The example program answers each method and path as its site says, sends files in the same way in
      every order of steps (\<open>example_file_every_order\<close>), and
      its \<open>main\<close> neither aborts nor is left without a way to return.
    \<^item> Where the code goes wrong this is proved too: a client error while a callback or a read job
      is pending is a use after free, and so is a handler that fails after its timeout; a device
      error or an empty buffer makes the read loop run for ever; a path that begins with \<open>//..\<close> leads
      out of the base directory (\<open>file_path_escapes\<close>); an exception of the regex library
      ends the process; two overlapping stops abort; a foreign exception leaves a client without a
      response; text above 2 GiB is refused.

  TERMINATION. No definition takes fuel. Recursion is on lists and expressions, but for
  \<open>str_find\<close>, \<open>sent_bytes\<close>, \<open>blocks\<close>, \<open>runs\<close> and \<open>search_all\<close>, which have measures, and \<open>read_loop\<close>, the
  read loop of the file handler, which may run for ever: it is a partial function into options,
  where \<open>None\<close> is not returning.
  \<open>file_served\<close> and \<open>file_read_never_ends\<close> say when it is which.

  ASSUMPTIONS. A law about a library is a hypothesis wherever it is used, and its instance
  satisfies it. Checks are those of a debug build. The event base runs one task at a time, in the
  order in which they were posted (\<open>wire_of\<close>); in \<open>file_step\<close> only the tasks of one thread keep
  their order. The fields of \<open>struct tm\<close> that \<open>strptime\<close> does
  not set are part of the parameter that stands for it. Paths are those of boost::filesystem
  version 3: \<open>path_law\<close> says what the operations do on paths of names, \<open>element_law\<close> and
  \<open>root_name_law\<close> how a string is taken apart (exactly two slashes in front make a root name),
  \<open>append_law\<close> what appending does to the strings. A new IOBuf has at least the room asked for
  (\<open>iobuf_law\<close>), no more is assumed. \<open>HTTPServer::stop\<close> before the start callback counts as undefined behaviour. Of
  \<open>boost::regex_match\<close> it is assumed that it finds a match of an expression if there is one
  (\<open>perl_law\<close>) or throws; which of several it takes is left open. Of a search with
  \<open>boost::sregex_iterator\<close> it is assumed that it goes through a text as \<open>search_all\<close> does
  (\<open>search_law\<close>): leftmost, alternatives from the left, lazy repetitions as short as possible.

  NOT MODELLED. Logging; the moment at which \<open>then(evb)\<close> moves a continuation to the event base
  (its order among other callbacks is arbitrary in \<open>conn_step\<close>); the buckets of the standard
  library's tables but in \<open>Enum_Hash\<close>; what a user's handler does with its reference to the request
  once it has been started (a use of it after the timeout may find it deleted); the tests, the build files and the vendored scripts. What
  is left of the sources is includes, declarations of members that are modelled where they are
  defined, and comments. Several requests share no state of the library but the constant router,
  so that the theorems on one request are about each of them.
\<close>

section \<open>Properties across components\<close>

lemma served_config:
  assumes "Config_ip F P blank addrs n dir t sz = ok cfg"
    and "fac = hd (so_handlerFactories (sv_options (Server cfg rt)))"
  shows "hf_router fac = rt" and "cf_requestTimeout (hf_config fac) = t" and "0 < sint t"
  using assms by (auto simp: Config_ip_Inr acceptable_def the_config_def Server_def
      getHTTPServerOptions_def HTTPHandlerFactory_def)

lemma chain_in_timeout:
  assumes "futures_law X" and "0 < sint T" and "well_behaved B X rt handler req"
    and "settles_within s (getErrorHandler B X rt 503 req)"
  shows "\<exists>at r. sent (response_chain B X T rt handler req) = Some (at, r) \<and> int at \<le> sint T + int s"
  using chain_settles [OF assms] assms(2) by (auto simp: sent_def)

text \<open>
  C1. Every request to a plain handler is answered in time: with a configuration the
  constructor accepted, on a server made of it, for any method, path and body (in any number
  of parts) that its routes can match against (no match is given up as too complex) and that the
  router does not give to a streaming route. If neither the
  handler nor the router's handler for 500 throws anything but standard exceptions, and the
  router's handler for 503 settles within \<open>s\<close> (0 for the default one), the factory makes a
  handler, the handler sees the whole request, and a response is ready within the configured
  timeout and \<open>s\<close>.
\<close>

theorem plain_request_answered:
  assumes "Config_ip F P blank addrs n dir t sz = ok cfg"
    and "fac = hd (so_handlerFactories (sv_options (Server cfg rt)))"
    and "unescape_law F" and "iobuf_law B" and "futures_law X"
    and "routable F R rt m" and "\<And>y. getHandler F R B X rt (Some m) = ok y \<Longrightarrow> rm_streamingHandler y = None"
    and "\<And>y handler. getHandler F R B X rt (Some m) = ok y \<Longrightarrow> rm_handler y = Some handler \<Longrightarrow>
      well_behaved B X rt (Some handler) (request_of F m bodies)"
    and "settles_within s (getErrorHandler B X rt 503 (request_of F m bodies))"
  shows "\<exists>h c at r. serve_plain F R B X fac m bodies = ok (Some h) \<and>
    hh_request h = Some (request_of F m bodies) \<and>
    hh_response h = Some c \<and> sent c = Some (at, r) \<and> int at \<le> sint t + int s"
proof -
  note fac = served_config [OF assms(1,2)]
  obtain x handler where x: "getHandler F R B X rt (Some m) = ok x" "rm_handler x = Some handler"
  proof (cases "\<exists>r \<in> set (ask_order rt). accepts F R r m")
    case True
    then obtain pre r post where "ask_order rt = pre @ r # post"
        "\<forall>q \<in> set pre. \<not> accepts F R q m" "accepts F R r m"
      by (rule first_accepting)
    with getHandler_first [OF assms(6) this, of B X]
    obtain x where x: "getHandler F R B X rt (Some m) = ok x" "route_handler F R r (Some m) = ok x" by blast
    with dispatch.match_law [of F R r m x] \<open>accepts F R r m\<close> have "one_callable x"
      by (simp add: accepts_def)
    with assms(7) [OF x(1)] x(1) that show ?thesis by (auto simp: one_callable_def)
  next
    case False
    with getHandler_unmatched [OF assms(6), of B X] that show ?thesis
      by (auto simp: fallback_def)
  qed
  obtain h where h: "serve_plain F R B X fac m bodies = ok (Some h)"
      "hh_request h = Some (request_of F m bodies)"
      "hh_response h = Some (response_chain B X t rt (Some handler) (request_of F m bodies))"
    using serve_plain_eq [OF assms(3,4), of R X fac m x handler bodies] x fac by auto
  with chain_in_timeout [OF assms(5) fac(3) assms(8) [OF x] assms(9)] show ?thesis by blast
qed

text \<open>
  C14. A plain request in every order: with a configuration the constructor accepted, for a request
  that the router gives to a plain handler which is neither started nor fails after the timeout,
  where neither it nor the router's handler for 500 throws anything but standard exceptions and the
  router's handler for 503 settles within \<open>s\<close> (0 for the default one), the callbacks of proxygen
  lead to a connection whose response is ready within the timeout and \<open>s\<close>. From there, without
  client errors, no order of what follows ends the process or goes on for ever, the client sees
  nothing or this response, and there is a next step until it has been sent and the handler deleted.
\<close>

theorem plain_request_on_wire:
  assumes "Config_ip F P blank addrs n dir T sz = ok cfg"
    and "fac = hd (so_handlerFactories (sv_options (Server cfg rt)))"
    and "unescape_law F" and "iobuf_law B" and "futures_law X"
    and "getHandler F R B X rt (Some m) = ok y" and "rm_handler y = Some handler"
    and "req = request_of F m bodies" and "well_behaved B X rt (Some handler) req" and "settles_within s (getErrorHandler B X rt 503 req)"
    and "scheduled X (Some handler) req = delay lag (call_function (Some handler) req)"
    and "stale_stages T lag (call_function (Some handler) req) = []"
  shows "\<exists>h cn0 c at r. serve_plain F R B X fac m bodies = ok (Some h) \<and>
    new_connection B T rt (Some handler) m = ok cn0 \<and>
    conn_reachable F B X lag False cn0 (answering lag h) \<and>
    hh_request h = Some req \<and> hh_response h = Some c \<and> sent c = Some (at, r) \<and> int at \<le> sint T + int s \<and>
    (\<forall>cn. conn_reachable F B X lag False (answering lag h) cn \<longrightarrow>
      (\<nexists>f. conn_step F B X lag False cn (Inl f)) \<and> (cn_wire cn = [] \<or> cn_wire cn = sendResponse B r) \<and>
      ((\<exists>cn'. conn_step F B X lag False cn (ok cn')) \<or> cn_object cn = Deleted \<and> cn_wire cn = sendResponse B r)) \<and>
    (\<nexists>run. run 0 = answering lag h \<and> (\<forall>i. conn_step F B X lag False (run i) (ok (run (Suc i)))))"
proof -
  have fac: "hf_router fac = rt" "T = cf_requestTimeout (hf_config fac)" and T: "0 < sint T"
    using served_config [OF assms(1,2)] by simp_all
  have routed: "getHandler F R B X (hf_router fac) (Some m) = ok y"
    using assms(6) fac(1) by simp
  obtain h cn0 where h: "serve_plain F R B X fac m bodies = ok (Some h)" "hh_request h = Some req"
      "hh_response h = Some (response_chain B X T rt (Some handler) req)" "cn_stale (answering lag h) = []"
      "new_connection B T rt (Some handler) m = ok cn0" "conn_reachable F B X lag False cn0 (answering lag h)"
    using answering_reached [OF assms(3,4) routed assms(7) fac(2) assms(8,11), where errors = False] assms(12) fac(1)
    by auto
  obtain at r where sent: "sent (response_chain B X T rt (Some handler) req) = Some (at, r)" "int at \<le> sint T + int s"
    using chain_in_timeout [OF assms(5) T assms(9,10)] by blast
  have request: "hh_request h \<noteq> None" using h(2) by simp
  from answer_course [OF request h(3) sent(1) h(4)] answer_no_run [OF request h(3) sent(1) h(4)] h sent show ?thesis
    by blast
qed

text \<open>
  C19. A request no route accepts (and none gives up matching), on a router without error handlers of its own for 404, 405 and
  503: the client is sent exactly the status 405 where some route has the path and 404 where none
  has, no headers, an empty body and the end of the message, as soon as the executor has come to
  it, if that is before the timeout. If the executor is later than the timeout, it is sent the same
  with the status 503, at the timeout.
\<close>

theorem unrouted_request_on_wire:
  assumes "unescape_law F" and "iobuf_law B" and "futures_law X"
    and "hf_router fac = make_router errs rs" and "routable F R (make_router errs rs) m"
    and "\<forall>r \<in> set rs. \<not> accepts F R r m" and "errs 404 = None" and "errs 405 = None" and "errs 503 = None"
    and "\<And>f. fu_via X f = delay d (f ())" and "T = cf_requestTimeout (hf_config fac)" and "0 < sint T"
  shows "\<exists>h c. serve_plain F R B X fac m bodies = ok (Some h) \<and> hh_response h = Some c \<and>
    (int d < sint T \<longrightarrow> (\<exists>r. sent c = Some (d, r) \<and>
      sendResponse B r = [B_status (if \<exists>r \<in> set rs. route_path F R r m then 405 else 404) [],
        B_body [[]], B_sendWithEOM])) \<and>
    (sint T < int d \<longrightarrow> (\<exists>r. sent c = Some (nat (sint T), r) \<and>
      sendResponse B r = [B_status 503 [], B_body [[]], B_sendWithEOM]))"
proof -
  let ?rt = "make_router errs rs" and ?found = "\<exists>r \<in> set rs. route_path F R r m"
    and ?req = "request_of F m bodies"
  let ?code = "if ?found then 405 else 404 :: int32"
  let ?handler = "Some (getErrorHandler B X ?rt ?code)"
  have order: "set (ask_order ?rt) = set rs"
    by (auto simp: ask_order_def make_router_eq)
  have x: "getHandler F R B X ?rt (Some m) = ok (fallback B X ?rt ?found)"
    using getHandler_unmatched [OF assms(5), of B X] assms(6) order by simp
  obtain h where h: "serve_plain F R B X fac m bodies = ok (Some h)"
      "hh_response h = Some (response_chain B X T ?rt ?handler ?req)"
    using serve_plain_eq [OF assms(1,2), of R X fac m "fallback B X ?rt ?found"
        "getErrorHandler B X ?rt ?code" bodies] x assms(4,11)
    by (auto simp: fallback_def)
  have "getErrorHandler B X ?rt ?code ?req = Completed 0 (ok (empty_response (if ?found then 405 else 404)))"
    by (simp add: getErrorHandler_eq [OF assms(3,2)] make_router_eq assms(7,8) ucast_codes)
  then have starts: "scheduled X ?handler ?req = Completed d (ok (empty_response (if ?found then 405 else 404)))"
    by (simp add: assms(10) call_function_def)
  have wire: "sendResponse B (empty_response code) = [B_status code [], B_body [[]], B_sendWithEOM]" for code
    using assms(2) by (simp add: sendResponse_def empty_response_def getStatusCode_def getBody_def iobuf_law_def)
  have "response_chain B X T ?rt ?handler ?req = Completed d (ok (empty_response (if ?found then 405 else 404)))"
    if "int d < sint T"
    by (rule chain_in_time [OF assms(3,12) starts that])
  moreover have "response_chain B X T ?rt ?handler ?req = Completed (nat (sint T)) (ok (empty_response 503))"
    if "sint T < int d"
    using chain_late [OF assms(3,2,12), of ?handler ?req ?rt] that starts assms(9)
    by (simp add: late_def make_router_eq)
  ultimately show ?thesis
    using h wire by (auto simp: sent_def)
qed

section \<open>Witnesses\<close>

lemma ref_static_answer:
  "route_handler ref_folly ref_regex ref_static (Some (plain_message ''/hello'')) = ok
     \<lparr>rm_result = RouteMatched, rm_handler = Some (\<lambda>request. call_function (Some ref_handler) request),
      rm_streamingHandler = None\<rparr>"
  by (simp add: ref_static_def make_static_route_def static_handler_def
      getMethodAndPath_total [OF ref_folly_laws(1)] ref_hello_path ref_hello_method)

lemma ref_hello_answer:
  "getHandler ref_folly ref_regex ref_iobuf ref_futures ref_router (Some (plain_message ''/hello'')) = ok
     \<lparr>rm_result = RouteMatched, rm_handler = Some (\<lambda>request. call_function (Some ref_handler) request),
      rm_streamingHandler = None\<rparr>"
  by (simp add: getHandler_def make_router_eq ref_routes_def)
     (simp add: ref_static_answer ref_static_def ref_regex_route_def
       ref_static_answer [unfolded ref_static_def, simplified])

lemma ref_bye_rejects:
  "\<not> accepts ref_folly ref_regex ref_regex_route (plain_message ''/hello'')"
  by (simp add: accepts_def ref_regex_route_def regex_matches_def ref_hello_path) (simp add: ref_regex_def)

definition ref_served_factory :: "unit handler_factory" where
  "ref_served_factory = hd (so_handlerFactories (sv_options (Server ref_config ref_router)))"

lemma plain_request_answered_witness:
  "\<exists>h c at r. serve_plain ref_folly ref_regex ref_iobuf ref_futures ref_served_factory
      (plain_message ''/hello'') [[''ab''], [''c'']] = ok (Some h) \<and>
    hh_request h = Some (request_of ref_folly (plain_message ''/hello'') [[''ab''], [''c'']]) \<and>
    hh_response h = Some c \<and> sent c = Some (at, r) \<and> int at \<le> sint (30000 :: int64) + int 0"
proof (rule plain_request_answered [OF _ ref_served_factory_def ref_folly_laws(1) ref_iobuf_law
      ref_futures_law ref_routable])
  show "Config_ip ref_folly ref_fs ref_config
      [\<lparr>ip_address = (''0.0.0.0'', 8080), ip_protocol = Protocol ''HTTP''\<rparr>] 4 None 30000 4096 = ok ref_config"
    by (simp add: Config_ip_Inr acceptable_def ref_config_def usable_dir_def)
  show "rm_streamingHandler y = None"
    if "getHandler ref_folly ref_regex ref_iobuf ref_futures ref_router (Some (plain_message ''/hello'')) = ok y" for y
    using that by (auto simp: ref_hello_answer)
  show "settles_within 0 (getErrorHandler ref_iobuf ref_futures ref_router 503
      (request_of ref_folly (plain_message ''/hello'') [[''ab''], [''c'']]))"
    by (rule default_handler_settles(1) [OF ref_futures_law ref_no_errors])
  show "well_behaved ref_iobuf ref_futures ref_router (Some handler)
      (request_of ref_folly (plain_message ''/hello'') [[''ab''], [''c'']])"
    if "getHandler ref_folly ref_regex ref_iobuf ref_futures ref_router (Some (plain_message ''/hello'')) = ok y"
      and "rm_handler y = Some handler" for y handler
    using that by (auto simp: ref_hello_answer call_function_def ref_handler_def no_foreign_def throws_only_def
        intro!: ref_behaved)
qed

lemma plain_request_on_wire_witness:
  "\<exists>h cn cn0 r. serve_plain ref_folly ref_regex ref_iobuf ref_futures ref_served_factory
      (plain_message ''/hello'') [[''ab''], [''c'']] = ok (Some h) \<and>
    new_connection ref_iobuf 30000 ref_router (Some (\<lambda>request. call_function (Some ref_handler) request))
      (plain_message ''/hello'') = ok cn0 \<and>
    conn_reachable ref_folly ref_iobuf ref_futures 0 False cn0 (answering 0 h) \<and>
    conn_step ref_folly ref_iobuf ref_futures 0 False (answering 0 h) (ok cn) \<and>
    (cn_wire cn = [] \<or> cn_wire cn = sendResponse ref_iobuf r)"
proof -
  let ?handler = "\<lambda>request. call_function (Some ref_handler) request"
  let ?req = "request_of ref_folly (plain_message ''/hello'') [[''ab''], [''c'']]"
  have config: "Config_ip ref_folly ref_fs ref_config
      [\<lparr>ip_address = (''0.0.0.0'', 8080), ip_protocol = Protocol ''HTTP''\<rparr>] 4 None 30000 4096 = ok ref_config"
    by (simp add: Config_ip_Inr acceptable_def ref_config_def usable_dir_def)
  have behaved: "well_behaved ref_iobuf ref_futures ref_router (Some ?handler) ?req"
    by (auto simp: call_function_def ref_handler_def no_foreign_def throws_only_def intro!: ref_behaved)
  have "\<exists>h cn0 c at r. serve_plain ref_folly ref_regex ref_iobuf ref_futures ref_served_factory
      (plain_message ''/hello'') [[''ab''], [''c'']] = ok (Some h) \<and>
    new_connection ref_iobuf 30000 ref_router (Some ?handler) (plain_message ''/hello'') = ok cn0 \<and>
    conn_reachable ref_folly ref_iobuf ref_futures 0 False cn0 (answering 0 h) \<and>
    hh_request h = Some ?req \<and> hh_response h = Some c \<and> sent c = Some (at, r) \<and> int at \<le> sint (30000 :: int64) + int 0 \<and>
    (\<forall>cn. conn_reachable ref_folly ref_iobuf ref_futures 0 False (answering 0 h) cn \<longrightarrow>
      (\<nexists>f. conn_step ref_folly ref_iobuf ref_futures 0 False cn (Inl f)) \<and>
      (cn_wire cn = [] \<or> cn_wire cn = sendResponse ref_iobuf r) \<and>
      ((\<exists>cn'. conn_step ref_folly ref_iobuf ref_futures 0 False cn (ok cn')) \<or>
        cn_object cn = Deleted \<and> cn_wire cn = sendResponse ref_iobuf r)) \<and>
    (\<nexists>run. run 0 = answering 0 h \<and>
      (\<forall>i. conn_step ref_folly ref_iobuf ref_futures 0 False (run i) (ok (run (Suc i)))))"
    by (rule plain_request_on_wire [OF config ref_served_factory_def ref_folly_laws(1) ref_iobuf_law ref_futures_law
          ref_hello_answer _ refl behaved default_handler_settles(1) [OF ref_futures_law ref_no_errors]])
      (simp_all add: ref_scheduled stale_stages_def stage_times_def call_function_def ref_handler_def)
  then obtain h cn0 r where h: "serve_plain ref_folly ref_regex ref_iobuf ref_futures ref_served_factory
      (plain_message ''/hello'') [[''ab''], [''c'']] = ok (Some h)"
    "new_connection ref_iobuf 30000 ref_router (Some ?handler) (plain_message ''/hello'') = ok cn0"
    "conn_reachable ref_folly ref_iobuf ref_futures 0 False cn0 (answering 0 h)"
    "\<And>cn. conn_reachable ref_folly ref_iobuf ref_futures 0 False (answering 0 h) cn \<Longrightarrow>
      (cn_wire cn = [] \<or> cn_wire cn = sendResponse ref_iobuf r) \<and>
      ((\<exists>cn'. conn_step ref_folly ref_iobuf ref_futures 0 False cn (ok cn')) \<or> cn_object cn = Deleted)"
    by blast
  moreover have "cn_object (answering 0 h) \<noteq> Deleted" by (simp add: answering_def)
  ultimately obtain cn where "conn_step ref_folly ref_iobuf ref_futures 0 False (answering 0 h) (ok cn)"
    using conn_reachable.start by metis
  with h(1-3) h(4) [OF conn_reachable.step [OF conn_reachable.start this]] show ?thesis by blast
qed

definition slow_futures :: futures_lib where
  "slow_futures = ref_futures\<lparr>fu_via := (\<lambda>f. delay 40000 (f ()))\<rparr>"

lemma slow_futures_law: "futures_law slow_futures"
  using ref_futures_law by (auto simp: futures_law_def slow_futures_def ref_futures_def Let_def)

lemma unrouted_routable:
  "routable ref_folly ref_regex (make_router (\<lambda>_. None) [ref_regex_route]) (plain_message ''/hello'')"
  using ref_routable [of "\<lambda>_. None" "plain_message ''/hello''"]
  by (auto simp: routable_def ask_order_def make_router_eq ref_routes_def ref_regex_route_def)

text \<open>The first request is answered at once, the second one meets an executor that is too late.\<close>

lemma unrouted_request_on_wire_witness:
  "(\<exists>h c r. serve_plain ref_folly ref_regex ref_iobuf ref_futures
      (HTTPHandlerFactory ref_config (make_router (\<lambda>_. None) [ref_regex_route]))
      (plain_message ''/hello'') [] = ok (Some h) \<and> hh_response h = Some c \<and> sent c = Some (0, r) \<and>
    sendResponse ref_iobuf r = [B_status (if \<exists>r \<in> set [ref_regex_route].
        route_path ref_folly ref_regex r (plain_message ''/hello'') then 405 else 404) [],
      B_body [[]], B_sendWithEOM]) \<and>
   (\<exists>h c r. serve_plain ref_folly ref_regex ref_iobuf slow_futures
      (HTTPHandlerFactory ref_config (make_router (\<lambda>_. None) [ref_regex_route]))
      (plain_message ''/hello'') [] = ok (Some h) \<and> hh_response h = Some c \<and> sent c = Some (30000, r) \<and>
    sendResponse ref_iobuf r = [B_status 503 [], B_body [[]], B_sendWithEOM])"
proof
  let ?fac = "HTTPHandlerFactory ref_config (make_router (\<lambda>_. None) [ref_regex_route])"
  have fac: "hf_router ?fac = make_router (\<lambda>_. None) [ref_regex_route]" "30000 = cf_requestTimeout (hf_config ?fac)"
      "\<forall>r \<in> set [ref_regex_route]. \<not> accepts ref_folly ref_regex r (plain_message ''/hello'')"
      "0 < sint (30000 :: int64)"
    by (simp_all add: HTTPHandlerFactory_def ref_bye_rejects ref_config_def the_config_def)
  have "fu_via ref_futures f = delay 0 (f ())" "fu_via slow_futures f = delay 40000 (f ())" for f
    by (simp_all add: ref_futures_def slow_futures_def)
  note both = unrouted_request_on_wire [OF ref_folly_laws(1) ref_iobuf_law ref_futures_law fac(1) unrouted_routable fac(3)
      refl refl refl this(1) fac(2,4), of "[]"]
    unrouted_request_on_wire [OF ref_folly_laws(1) ref_iobuf_law slow_futures_law fac(1) unrouted_routable fac(3)
      refl refl refl this(2) fac(2,4), of "[]"]
  from both(1) show "\<exists>h c r. serve_plain ref_folly ref_regex ref_iobuf ref_futures ?fac
      (plain_message ''/hello'') [] = ok (Some h) \<and> hh_response h = Some c \<and> sent c = Some (0, r) \<and>
    sendResponse ref_iobuf r = [B_status (if \<exists>r \<in> set [ref_regex_route].
        route_path ref_folly ref_regex r (plain_message ''/hello'') then 405 else 404) [],
      B_body [[]], B_sendWithEOM]"
    by auto
  from both(2) show "\<exists>h c r. serve_plain ref_folly ref_regex ref_iobuf slow_futures ?fac
      (plain_message ''/hello'') [] = ok (Some h) \<and> hh_response h = Some c \<and> sent c = Some (30000, r) \<and>
    sendResponse ref_iobuf r = [B_status 503 [], B_body [[]], B_sendWithEOM]"
    by auto
qed

end
